(* ===== verification/Prelude.thy ===== *)
theory Prelude
  imports Main "HOL-Library.Word" "HOL-Library.Monad_Syntax"
begin

unbundle bit_operations_syntax

text \<open>
  Shared material: the names of the machine integer types, the collections of rewrite
  rules the component proofs use, and generic lemmas on words and lists.

  The target is a Cortex-M0+: \<open>int\<close>, \<open>size_t\<close> and pointers have 32 bits, \<open>char\<close> is
  unsigned.  Results of type \<open>'a option\<close> in the model of a C function mean: \<open>None\<close>, the
  function does not return a value (it loops for ever, or it does something the C standard
  gives no meaning to, such as reading past the end of an array or dividing by zero);
  \<open>Some r\<close>, it returns \<open>r\<close>.
\<close>

section \<open>Machine integers\<close>

type_synonym u8 = "8 word"
type_synonym u16 = "16 word"
type_synonym u32 = "32 word"
type_synonym u64 = "64 word"

text \<open>The collections: byte-order facts, reads of memory after writes, and facts on the
  footprint of an operation.\<close>

named_theorems le_simps
named_theorems mem_simps
named_theorems footprint

section \<open>Words\<close>

lemma unat_u32_lt [simp]: "unat (w :: u32) < 4294967296"
  using unsigned_less [of w, where ?'a = nat] by simp

lemma unat_u16_lt [simp]: "unat (w :: u16) < 65536"
  using unsigned_less [of w, where ?'a = nat] by simp

lemma unat_u8_lt [simp]: "unat (w :: u8) < 256"
  using unsigned_less [of w, where ?'a = nat] by simp

lemma unat_add_u32:
  "unat a + unat b < 4294967296 \<Longrightarrow> unat (a + b :: u32) = unat a + unat b"
  by (simp add: unat_word_ariths)

lemma unat_sub_u32:
  "unat b \<le> unat a \<Longrightarrow> unat (a - b :: u32) = unat a - unat b"
  by (simp add: unat_sub word_le_nat_alt)

lemma unat_of_nat_u32 [simp]: "n < 4294967296 \<Longrightarrow> unat (of_nat n :: u32) = n"
  by (simp add: unat_of_nat take_bit_nat_eq_self)

lemma unat_of_nat_u16 [simp]: "n < 65536 \<Longrightarrow> unat (of_nat n :: u16) = n"
  by (simp add: unat_of_nat take_bit_nat_eq_self)

lemma unat_ucast_u8_u32 [simp]: "unat (ucast (b :: u8) :: u32) = unat b"
  by (simp add: unsigned_ucast_eq take_bit_nat_eq_self order_less_trans [OF unat_u8_lt])

lemma unat_ucast_u16_u32 [simp]: "unat (ucast (b :: u16) :: u32) = unat b"
  by (simp add: unsigned_ucast_eq take_bit_nat_eq_self order_less_trans [OF unat_u16_lt])

lemma unat_ucast_u32_u16: "unat (w :: u32) < 65536 \<Longrightarrow> unat (ucast w :: u16) = unat w"
  by (simp add: unsigned_ucast_eq take_bit_nat_eq_self)

lemma word_eq_of_nat: "unat (w :: u32) = n \<Longrightarrow> w = of_nat n"
  by auto

lemma bit_u8_high [simp]: "8 \<le> n \<Longrightarrow> \<not> bit (b :: u8) n"
  using bit_imp_le_length [of b n] by auto

lemma ucast_and_FF: "(ucast (w AND 0xFF) :: u8) = ucast w" for w :: u32
proof -
  have "w AND 0xFF = take_bit 8 w" by (simp add: take_bit_eq_mask mask_eq_exp_minus_1)
  then show ?thesis by (simp only:) (rule bit_word_eqI, simp add: bit_simps)
qed

lemma ucast_ucast_u8: "(ucast (ucast b :: u32) :: u8) = b" for b :: u8
  by (rule bit_word_eqI) (simp add: bit_simps)

lemma xor_eq_0D: "x XOR y = 0 \<Longrightarrow> x = (y :: 'a :: len word)"
  by (rule bit_word_eqI) (metis bit_0_eq bit_xor_iff bot_apply bot_bool_def)

lemma unat_mod_u32: "unat (a mod b :: u32) = unat a mod unat b"
  by (simp add: unat_mod_distrib)

lemma unat_div_u32: "unat (a div b :: u32) = unat a div unat b"
  by (simp add: unat_div_distrib)

lemma unat_diff_rev_u32:
  assumes "q \<noteq> (p :: u32)"
  shows "unat (p - q) = 4294967296 - unat (q - p)"
proof -
  have "(unat (p - q) + unat (q - p)) mod 4294967296 = unat ((p - q) + (q - p))"
    by (simp only: unat_word_ariths) simp
  also have "\<dots> = 0" by simp
  finally have dv: "4294967296 dvd unat (p - q) + unat (q - p)" by (simp add: mod_eq_0_iff_dvd)
  have "0 < unat (p - q)" using assms by (simp add: unat_gt_0)
  moreover have "unat (p - q) + unat (q - p) < 2 * 4294967296"
    using unat_u32_lt [of "p - q"] unat_u32_lt [of "q - p"] by linarith
  ultimately have "unat (p - q) + unat (q - p) = 4294967296"
    using dv by (auto elim!: dvdE)
  then show ?thesis by simp
qed

end
