(* ===== verification/Hexutils.thy ===== *)
theory Hexutils
  imports Prelude
begin

unbundle bit_operations_syntax

text \<open>
  The helpers of \<open>src/src/lib/util/hexutils.c\<close> and \<open>hexutils.h\<close>: little-endian reads of
  byte arrays, and the number printers.  A pointer argument that is only read is the
  accessor \<open>\<lambda>i. p[i]\<close>, so that the same definition serves reads of a local array and reads
  of memory; the printers return the characters they store, in order.
\<close>

section \<open>Little-endian reads\<close>

definition read_le32 :: "(nat \<Rightarrow> u8) \<Rightarrow> u16 \<Rightarrow> u32" where
  "read_le32 data offset =
     (let i = unat offset in
      ucast (data i) OR
      push_bit 8 (ucast (data (i + 1))) OR
      push_bit 16 (ucast (data (i + 2))) OR
      push_bit 24 (ucast (data (i + 3))))"

definition read_le16 :: "(nat \<Rightarrow> u8) \<Rightarrow> u16 \<Rightarrow> u16" where
  "read_le16 data offset =
     (let i = unat offset in
      ucast ((ucast (data i) :: u32) OR push_bit 8 (ucast (data (i + 1)))))"

text \<open>The little-endian byte sequences of a value.\<close>

definition le_bytes32 :: "u32 \<Rightarrow> u8 list" where
  "le_bytes32 v = [ucast v, ucast (drop_bit 8 v), ucast (drop_bit 16 v), ucast (drop_bit 24 v)]"

definition le_bytes16 :: "u16 \<Rightarrow> u8 list" where
  "le_bytes16 v = [ucast v, ucast (drop_bit 8 v)]"

lemma length_le_bytes32 [simp]: "length (le_bytes32 v) = 4"
  by (simp add: le_bytes32_def)

lemma length_le_bytes16 [simp]: "length (le_bytes16 v) = 2"
  by (simp add: le_bytes16_def)

lemma le_join32 [le_simps]:
  "(ucast (ucast (v :: u32) :: u8) :: u32) OR
     push_bit 8 (ucast (ucast (drop_bit 8 v) :: u8)) OR
     push_bit 16 (ucast (ucast (drop_bit 16 v) :: u8)) OR
     push_bit 24 (ucast (ucast (drop_bit 24 v) :: u8)) = v"
proof (rule bit_word_eqI)
  fix n assume "n < LENGTH(32)"
  then consider "n < 8" | "8 \<le> n" "n < 16" | "16 \<le> n" "n < 24" | "24 \<le> n" "n < 32"
    by fastforce
  then show "bit ((ucast (ucast v :: u8) :: u32) OR
     push_bit 8 (ucast (ucast (drop_bit 8 v) :: u8)) OR
     push_bit 16 (ucast (ucast (drop_bit 16 v) :: u8)) OR
     push_bit 24 (ucast (ucast (drop_bit 24 v) :: u8))) n \<longleftrightarrow> bit v n"
    by cases (auto simp: bit_simps)
qed

lemma le_join16 [le_simps]:
  "(ucast ((ucast (ucast (v :: u16) :: u8) :: u32) OR
     push_bit 8 (ucast (ucast (drop_bit 8 v) :: u8))) :: u16) = v"
  by (rule bit_word_eqI) (auto simp: bit_simps)

lemma le_bytes32_read_le32:
  "le_bytes32 (read_le32 data off) = map (\<lambda>i. data (unat off + i)) [0, 1, 2, 3]"
  by (auto simp: le_bytes32_def read_le32_def Let_def bit_simps
    intro!: bit_word_eqI dest: bit_imp_le_length)

lemma le_bytes16_read_le16:
  "le_bytes16 (read_le16 data off) = map (\<lambda>i. data (unat off + i)) [0, 1]"
  by (auto simp: le_bytes16_def read_le16_def Let_def bit_simps
    intro!: bit_word_eqI dest: bit_imp_le_length)

text \<open>Reading back what was encoded, at any offset of a buffer.\<close>

lemma read_le32_le_bytes32:
  assumes "\<And>i. i < 4 \<Longrightarrow> data (unat off + i) = le_bytes32 v ! i"
  shows "read_le32 data off = v"
proof -
  have "data (unat off) = ucast v" "data (unat off + 1) = ucast (drop_bit 8 v)"
    "data (unat off + 2) = ucast (drop_bit 16 v)" "data (unat off + 3) = ucast (drop_bit 24 v)"
    using assms [of 0] assms [of 1] assms [of 2] assms [of 3]
    by (simp_all add: le_bytes32_def)
  then show ?thesis by (simp add: read_le32_def le_join32)
qed

lemma read_le16_le_bytes16:
  assumes "\<And>i. i < 2 \<Longrightarrow> data (unat off + i) = le_bytes16 v ! i"
  shows "read_le16 data off = v"
proof -
  have "data (unat off) = ucast v" "data (unat off + 1) = ucast (drop_bit 8 v)"
    using assms [of 0] assms [of 1] by (simp_all add: le_bytes16_def)
  then show ?thesis by (simp add: read_le16_def le_join16)
qed

lemma read_le32_cong:
  assumes "\<And>i. i < 4 \<Longrightarrow> d (unat off + i) = d' (unat off' + i)"
  shows "read_le32 d off = read_le32 d' off'"
  using assms [of 0] assms [of 1] assms [of 2] assms [of 3] by (simp add: read_le32_def Let_def)

section \<open>Number printers\<close>

definition chars :: "string \<Rightarrow> u8 list" where
  "chars s = map of_char s"

definition hex_digits :: "u8 list" where
  "hex_digits = chars ''0123456789ABCDEF''"

definition hexToStr :: "u32 \<Rightarrow> u8 list" where
  "hexToStr n =
     map (\<lambda>i. hex_digits ! unat (drop_bit (28 - i * 4) n AND 0xF)) [0..<8] @ [0]"

definition byteToStr :: "u8 \<Rightarrow> u8 list" where
  "byteToStr n =
     [hex_digits ! unat (drop_bit 4 n AND 0x0F), hex_digits ! unat (n AND 0x0F), 0]"

definition byteToDec :: "u8 \<Rightarrow> u8 list" where
  "byteToDec n =
     [(n div 100) mod 10 + 0x30, (n div 10) mod 10 + 0x30, n mod 10 + 0x30, 0]"

text \<open>The two loops of \<open>intToDec\<close>: the first fills \<open>temp_str\<close> with the digits, least
  significant first; the second copies them in reverse.\<close>

function intToDec_digits :: "u32 \<Rightarrow> u8 list \<Rightarrow> u8 list" where
  "intToDec_digits n temp_str =
     (if 0 < n then intToDec_digits (n div 10) (temp_str @ [ucast (n mod 10) + 0x30])
      else temp_str)"
  by pat_completeness auto
termination
  by (relation "measure (\<lambda>(n, t). unat n)") (auto simp: unat_div_u32 word_less_nat_alt)

declare intToDec_digits.simps [simp del]

definition intToDec :: "u32 \<Rightarrow> u8 list" where
  "intToDec n = (if n = 0 then [0x30, 0] else rev (intToDec_digits n []) @ [0])"

text \<open>What a printed number denotes: the value of a digit string in base \<open>b\<close>.\<close>

definition digit_value :: "u8 \<Rightarrow> nat" where
  "digit_value c = (if 0x41 \<le> c then unat c - 55 else unat c - 48)"

definition digits_value :: "nat \<Rightarrow> u8 list \<Rightarrow> nat" where
  "digits_value b ds = foldl (\<lambda>a c. b * a + digit_value c) 0 ds"

definition is_dec_digit :: "u8 \<Rightarrow> bool" where
  "is_dec_digit c \<longleftrightarrow> 0x30 \<le> c \<and> c \<le> 0x39"

lemma digits_value_snoc: "digits_value b (ds @ [c]) = b * digits_value b ds + digit_value c"
  by (simp add: digits_value_def)

lemma dec_digit_of:
  assumes "k < 10"
  shows "is_dec_digit (of_nat k + 0x30)" "digit_value (of_nat k + 0x30) = k"
proof -
  have "k \<in> {0, 1, 2, 3, 4, 5, 6, 7, 8, 9}" using assms by auto
  then show "is_dec_digit (of_nat k + 0x30)" "digit_value (of_nat k + 0x30) = k"
    by (auto simp: is_dec_digit_def digit_value_def)
qed

lemma ucast_mod10: "(ucast (n mod 10 :: u32) :: u8) = of_nat (unat n mod 10)"
  proof -
  have "(ucast (n mod 10 :: u32) :: u8) = of_nat (unat (n mod 10))"
    by (simp only: of_nat_unat)
  then show ?thesis by (simp add: unat_mod_u32)
qed

text \<open>What the digit loop appends, for every content of the scratch array.\<close>

lemma intToDec_digits_spec:
  "\<exists>ds. (\<forall>t. intToDec_digits n t = t @ ds) \<and> digits_value 10 (rev ds) = unat n \<and>
     list_all is_dec_digit ds \<and> (0 < n \<longrightarrow> ds \<noteq> [] \<and> last ds \<noteq> 0x30) \<and>
     (\<forall>k. unat n < 10 ^ k \<longrightarrow> length ds \<le> k)"
proof (induction "unat n" arbitrary: n rule: less_induct)
  case less
  show ?case
  proof (cases "0 < n")
    case False
    then have "n = 0" by (simp add: word_gt_0)
    then show ?thesis
      by (intro exI [of _ "[]"]) (simp add: intToDec_digits.simps digits_value_def)
  next
    case True
    have "unat (n div 10) < unat n"
      using True by (simp add: unat_div_u32 word_less_nat_alt)
    from less [OF this] obtain ds where
      app: "\<And>t. intToDec_digits (n div 10) t = t @ ds"
      and val: "digits_value 10 (rev ds) = unat n div 10"
      and dig: "list_all is_dec_digit ds"
      and lead: "0 < n div 10 \<longrightarrow> ds \<noteq> [] \<and> last ds \<noteq> 0x30"
      and len: "\<And>k. unat n div 10 < 10 ^ k \<Longrightarrow> length ds \<le> k"
      by (auto simp: unat_div_u32)
    define c :: u8 where "c = ucast (n mod 10) + 0x30"
    have c: "is_dec_digit c" "digit_value c = unat n mod 10"
      unfolding c_def ucast_mod10 using dec_digit_of by simp_all
    have "intToDec_digits n t = t @ (c # ds)" for t
      using True by (subst intToDec_digits.simps) (simp add: app c_def)
    moreover have "digits_value 10 (rev (c # ds)) = unat n"
      by (simp add: digits_value_snoc val c)
    moreover have "last (c # ds) \<noteq> 0x30"
    proof (cases "0 < n div 10")
      case True
      then show ?thesis using lead by simp
    next
      case False
      then have "unat n div 10 = 0" by (simp add: word_less_nat_alt unat_div_u32)
      moreover from this have "ds = []" using len [of 0] by simp
      moreover have "unat n \<noteq> 0" using True by (simp add: word_less_nat_alt)
      ultimately show ?thesis using c by (auto simp: digit_value_def div_eq_0_iff)
    qed
    moreover have "length (c # ds) \<le> k" if "unat n < 10 ^ k" for k
    proof (cases k)
      case 0
      then show ?thesis using that True by (simp add: word_less_nat_alt)
    next
      case (Suc j)
      then have "unat n div 10 < 10 ^ j" using that by (simp add: less_mult_imp_div_less mult.commute)
      then show ?thesis using len [of j] Suc by simp
    qed
    ultimately show ?thesis
      using dig c by (intro exI [of _ "c # ds"]) simp
  qed
qed

text \<open>The printed decimal: digits without leading zeroes that denote the argument, then the
  terminator, all within the eleven characters of the callers' buffers.\<close>

lemma intToDec_correct:
  "\<exists>ds. intToDec n = ds @ [0] \<and> ds \<noteq> [] \<and> list_all is_dec_digit ds \<and>
     digits_value 10 ds = unat n \<and> (n \<noteq> 0 \<longrightarrow> hd ds \<noteq> 0x30) \<and> length (intToDec n) \<le> 11"
proof (cases "n = 0")
  case True
  then show ?thesis
    by (intro exI [of _ "[0x30]"])
      (simp add: intToDec_def is_dec_digit_def digits_value_def digit_value_def)
next
  case False
  obtain ds where ds: "\<And>t. intToDec_digits n t = t @ ds" "digits_value 10 (rev ds) = unat n"
    "list_all is_dec_digit ds" "ds \<noteq> []" "last ds \<noteq> 0x30"
    and len: "\<And>k. unat n < 10 ^ k \<Longrightarrow> length ds \<le> k"
    using intToDec_digits_spec [of n] False by (auto simp: word_gt_0)
  have "unat n < 10 ^ 10" by (rule less_trans [OF unat_u32_lt]) simp
  then have "length ds \<le> 10" by (rule len)
  then show ?thesis
    using ds False by (intro exI [of _ "rev ds"]) (simp add: intToDec_def hd_rev list_all_rev)
qed

lemma word_u8_of_unat: "(w :: u8) = of_nat (unat w)"
  by simp

lemma byteToDec_correct:
  "\<exists>ds. byteToDec n = ds @ [0] \<and> length ds = 3 \<and> list_all is_dec_digit ds \<and>
     digits_value 10 ds = unat n"
proof -
  let ?k = "unat n"
  have m: "n mod 10 + 0x30 = of_nat (?k mod 10) + 0x30"
    "(n div 10) mod 10 + 0x30 = of_nat ((?k div 10) mod 10) + 0x30"
    "(n div 100) mod 10 + 0x30 = of_nat ((?k div 100) mod 10) + 0x30"
    using word_u8_of_unat [of "n mod 10"] word_u8_of_unat [of "(n div 10) mod 10"]
      word_u8_of_unat [of "(n div 100) mod 10"]
    by (simp_all only: unat_mod_distrib unat_div_distrib unat_numeral) simp_all
  have "?k div 100 = ?k div 10 div 10" by (simp add: div_mult2_eq)
  moreover have lt: "?k div 100 < 10"
    using less_mult_imp_div_less [of ?k 10 100] less_trans [OF unat_u8_lt [of n]] by simp
  ultimately have "100 * (?k div 100) + 10 * (?k div 10 mod 10) + ?k mod 10 = ?k"
    using div_mult_mod_eq [of ?k 10] div_mult_mod_eq [of "?k div 10" 10] by linarith
  then show ?thesis
    by (intro exI [of _ "butlast (byteToDec n)"])
      (simp add: byteToDec_def m dec_digit_of digits_value_def lt)
qed

lemma hex_digit_value: "k < 16 \<Longrightarrow> digit_value (hex_digits ! k) = k"
proof -
  have "list_all (\<lambda>k. digit_value (hex_digits ! k) = k) [0..<16]" by code_simp
  then show "k < 16 \<Longrightarrow> digit_value (hex_digits ! k) = k" by (simp add: list_all_iff)
qed

lemma nibble_u32: "unat (drop_bit k n AND 0xF :: u32) = (unat n div 2 ^ k) mod 16"
proof -
  have "drop_bit k n AND 0xF = take_bit 4 (drop_bit k n)"
    by (simp add: take_bit_eq_mask mask_eq_exp_minus_1)
  moreover have "unat (drop_bit k n) = drop_bit k (unat n)"
    by (simp add: unsigned_drop_bit_eq take_bit_nat_eq_self)
  ultimately have "unat (drop_bit k n AND 0xF) = take_bit 4 (drop_bit k (unat n))"
    by (simp only: unsigned_take_bit_eq)
  then show ?thesis by (simp add: take_bit_eq_mod drop_bit_eq_div)
qed

lemma hexToStr_correct:
  "length (hexToStr n) = 9 \<and> last (hexToStr n) = 0 \<and>
     digits_value 16 (butlast (hexToStr n)) = unat n"
proof -
  define h where "h j = unat n div 16 ^ j" for j
  define r where "r j = h j mod 16" for j
  have r_lt: "r j < 16" for j by (simp add: r_def)
  have step: "h j = 16 * h (Suc j) + r j" for j
  proof -
    have "h (Suc j) = h j div 16" by (simp only: h_def power_Suc2 div_mult2_eq)
    then show ?thesis by (simp add: r_def)
  qed
  have top: "h 8 = 0" "h 0 = unat n" by (simp_all add: h_def)
  have nib: "hex_digits ! unat (drop_bit (28 - i * 4) n AND 0xF) = hex_digits ! r (7 - i)"
    if "i < 8" for i
  proof -
    have "28 - i * 4 = 4 * (7 - i)" using that by simp
    then show ?thesis by (simp add: nibble_u32 h_def r_def power_mult del: mult_Suc_right)
  qed
  have "[0..<8] = [0, 1, 2, 3, 4, 5, 6, 7 :: nat]" by (simp add: upt_rec)
  then have "butlast (hexToStr n) =
      map (\<lambda>j. hex_digits ! r j) [7, 6, 5, 4, 3, 2, 1, 0]"
    using nib [of 0] nib [of 1] nib [of 2] nib [of 3] nib [of 4] nib [of 5] nib [of 6] nib [of 7]
    by (simp add: hexToStr_def)
  then have "digits_value 16 (butlast (hexToStr n)) =
      16 * (16 * (16 * (16 * (16 * (16 * (16 * r 7 + r 6) + r 5) +
      r 4) + r 3) + r 2) + r 1) + r 0"
    by (simp only: digits_value_def list.map foldl.simps) (simp add: hex_digit_value r_lt)
  also have "\<dots> = h 0"
    using step [of 0] step [of 1] step [of 2] step [of 3] step [of 4] step [of 5] step [of 6]
      step [of 7] top(1)
    unfolding Suc_eq_plus1
    by (simp only: one_add_one numeral_plus_one add_num_simps add_0 mult_0_right)
  finally have "digits_value 16 (butlast (hexToStr n)) = h 0" .
  then show ?thesis by (simp add: top hexToStr_def)
qed

end
