(* ===== verification/Memory.thy ===== *)
theory Memory
  imports Hexutils
begin

unbundle bit_operations_syntax

text \<open>
  The byte-addressed memory of the machine: 32-bit addresses, one byte per address, words
  stored little-endian.  The \<open>mem_simps\<close> collection reads a word back after a store, the
  \<open>footprint\<close> collection says which addresses an operation leaves alone.  The bulk
  operations model \<open>libc/src/string/memset.c\<close> and the effect of a byte copy.
\<close>

type_synonym mem = "u32 \<Rightarrow> u8"

definition load32 :: "mem \<Rightarrow> u32 \<Rightarrow> u32" where
  "load32 m a = read_le32 (\<lambda>i. m (a + of_nat i)) 0"

definition store32 :: "mem \<Rightarrow> u32 \<Rightarrow> u32 \<Rightarrow> mem" where
  "store32 m a v =
     m(a := ucast v, a + 1 := ucast (drop_bit 8 v), a + 2 := ucast (drop_bit 16 v),
       a + 3 := ucast (drop_bit 24 v))"

section \<open>Words in memory\<close>

lemma load32_eq:
  "load32 m a = ucast (m a) OR push_bit 8 (ucast (m (a + 1))) OR
     push_bit 16 (ucast (m (a + 2))) OR push_bit 24 (ucast (m (a + 3)))"
  by (simp add: load32_def read_le32_def add.commute)

lemma load32_store32 [mem_simps]: "load32 (store32 m a v) a = v"
  by (simp add: load32_eq store32_def le_join32)

lemma store32_other [footprint]: "4 \<le> x - a \<Longrightarrow> store32 m a v x = m x"
  by (auto simp: store32_def word_le_nat_alt)

lemma load32_cong: "(\<And>x. x - a < 4 \<Longrightarrow> m' x = m x) \<Longrightarrow> load32 m' a = load32 m a"
proof -
  assume eq: "\<And>x. x - a < 4 \<Longrightarrow> m' x = m x"
  have "m' a = m a" "m' (a + 1) = m (a + 1)" "m' (a + 2) = m (a + 2)" "m' (a + 3) = m (a + 3)"
    by (rule eq; simp)+
  then show ?thesis by (simp add: load32_eq)
qed

text \<open>Two ranges of \<open>n\<close> bytes that start at least \<open>n\<close> apart in both directions around the
  address space have no address in common.\<close>

lemma range_apart:
  fixes p q x n :: u32
  assumes "n \<le> p - q" "n \<le> q - p" "x - q < n"
  shows "n \<le> x - p"
proof -
  have u: "unat (x - q) < unat n" "unat n \<le> unat (q - p)" "unat n \<le> unat (p - q)"
    using assms by (simp_all add: word_less_nat_alt word_le_nat_alt)
  then have "q \<noteq> p" by auto
  then have "unat (p - q) = 4294967296 - unat (q - p)" by (rule unat_diff_rev_u32)
  moreover have "x - p = (x - q) + (q - p)" by simp
  ultimately have "unat (x - p) = unat (x - q) + unat (q - p)"
    using u unat_add_u32 [of "x - q" "q - p"] by simp
  then show ?thesis using u by (simp add: word_le_nat_alt)
qed

lemma load32_store32_apart: "4 \<le> a - b \<Longrightarrow> 4 \<le> b - a \<Longrightarrow> load32 (store32 m a v) b = load32 m b"
  by (rule load32_cong) (auto intro!: store32_other elim: range_apart)

section \<open>Bulk operations\<close>

text \<open>The loop of \<open>memset\<close>, with the number of iterations done as the recursion argument.\<close>

primrec memset_loop :: "mem \<Rightarrow> u32 \<Rightarrow> u8 \<Rightarrow> nat \<Rightarrow> mem" where
  "memset_loop m p val 0 = m"
| "memset_loop m p val (Suc i) = (memset_loop m p val i)(p + of_nat i := val)"

definition memset :: "mem \<Rightarrow> u32 \<Rightarrow> u32 \<Rightarrow> u32 \<Rightarrow> u32 \<times> mem" where
  "memset m ptr value num = (ptr, memset_loop m ptr (ucast value) (unat num))"

definition bytes_at :: "mem \<Rightarrow> u32 \<Rightarrow> nat \<Rightarrow> u8 list" where
  "bytes_at m p n = map (\<lambda>i. m (p + of_nat i)) [0..<n]"

primrec store_bytes :: "mem \<Rightarrow> u32 \<Rightarrow> u8 list \<Rightarrow> mem" where
  "store_bytes m p [] = m"
| "store_bytes m p (b # bs) = store_bytes (m(p := b)) (p + 1) bs"

lemma diff_less_word_iff:
  "x - p < (n :: u32) \<longleftrightarrow> (\<exists>i < unat n. x = p + of_nat i)"
proof
  assume "x - p < n"
  then have "unat (x - p) < unat n" by (simp add: word_less_nat_alt)
  moreover have "x = p + of_nat (unat (x - p))" by simp
  ultimately show "\<exists>i < unat n. x = p + of_nat i" by blast
next
  assume "\<exists>i < unat n. x = p + of_nat i"
  then obtain i where "i < unat n" "x = p + of_nat i" by blast
  moreover from this have "i < 4294967296" using unat_u32_lt [of n] by linarith
  ultimately show "x - p < n" by (simp add: word_less_nat_alt)
qed

lemma memset_loop_apply:
  "n \<le> 4294967296 \<Longrightarrow>
     memset_loop m p val n x = (if unat (x - p) < n then val else m x)"
proof (induction n)
  case 0
  then show ?case by simp
next
  case (Suc n)
  have "x = p + of_nat n \<longleftrightarrow> unat (x - p) = n"
    using Suc.prems by (metis Suc_le_eq add_diff_cancel_left' diff_add_cancel add.commute
      of_nat_unat unat_of_nat_u32 ucast_id)
  then show ?case using Suc by (auto simp: less_Suc_eq)
qed

lemma memset_correct:
  "fst (memset m p v n) = p"
  "snd (memset m p v n) x = (if x - p < n then ucast v else m x)"
  by (simp_all add: memset_def memset_loop_apply word_less_nat_alt less_imp_le)

lemma store_bytes_apply:
  "length bs \<le> 4294967296 \<Longrightarrow>
     store_bytes m p bs x = (if unat (x - p) < length bs then bs ! unat (x - p) else m x)"
proof (induction bs arbitrary: m p)
  case (Cons b bs)
  show ?case
  proof (cases "x = p")
    case True
    then have "unat (x - (p + 1)) = 4294967295" by (simp add: unsigned_minus_1_eq_mask mask_eq_exp_minus_1)
    then show ?thesis using True Cons by simp
  next
    case False
    then have "x - p \<noteq> 0" by simp
    then have u: "unat (x - p) = Suc (unat (x - (p + 1)))"
      using unat_minus_one [of "x - p"] unat_gt_0 [of "x - p"] by (simp add: diff_diff_add)
    then show ?thesis using False Cons by simp
  qed
qed simp

end
