(* ===== verification/Heap.thy ===== *)
theory Heap
  imports Memory
begin

unbundle bit_operations_syntax

text \<open>
  The first-fit allocator of \<open>libc/src/stdlib/heap.c\<close>.  The block headers
  (\<open>memory_space_t\<close>) live in the byte memory; the global \<open>head\<close> and the memory are the
  state \<open>heap_state\<close>; the linker symbols \<open>__heap_start__\<close> and \<open>__heap_end__\<close> are arguments.

  The abstract heap is the list of the blocks in address order, each with its size and
  whether it is allocated.  The predicate \<open>chain\<close> says that the \<open>next\<close> links of the memory
  spell out that list and that the blocks tile the heap without gaps; \<open>backs\<close> says the same
  of the \<open>prev\<close> links.
\<close>

section \<open>Block headers\<close>

text \<open>Layout of \<open>memory_space_t\<close>: \<open>prev\<close> at 0, \<open>next\<close> at 4, \<open>size\<close> at 8, \<open>isAllocated\<close>
  at 12, padded to 16 bytes.\<close>

definition sizeof_memory_space :: u32 where
  "sizeof_memory_space = 16"

definition ms_prev :: "mem \<Rightarrow> u32 \<Rightarrow> u32" where
  "ms_prev m p = load32 m p"

definition ms_next :: "mem \<Rightarrow> u32 \<Rightarrow> u32" where
  "ms_next m p = load32 m (p + 4)"

definition ms_size :: "mem \<Rightarrow> u32 \<Rightarrow> u32" where
  "ms_size m p = load32 m (p + 8)"

definition ms_isAllocated :: "mem \<Rightarrow> u32 \<Rightarrow> bool" where
  "ms_isAllocated m p \<longleftrightarrow> m (p + 12) \<noteq> 0"

definition set_prev :: "mem \<Rightarrow> u32 \<Rightarrow> u32 \<Rightarrow> mem" where
  "set_prev m p v = store32 m p v"

definition set_next :: "mem \<Rightarrow> u32 \<Rightarrow> u32 \<Rightarrow> mem" where
  "set_next m p v = store32 m (p + 4) v"

definition set_size :: "mem \<Rightarrow> u32 \<Rightarrow> u32 \<Rightarrow> mem" where
  "set_size m p v = store32 m (p + 8) v"

definition set_isAllocated :: "mem \<Rightarrow> u32 \<Rightarrow> bool \<Rightarrow> mem" where
  "set_isAllocated m p b = m(p + 12 := (if b then 1 else 0))"

section \<open>The allocator\<close>

record heap_state =
  heap_mem :: mem
  head :: u32

definition ALIGN_4BYTE :: "u32 \<Rightarrow> u32" where
  "ALIGN_4BYTE x = (x + (4 - 1)) AND (- 4)"

partial_function (option) find_free_loop :: "mem \<Rightarrow> u32 \<Rightarrow> u32 \<Rightarrow> u32 option" where
  "find_free_loop m sz cur =
     (if ms_next m cur \<noteq> 0 \<and> (ms_isAllocated m cur \<or> ms_size m cur < sz)
      then find_free_loop m sz (ms_next m cur)
      else Some cur)"

definition find_free_space :: "heap_state \<Rightarrow> u32 \<Rightarrow> u32 option" where
  "find_free_space st sz = do {
     cur \<leftarrow> find_free_loop (heap_mem st) sz (head st);
     Some (if ms_size (heap_mem st) cur < sz \<or> ms_isAllocated (heap_mem st) cur
           then 0 else cur)
   }"

definition mergeNextMemorySpace :: "mem \<Rightarrow> u32 \<Rightarrow> bool \<times> mem" where
  "mergeNextMemorySpace m memory_space =
     (let next_memory_space = ms_next m memory_space in
      if next_memory_space \<noteq> 0 \<and> \<not> ms_isAllocated m next_memory_space then
        (let next_er = ms_next m next_memory_space;
             m1 = (if next_er \<noteq> 0 then set_prev m next_er memory_space else m);
             m2 = set_next m1 memory_space next_er;
             m3 = set_size m2 memory_space
                    (ms_size m2 memory_space + (sizeof_memory_space + ms_size m2 next_memory_space))
         in (True, m3))
      else (False, m))"

definition splitMemorySpace :: "mem \<Rightarrow> u32 \<Rightarrow> u32 \<Rightarrow> bool \<times> mem" where
  "splitMemorySpace m memory_space sz =
     (if ms_size m memory_space > sz + sizeof_memory_space + 4 then
        (let nxt = memory_space + sizeof_memory_space + sz;
             m1 = set_prev m nxt memory_space;
             m2 = set_next m1 nxt (ms_next m1 memory_space);
             m3 = set_size m2 nxt (ms_size m2 memory_space - sz - sizeof_memory_space);
             m4 = set_isAllocated m3 nxt False;
             m5 = set_next m4 memory_space nxt;
             m6 = set_size m5 memory_space sz;
             m7 = snd (mergeNextMemorySpace m6 nxt)
         in (True, m7))
      else (False, m))"

definition init_malloc :: "u32 \<Rightarrow> u32 \<Rightarrow> heap_state \<Rightarrow> heap_state" where
  "init_malloc heap_start heap_end st =
     (let h = ALIGN_4BYTE heap_start;
          m1 = set_prev (heap_mem st) h 0;
          m2 = set_next m1 h 0;
          m3 = set_size m2 h ((heap_end - ALIGN_4BYTE heap_start) - sizeof_memory_space);
          m4 = set_isAllocated m3 h False
      in \<lparr>heap_mem = m4, head = h\<rparr>)"

definition malloc :: "u32 \<Rightarrow> heap_state \<Rightarrow> (u32 \<times> heap_state) option" where
  "malloc sz st = do {
     let sz = ALIGN_4BYTE sz;
     free_space \<leftarrow> find_free_space st sz;
     if free_space = 0 then Some (0, st)
     else (let m1 = snd (splitMemorySpace (heap_mem st) free_space sz);
               m2 = set_isAllocated m1 free_space True
           in Some (free_space + sizeof_memory_space, st\<lparr>heap_mem := m2\<rparr>))
   }"

definition free :: "u32 \<Rightarrow> heap_state \<Rightarrow> heap_state" where
  "free ptr st =
     (if ptr = 0 then st
      else
        (let memory_space = ptr - sizeof_memory_space;
             m1 = set_isAllocated (heap_mem st) memory_space False;
             m2 = snd (mergeNextMemorySpace m1 memory_space);
             prev_memory_space = ms_prev m2 memory_space;
             m3 = (if prev_memory_space \<noteq> 0 \<and> \<not> ms_isAllocated m2 prev_memory_space
                   then snd (mergeNextMemorySpace m2 prev_memory_space) else m2)
         in st\<lparr>heap_mem := m3\<rparr>))"

section \<open>Reading headers after writing them\<close>

lemmas ms_defs = ms_prev_def ms_next_def ms_size_def ms_isAllocated_def
  set_prev_def set_next_def set_size_def set_isAllocated_def

text \<open>Fields of one header do not overlap.\<close>

lemma header_same [mem_simps]:
  "ms_prev (set_prev m p v) p = v"
  "ms_prev (set_next m p v) p = ms_prev m p"
  "ms_prev (set_size m p v) p = ms_prev m p"
  "ms_prev (set_isAllocated m p b) p = ms_prev m p"
  "ms_next (set_prev m p v) p = ms_next m p"
  "ms_next (set_next m p v) p = v"
  "ms_next (set_size m p v) p = ms_next m p"
  "ms_next (set_isAllocated m p b) p = ms_next m p"
  "ms_size (set_prev m p v) p = ms_size m p"
  "ms_size (set_next m p v) p = ms_size m p"
  "ms_size (set_size m p v) p = v"
  "ms_size (set_isAllocated m p b) p = ms_size m p"
  "ms_isAllocated (set_prev m p v) p = ms_isAllocated m p"
  "ms_isAllocated (set_next m p v) p = ms_isAllocated m p"
  "ms_isAllocated (set_size m p v) p = ms_isAllocated m p"
  "ms_isAllocated (set_isAllocated m p b) p = b"
  by (simp_all add: ms_defs mem_simps) (simp_all add: load32_eq store32_def)

text \<open>A header write touches the sixteen bytes of the header only.\<close>

lemma header_write_other [footprint]:
  assumes "16 \<le> x - p"
  shows "set_prev m p v x = m x" "set_next m p v x = m x" "set_size m p v x = m x"
    "set_isAllocated m p b x = m x"
  using assms by (auto simp: ms_defs store32_def word_le_nat_alt add.assoc)

lemma header_cong:
  assumes eq: "\<And>x. x - p < 16 \<Longrightarrow> m' x = m x"
  shows "ms_prev m' p = ms_prev m p" "ms_next m' p = ms_next m p" "ms_size m' p = ms_size m p"
    "ms_isAllocated m' p = ms_isAllocated m p"
proof -
  have byte: "m' (p + of_nat i) = m (p + of_nat i)" if "i < 16" for i
    using that by (intro eq) (simp add: word_less_nat_alt)
  have word: "load32 m' (p + of_nat k) = load32 m (p + of_nat k)" if "k \<le> 12" for k
  proof (rule load32_cong)
    fix x assume "x - (p + of_nat k) < 4"
    then obtain i where "i < 4" "x = p + of_nat k + of_nat i"
      using diff_less_word_iff [of x "p + of_nat k" 4] by auto
    then show "m' x = m x" using byte [of "k + i"] that by (simp add: add.assoc)
  qed
  show "ms_prev m' p = ms_prev m p" using word [of 0] by (simp add: ms_defs)
  show "ms_next m' p = ms_next m p" using word [of 4] by (simp add: ms_defs)
  show "ms_size m' p = ms_size m p" using word [of 8] by (simp add: ms_defs)
  show "ms_isAllocated m' p = ms_isAllocated m p" using byte [of 12] by (simp add: ms_defs)
qed

text \<open>Headers at least sixteen bytes apart, in both directions around the address space.\<close>

definition apart :: "u32 \<Rightarrow> u32 \<Rightarrow> bool" where
  "apart p q \<longleftrightarrow> 16 \<le> p - q \<and> 16 \<le> q - p"

lemma apart_sym: "apart p q \<Longrightarrow> apart q p"
  by (simp add: apart_def)

lemma apart_nat:
  assumes "unat p + 16 \<le> unat q" "unat q + 16 \<le> 4294967296"
  shows "apart p q" "apart q p"
proof -
  have d: "unat (q - p) = unat q - unat p" by (rule unat_sub_u32) (use assms in simp)
  then have "16 \<le> q - p" using assms by (simp add: word_le_nat_alt)
  moreover have "16 \<le> p - q"
  proof -
    have "q \<noteq> p" using assms by auto
    then have "unat (p - q) = 4294967296 - unat (q - p)" by (rule unat_diff_rev_u32)
    then show ?thesis using d assms by (simp add: word_le_nat_alt)
  qed
  ultimately show "apart p q" "apart q p" by (simp_all add: apart_def)
qed

lemma apart_not_in: "apart p q \<Longrightarrow> x - q < 16 \<Longrightarrow> 16 \<le> x - p"
  unfolding apart_def by (rule range_apart) auto

lemma header_apart [mem_simps]:
  assumes "apart p q"
  shows
    "ms_prev (set_prev m p v) q = ms_prev m q" "ms_prev (set_next m p v) q = ms_prev m q"
    "ms_prev (set_size m p v) q = ms_prev m q" "ms_prev (set_isAllocated m p b) q = ms_prev m q"
    "ms_next (set_prev m p v) q = ms_next m q" "ms_next (set_next m p v) q = ms_next m q"
    "ms_next (set_size m p v) q = ms_next m q" "ms_next (set_isAllocated m p b) q = ms_next m q"
    "ms_size (set_prev m p v) q = ms_size m q" "ms_size (set_next m p v) q = ms_size m q"
    "ms_size (set_size m p v) q = ms_size m q" "ms_size (set_isAllocated m p b) q = ms_size m q"
    "ms_isAllocated (set_prev m p v) q = ms_isAllocated m q"
    "ms_isAllocated (set_next m p v) q = ms_isAllocated m q"
    "ms_isAllocated (set_size m p v) q = ms_isAllocated m q"
    "ms_isAllocated (set_isAllocated m p b) q = ms_isAllocated m q"
  by (rule header_cong; rule header_write_other; erule apart_not_in [OF assms])+

end
