(* ===== verification/Heap_Spec.thy ===== *)
theory Heap_Spec
  imports Heap
begin

text \<open>
  The abstract heap (a list of blocks that tile the heap), the predicates that tie it to
  the memory, and what the list surgery of \<open>heap.c\<close> does to it.
\<close>

section \<open>Blocks, chains and back links\<close>

type_synonym block = "nat \<times> bool"  \<comment> \<open>payload size, allocated?\<close>

definition after :: "u32 \<Rightarrow> block \<Rightarrow> u32" where
  "after p b = p + 16 + of_nat (fst b)"

definition span :: "block list \<Rightarrow> nat" where
  "span bs = sum_list (map (\<lambda>b. 16 + fst b) bs)"

definition blk :: "mem \<Rightarrow> u32 \<Rightarrow> block \<Rightarrow> u32 \<Rightarrow> bool" where
  "blk m p b nx \<longleftrightarrow> p \<noteq> 0 \<and> unat (ms_size m p) = fst b \<and> ms_isAllocated m p = snd b \<and>
     ms_next m p = nx"

fun seg :: "mem \<Rightarrow> nat \<Rightarrow> u32 \<Rightarrow> block list \<Rightarrow> u32 \<Rightarrow> bool" where
  "seg m lim p [] q \<longleftrightarrow> p = q"
| "seg m lim p (b # bs) q \<longleftrightarrow>
     blk m p b (after p b) \<and> unat p + 16 + fst b < lim \<and> seg m lim (after p b) bs q"

fun chain :: "mem \<Rightarrow> nat \<Rightarrow> u32 \<Rightarrow> block list \<Rightarrow> bool" where
  "chain m lim p [] \<longleftrightarrow> False"
| "chain m lim p [b] \<longleftrightarrow> blk m p b 0 \<and> unat p + 16 + fst b = lim"
| "chain m lim p (b # c # bs) \<longleftrightarrow>
     blk m p b (after p b) \<and> unat p + 16 + fst b < lim \<and> chain m lim (after p b) (c # bs)"

fun backs :: "mem \<Rightarrow> u32 \<Rightarrow> u32 \<Rightarrow> block list \<Rightarrow> bool" where
  "backs m pv p [] \<longleftrightarrow> True"
| "backs m pv p (b # bs) \<longleftrightarrow> ms_prev m p = pv \<and> backs m p (after p b) bs"

lemma span_simps [simp]:
  "span [] = 0" "span (b # bs) = 16 + fst b + span bs" "span (xs @ ys) = span xs + span ys"
  by (simp_all add: span_def)

lemma unat_after:
  "unat p + 16 + fst b < 4294967296 \<Longrightarrow> unat (after p b) = unat p + 16 + fst b"
  by (simp add: after_def unat_add_u32)

lemma chain_Cons:
  "bs \<noteq> [] \<Longrightarrow> chain m lim p (b # bs) \<longleftrightarrow>
     blk m p b (after p b) \<and> unat p + 16 + fst b < lim \<and> chain m lim (after p b) bs"
  by (cases bs) auto

lemma chain_append:
  "ys \<noteq> [] \<Longrightarrow> chain m lim p (xs @ ys) \<longleftrightarrow> (\<exists>q. seg m lim p xs q \<and> chain m lim q ys)"
  by (induction xs arbitrary: p) (auto simp: chain_Cons)

lemma seg_span: "seg m lim p xs q \<Longrightarrow> lim < 4294967296 \<Longrightarrow> unat p + span xs = unat q"
proof (induction xs arbitrary: p)
  case (Cons b bs)
  then have "unat (after p b) + span bs = unat q" by simp
  moreover have "unat (after p b) = unat p + 16 + fst b" using Cons.prems by (simp add: unat_after)
  ultimately show ?case by simp
qed simp

lemma seg_det: "seg m lim p xs q \<Longrightarrow> seg m lim p xs q' \<Longrightarrow> q' = q"
  by (induction xs arbitrary: p) auto

lemma chain_at: "chain m lim p (xs @ b # ys) \<Longrightarrow> seg m lim p xs q \<Longrightarrow> chain m lim q (b # ys)"
  using seg_det by (force simp: chain_append)

lemma chain_span: "chain m lim p bs \<Longrightarrow> lim < 4294967296 \<Longrightarrow> unat p + span bs = lim"
  by (induction m lim p bs rule: chain.induct) (auto simp: unat_after)

lemma chain_first: "chain m lim p bs \<Longrightarrow> lim < 4294967296 \<Longrightarrow> p \<noteq> 0 \<and> unat p + 16 \<le> lim"
  by (cases bs; cases "tl bs") (auto simp: blk_def)

section \<open>What a write leaves alone\<close>

text \<open>The footprint of a header write in natural numbers.\<close>

lemma outside_header:
  fixes p x :: u32
  assumes "unat p + 16 \<le> 4294967296" "unat x < unat p \<or> unat p + 16 \<le> unat x"
  shows "16 \<le> x - p"
  using assms(2)
proof
  assume lt: "unat x < unat p"
  then have "unat (x - p) = 4294967296 - (unat p - unat x)"
    using unat_diff_rev_u32 [of p x] unat_sub_u32 [of x p] by fastforce
  then show ?thesis using assms(1) lt by (simp add: word_le_nat_alt)
next
  assume "unat p + 16 \<le> unat x"
  then show ?thesis by (simp add: word_le_nat_alt unat_sub_u32)
qed

lemmas set_outside [footprint] = header_write_other [OF outside_header]

lemma header_cong_nat:
  assumes lim: "unat p + 16 \<le> 4294967296"
    and eq: "\<And>x. unat p \<le> unat x \<Longrightarrow> unat x < unat p + 16 \<Longrightarrow> m' x = m x"
  shows "ms_prev m' p = ms_prev m p" "ms_next m' p = ms_next m p" "ms_size m' p = ms_size m p"
    "ms_isAllocated m' p = ms_isAllocated m p"
proof -
  have "m' x = m x" if "x - p < 16" for x
  proof -
    have "\<not> (unat x < unat p \<or> unat p + 16 \<le> unat x)"
      using outside_header [OF lim, of x] that by (auto simp: word_le_nat_alt word_less_nat_alt)
    then show ?thesis using eq by simp
  qed
  then show "ms_prev m' p = ms_prev m p" "ms_next m' p = ms_next m p" "ms_size m' p = ms_size m p"
    "ms_isAllocated m' p = ms_isAllocated m p"
    using header_cong [of p m' m] by blast+
qed

lemma blk_cong_nat:
  assumes "unat p + 16 \<le> 4294967296" "\<And>x. unat p \<le> unat x \<Longrightarrow> unat x < unat p + 16 \<Longrightarrow> m' x = m x"
  shows "blk m' p b nx = blk m p b nx"
  using header_cong_nat [OF assms] by (simp add: blk_def)

lemma seg_frame:
  assumes "seg m lim p xs q" "lim < 4294967296"
    "\<And>x. unat p \<le> unat x \<Longrightarrow> unat x < unat q \<Longrightarrow> m' x = m x"
  shows "seg m' lim p xs q"
  using assms
proof (induction xs arbitrary: p)
  case (Cons b bs)
  have "unat (after p b) + span bs = unat q" "unat (after p b) = unat p + 16 + fst b"
    using Cons.prems seg_span [of m lim "after p b" bs q] by (simp_all add: unat_after)
  moreover have "blk m' p b (after p b) = blk m p b (after p b)"
    using calculation Cons.prems by (intro blk_cong_nat) auto
  ultimately show ?case using Cons by auto
qed simp

lemma chain_frame:
  assumes "chain m lim p bs" "lim < 4294967296"
    "\<And>x. unat p \<le> unat x \<Longrightarrow> unat x < lim \<Longrightarrow> m' x = m x"
  shows "chain m' lim p bs"
  using assms
proof (induction bs arbitrary: p)
  case (Cons b bs)
  have lim: "unat p + 16 + fst b \<le> lim" using Cons.prems by (cases bs) auto
  then have blk: "blk m' p b nx = blk m p b nx" for nx
    using Cons.prems by (intro blk_cong_nat) auto
  show ?case
  proof (cases "bs = []")
    case False
    then have "unat (after p b) = unat p + 16 + fst b"
      using Cons.prems by (simp add: chain_Cons unat_after)
    then show ?thesis using Cons False by (simp add: chain_Cons blk)
  qed (use Cons.prems blk in simp)
qed simp

lemma backs_frame:
  assumes "backs m pv p bs" "chain m lim p bs" "lim < 4294967296"
    "\<And>x. unat p \<le> unat x \<Longrightarrow> unat x < lim \<Longrightarrow> m' x = m x"
  shows "backs m' pv p bs"
  using assms
proof (induction bs arbitrary: p pv)
  case (Cons b bs)
  have lim: "unat p + 16 + fst b \<le> lim" using Cons.prems by (cases bs) auto
  then have "ms_prev m' p = ms_prev m p"
    using Cons.prems by (intro header_cong_nat(1)) auto
  moreover have "backs m' p (after p b) bs"
  proof (cases "bs = []")
    case False
    then have "unat (after p b) = unat p + 16 + fst b"
      using Cons.prems by (simp add: chain_Cons unat_after)
    then show ?thesis using Cons False by (simp add: chain_Cons)
  qed simp
  ultimately show ?case using Cons.prems by simp
qed simp

text \<open>Only the \<open>prev\<close> field of the first header changes.\<close>

lemma chain_new_prev:
  assumes ch: "chain m lim p bs" and lim: "lim < 4294967296"
    and out: "\<And>x. unat p + 16 \<le> unat x \<Longrightarrow> unat x < lim \<Longrightarrow> m' x = m x"
    and hd: "ms_size m' p = ms_size m p" "ms_isAllocated m' p = ms_isAllocated m p"
      "ms_next m' p = ms_next m p"
  shows "chain m' lim p bs"
proof (cases bs)
  case (Cons b cs)
  have blk: "blk m' p b nx = blk m p b nx" for nx using hd by (simp add: blk_def)
  show ?thesis
  proof (cases "cs = []")
    case False
    then have tl: "chain m lim (after p b) cs" "unat (after p b) = unat p + 16 + fst b"
      using ch lim Cons by (simp_all add: chain_Cons unat_after)
    have "chain m' lim (after p b) cs"
      by (rule chain_frame [OF tl(1) lim]) (use tl out in auto)
    then show ?thesis using ch False Cons by (simp add: chain_Cons blk)
  qed (use ch blk Cons in simp)
qed (use ch in simp)

lemma backs_new_prev:
  assumes ch: "chain m lim p bs" and bk: "backs m pv p bs" and lim: "lim < 4294967296"
    and out: "\<And>x. unat p + 16 \<le> unat x \<Longrightarrow> unat x < lim \<Longrightarrow> m' x = m x"
    and hd: "ms_prev m' p = pv'"
  shows "backs m' pv' p bs"
proof (cases bs)
  case (Cons b cs)
  show ?thesis
  proof (cases "cs = []")
    case False
    then have tl: "chain m lim (after p b) cs" "unat (after p b) = unat p + 16 + fst b"
      using ch lim Cons by (simp_all add: chain_Cons unat_after)
    have "backs m' p (after p b) cs"
      by (rule backs_frame [OF _ tl(1) lim]) (use tl out bk Cons in auto)
    then show ?thesis using hd Cons by simp
  qed (use hd Cons in simp)
qed simp

section \<open>Merging a block with its successor\<close>

text \<open>Nothing happens at the last block or before an allocated one.\<close>

lemma merge_no:
  "chain m lim p [b] \<Longrightarrow> mergeNextMemorySpace m p = (False, m)"
  "chain m lim p (b # (s, True) # ys) \<Longrightarrow> mergeNextMemorySpace m p = (False, m)"
  by (cases ys; simp add: mergeNextMemorySpace_def blk_def)+

text \<open>The effect on a free successor: header \<open>p\<close> and, when there is a third block, its
  \<open>prev\<close> field change, nothing else does.\<close>

lemma merge_yes:
  assumes ch: "chain m lim p ((s, a) # (s', False) # ys)" and lim: "lim < 4294967296"
  defines "q \<equiv> after (after p (s, a)) (s', False)"
  obtains m' where "mergeNextMemorySpace m p = (True, m')"
    "chain m' lim p ((s + 16 + s', a) # ys)"
    "\<And>x. unat x < unat p \<or> unat p + 16 \<le> unat x \<Longrightarrow>
       ys = [] \<or> unat x < unat q \<or> unat q + 16 \<le> unat x \<Longrightarrow> m' x = m x"
    "ms_prev m' p = ms_prev m p" "ys \<noteq> [] \<Longrightarrow> ms_prev m' q = p"
proof -
  let ?n = "after p (s, a)"
  have p: "blk m p (s, a) ?n" "unat p + 16 + s < lim" and n: "chain m lim ?n ((s', False) # ys)"
    using ch by simp_all
  have un: "unat ?n = unat p + 16 + s" using p lim by (simp add: unat_after)
  have nl: "unat ?n + 16 + s' \<le> lim" using n by (cases ys) auto
  have ap: "apart p ?n" using un nl lim by (intro apart_nat) auto
  define m1 where "m1 = (if ys \<noteq> [] then set_prev m q p else m)"
  define m2 where "m2 = set_next m1 p (if ys \<noteq> [] then q else 0)"
  define m3 where "m3 = set_size m2 p (ms_size m2 p + (16 + ms_size m2 ?n))"
  have m3: "mergeNextMemorySpace m p = (True, m3)" if "ms_next m ?n = (if ys \<noteq> [] then q else 0)"
    "ys \<noteq> [] \<Longrightarrow> q \<noteq> 0" "?n \<noteq> 0" "\<not> ms_isAllocated m ?n"
    using p that unfolding blk_def
    by (simp add: mergeNextMemorySpace_def m3_def m2_def m1_def sizeof_memory_space_def Let_def)
  show thesis
  proof (cases "ys = []")
    case True
    then have bn: "blk m ?n (s', False) 0" "unat ?n + 16 + s' = lim" using n by simp_all
    have "unat (ms_size m p + (16 + ms_size m ?n)) = s + 16 + s'"
      using p bn nl un lim unfolding blk_def by (simp add: unat_add_u32)
    then have "chain m3 lim p ((s + 16 + s', a) # ys)"
      using True p bn un unfolding blk_def m3_def m2_def m1_def
      by (simp add: mem_simps ap blk_def)
    moreover have "m3 x = m x" if "unat x < unat p \<or> unat p + 16 \<le> unat x" for x
      using that True p lim by (simp add: m3_def m2_def m1_def set_outside)
    moreover have "ms_prev m3 p = ms_prev m p" using True by (simp add: m3_def m2_def m1_def mem_simps)
    ultimately show thesis using that [of m3] m3 bn True unfolding blk_def by simp
  next
    case False
    then have bn: "blk m ?n (s', False) q" "unat ?n + 16 + s' < lim" "chain m lim q ys"
      using n by (simp_all add: chain_Cons q_def)
    have uq: "unat q = unat ?n + 16 + s'" using bn lim by (simp add: unat_after q_def)
    have q: "q \<noteq> 0" "unat q + 16 \<le> lim" using chain_first [OF bn(3) lim] by simp_all
    have ap: "apart p ?n" "apart q p" "apart q ?n" "apart p q" using un uq q lim
      by (auto intro: apart_nat)
    have sz: "unat (ms_size m p + (16 + ms_size m ?n)) = s + 16 + s'"
      using p bn nl un lim unfolding blk_def by (simp add: unat_add_u32)
    have qa: "after p (s + 16 + s', a) = q" by (simp add: q_def after_def algebra_simps)
    have out: "m3 x = m x" if "unat x < unat p \<or> unat p + 16 \<le> unat x"
      "unat x < unat q \<or> unat q + 16 \<le> unat x" for x
      using that False p q lim by (simp add: m3_def m2_def m1_def set_outside)
    have "chain m3 lim q ys"
      by (rule chain_new_prev [OF bn(3) lim])
        (use out un uq False ap in \<open>auto simp: m3_def m2_def m1_def mem_simps\<close>)
    then have "chain m3 lim p ((s + 16 + s', a) # ys)"
      using False p bn un uq sz unfolding blk_def m3_def m2_def m1_def
      by (simp add: mem_simps ap blk_def chain_Cons qa)
    moreover have "ms_prev m3 p = ms_prev m p" "ms_prev m3 q = p"
      using False ap by (simp_all add: m3_def m2_def m1_def mem_simps)
    ultimately show thesis using that [of m3] m3 bn q out False unfolding blk_def by simp
  qed
qed

section \<open>Splitting a block\<close>

fun coalesce :: "nat \<Rightarrow> block list \<Rightarrow> block list" where
  "coalesce s ((s', False) # ys) = (s + 16 + s', False) # ys"
| "coalesce s ys = (s, False) # ys"

text \<open>The header writes of \<open>splitMemorySpace\<close>, before the final merge.\<close>

definition split_raw :: "mem \<Rightarrow> u32 \<Rightarrow> u32 \<Rightarrow> mem" where
  "split_raw m p n =
     (let nxt = p + 16 + n;
          m1 = set_prev m nxt p;
          m2 = set_next m1 nxt (ms_next m1 p);
          m3 = set_size m2 nxt (ms_size m2 p - n - 16);
          m4 = set_isAllocated m3 nxt False;
          m5 = set_next m4 p nxt
      in set_size m5 p n)"

lemma splitMemorySpace_eq:
  "splitMemorySpace m p n =
     (if ms_size m p > n + 20 then (True, snd (mergeNextMemorySpace (split_raw m p n) (p + 16 + n)))
      else (False, m))"
  by (simp add: splitMemorySpace_def split_raw_def sizeof_memory_space_def Let_def add.assoc)

lemma split_raw_chain:
  assumes ch: "chain m lim p ((s, a) # ys)" and lim: "lim < 4294967296" and big: "unat n + 20 < s"
  defines "q \<equiv> p + 16 + n" and "m' \<equiv> split_raw m p n"
  shows "chain m' lim p ((unat n, a) # (s - (unat n + 16), False) # ys)"
    and "\<And>x. unat x < unat p \<or> unat p + 16 + s \<le> unat x \<Longrightarrow> m' x = m x"
    and "ms_prev m' q = p" "ms_prev m' p = ms_prev m p" "unat q = unat p + 16 + unat n"
    and "after q (s - (unat n + 16), False) = after p (s, a)"
proof -
  let ?nx = "if ys = [] then 0 else after p (s, a)"
  have p: "blk m p (s, a) ?nx" "unat p + 16 + s \<le> lim"
    using ch by (cases ys; simp)+
  have uq: "unat q = unat p + 16 + unat n"
    using p lim big by (simp add: q_def unat_add_u32)
  have ap: "apart p q" "apart q p" using uq big p lim by (auto intro: apart_nat)
  have sz: "unat (ms_size m p - n - 16) = s - (unat n + 16)"
    using p big unfolding blk_def by (simp add: unat_sub_u32)
  have aq: "after p (unat n, a) = q" "after q (s - (unat n + 16), False) = after p (s, a)"
  proof -
    have "s = (s - (unat n + 16)) + unat n + 16" using big by simp
    then have "(of_nat s :: u32) = of_nat (s - (unat n + 16)) + n + 16"
      by (metis of_nat_add of_nat_numeral of_nat_unat ucast_id)
    then show "after p (unat n, a) = q" "after q (s - (unat n + 16), False) = after p (s, a)"
      by (simp_all add: after_def q_def)
  qed
  then show "after q (s - (unat n + 16), False) = after p (s, a)" by simp
  show out: "\<And>x. unat x < unat p \<or> unat p + 16 + s \<le> unat x \<Longrightarrow> m' x = m x"
    using uq p lim big unfolding m'_def split_raw_def Let_def q_def [symmetric]
    by (auto simp: set_outside)
  show "ms_prev m' q = p" "ms_prev m' p = ms_prev m p" "unat q = unat p + 16 + unat n"
    unfolding m'_def split_raw_def Let_def q_def [symmetric] by (simp_all add: mem_simps ap uq)
  have fields: "ms_size m' p = n" "ms_isAllocated m' p = a" "ms_next m' p = q"
    "ms_size m' q = ms_size m p - n - 16" "\<not> ms_isAllocated m' q" "ms_next m' q = ?nx"
    using p unfolding m'_def split_raw_def Let_def q_def [symmetric] blk_def
    by (simp_all add: mem_simps ap)
  have "q \<noteq> 0" using uq by auto
  then have bq: "blk m' q (s - (unat n + 16), False) ?nx" and bp: "blk m' p (unat n, a) q"
    using fields sz p unfolding blk_def by simp_all
  show "chain m' lim p ((unat n, a) # (s - (unat n + 16), False) # ys)"
  proof (cases "ys = []")
    case True
    then show ?thesis using ch bp bq uq big by (simp add: aq)
  next
    case False
    then have tl: "chain m lim (after p (s, a)) ys" "unat p + 16 + s < lim"
      using ch by (simp_all add: chain_Cons)
    have "chain m' lim (after p (s, a)) ys"
      by (rule chain_frame [OF tl(1) lim]) (use tl lim out in \<open>simp add: unat_after\<close>)
    then show ?thesis using False bp bq uq big tl by (simp add: aq chain_Cons)
  qed
qed

section \<open>Allocated bytes\<close>

text \<open>The addresses inside the payload of an allocated block.\<close>

fun in_alloc :: "u32 \<Rightarrow> block list \<Rightarrow> u32 \<Rightarrow> bool" where
  "in_alloc p [] x \<longleftrightarrow> False"
| "in_alloc p (b # bs) x \<longleftrightarrow>
     snd b \<and> unat p + 16 \<le> unat x \<and> unat x < unat p + 16 + fst b \<or> in_alloc (after p b) bs x"

lemma in_alloc_append:
  "seg m lim p xs q \<Longrightarrow> in_alloc p (xs @ ys) x \<longleftrightarrow> in_alloc p xs x \<or> in_alloc q ys x"
  by (induction xs arbitrary: p) auto

lemma in_alloc_seg:
  "seg m lim p xs q \<Longrightarrow> lim < 4294967296 \<Longrightarrow> in_alloc p xs x \<Longrightarrow>
     unat p + 16 \<le> unat x \<and> unat x < unat q"
proof (induction xs arbitrary: p)
  case (Cons b bs)
  have "unat (after p b) = unat p + 16 + fst b" using Cons.prems by (simp add: unat_after)
  moreover have "unat (after p b) \<le> unat q"
    using Cons.prems seg_span [of m lim "after p b" bs q] by simp
  ultimately show ?case using Cons by fastforce
qed simp

lemma in_alloc_chain:
  "chain m lim p bs \<Longrightarrow> lim < 4294967296 \<Longrightarrow> in_alloc p bs x \<Longrightarrow>
     unat p + 16 \<le> unat x \<and> unat x < lim"
proof (induction bs arbitrary: p)
  case (Cons b bs)
  show ?case
  proof (cases "bs = []")
    case False
    then have "unat (after p b) = unat p + 16 + fst b" using Cons.prems by (simp add: chain_Cons unat_after)
    then show ?thesis using Cons False by (fastforce simp: chain_Cons)
  qed (use Cons.prems in auto)
qed simp

lemma merge_keeps_alloc:
  assumes ch: "chain m lim p ((s, a) # bs)" and lim: "lim < 4294967296"
    and x: "in_alloc p ((s, a) # bs) x \<or> unat x < unat p \<or> lim \<le> unat x"
  shows "snd (mergeNextMemorySpace m p) x = m x"
proof (cases bs)
  case Nil
  then show ?thesis using ch merge_no(1) [of m lim p "(s, a)"] by simp
next
  case (Cons b ys)
  show ?thesis
  proof (cases "snd b")
    case True
    then have "b = (fst b, True)" by (simp add: prod_eq_iff)
    then show ?thesis using ch Cons merge_no(2) [of m lim p "(s, a)" "fst b" ys] by simp
  next
    case False
    then have b: "b = (fst b, False)" by (simp add: prod_eq_iff)
    let ?q = "after (after p (s, a)) b"
    from ch Cons b have ch2: "chain m lim p ((s, a) # (fst b, False) # ys)" by simp
    have un: "unat (after p (s, a)) = unat p + 16 + s" "unat p + 16 + s < lim"
      using ch2 lim by (simp_all add: unat_after)
    obtain m' where m': "mergeNextMemorySpace m p = (True, m')"
      "\<And>x. unat x < unat p \<or> unat p + 16 \<le> unat x \<Longrightarrow>
        ys = [] \<or> unat x < unat ?q \<or> unat ?q + 16 \<le> unat x \<Longrightarrow> m' x = m x"
      using merge_yes [OF ch2 lim] b by metis
    have q: "unat p + 16 + s \<le> unat ?q \<and> chain m lim ?q ys \<and> unat ?q + 16 \<le> lim" if "ys \<noteq> []"
    proof -
      have "chain m lim ?q ys" "unat ?q = unat (after p (s, a)) + 16 + fst b"
        using ch2 that b lim by (auto simp: chain_Cons unat_after)
      then show ?thesis using un chain_first lim by fastforce
    qed
    have "m' x = m x"
    proof (rule m'(2))
      show "unat x < unat p \<or> unat p + 16 \<le> unat x"
        using x in_alloc_chain [OF ch lim, of x] un by auto
      show "ys = [] \<or> unat x < unat ?q \<or> unat ?q + 16 \<le> unat x"
      proof (cases "ys = []")
        case ys: False
        have "in_alloc ?q ys x \<Longrightarrow> unat ?q + 16 \<le> unat x"
          using in_alloc_chain [of m lim ?q ys x] q ys lim by blast
        then show ?thesis using x q [OF ys] un False by (auto simp: Cons)
      qed simp
    qed
    then show ?thesis using m' by simp
  qed
qed

end
