(* ===== verification/Heap_Correct.thy ===== *)
theory Heap_Correct
  imports Heap_Spec
begin

text \<open>
  The allocator against its specification: \<open>spec_malloc\<close> and \<open>spec_free\<close> act on the list of
  blocks; \<open>malloc\<close> and \<open>free\<close> do the same to the memory.
\<close>

section \<open>The specification\<close>

definition carve :: "nat \<Rightarrow> nat \<Rightarrow> block list \<Rightarrow> block list" where
  "carve n s ys =
     (if n + 20 < s then (n, True) # coalesce (s - (n + 16)) ys else (s, True) # ys)"

text \<open>First fit; the result is the offset of the payload from the start of the heap and the
  new list of blocks.\<close>

fun spec_malloc :: "nat \<Rightarrow> block list \<Rightarrow> (nat \<times> block list) option" where
  "spec_malloc n [] = None"
| "spec_malloc n ((s, a) # bs) =
     (if \<not> a \<and> n \<le> s then Some (16, carve n s bs)
      else map_option (\<lambda>(off, bs'). (16 + s + off, (s, a) # bs')) (spec_malloc n bs))"

text \<open>The block whose payload starts at an offset becomes free and merges with free
  neighbours.\<close>

fun spec_free :: "nat \<Rightarrow> block list \<Rightarrow> block list" where
  "spec_free off [] = []"
| "spec_free off [(s, a)] = (if off = 16 then [(s, False)] else [(s, a)])"
| "spec_free off ((s, a) # (s', a') # bs) =
     (if off = 16 then coalesce s ((s', a') # bs)
      else if off = 16 + s + 16 \<and> \<not> a then coalesce s (coalesce s' bs)
      else (s, a) # spec_free (off - (16 + s)) ((s', a') # bs))"

text \<open>The concrete states that represent a list of blocks.  The bound keeps the address
  arithmetic of \<open>heap.c\<close> below \<open>2 ^ 32\<close>.\<close>

definition heap_ok :: "heap_state \<Rightarrow> nat \<Rightarrow> block list \<Rightarrow> bool" where
  "heap_ok st lim bs \<longleftrightarrow> chain (heap_mem st) lim (head st) bs \<and> lim < 4294967280"

definition linked :: "heap_state \<Rightarrow> nat \<Rightarrow> block list \<Rightarrow> bool" where
  "linked st lim bs \<longleftrightarrow> heap_ok st lim bs \<and> backs (heap_mem st) 0 (head st) bs"

section \<open>Finding a block\<close>

definition unfit :: "nat \<Rightarrow> block \<Rightarrow> bool" where
  "unfit n b \<longleftrightarrow> snd b \<or> fst b < n"

lemma find_free_loop_chain:
  assumes "chain m lim p bs"
  shows "\<exists>xs b ys q. find_free_loop m n p = Some q \<and> bs = xs @ b # ys \<and> seg m lim p xs q \<and>
     list_all (unfit (unat n)) xs \<and> (\<not> unfit (unat n) b \<or> ys = [])"
  using assms
proof (induction bs arbitrary: p)
  case (Cons b bs)
  have sz: "unat (ms_size m p) = fst b" "ms_isAllocated m p = snd b"
    using Cons.prems by (cases bs; simp add: blk_def)+
  show ?case
  proof (cases "bs = []")
    case True
    then have "ms_next m p = 0" using Cons.prems by (simp add: blk_def)
    then have "find_free_loop m n p = Some p" by (simp add: find_free_loop.simps)
    then show ?thesis using True by (intro exI [of _ "[]"]) auto
  next
    case False
    then have nx: "ms_next m p = after p b" "chain m lim (after p b) bs" "blk m p b (after p b)"
      "unat p + 16 + fst b < lim"
      using Cons.prems by (auto simp: chain_Cons blk_def)
    have nz: "after p b \<noteq> 0" using nx(2) False by (cases bs; cases "tl bs") (auto simp: blk_def)
    show ?thesis
    proof (cases "unfit (unat n) b")
      case True
      then have step: "find_free_loop m n p = find_free_loop m n (after p b)"
        using nx nz sz by (subst find_free_loop.simps) (auto simp: word_less_nat_alt unfit_def)
      obtain xs c ys q where IH: "find_free_loop m n (after p b) = Some q"
        "bs = xs @ c # ys" "seg m lim (after p b) xs q" "list_all (unfit (unat n)) xs"
        "\<not> unfit (unat n) c \<or> ys = []"
        using Cons.IH [OF nx(2)] by blast
      then have "find_free_loop m n p = Some q \<and> b # bs = (b # xs) @ c # ys \<and>
          seg m lim p (b # xs) q \<and> list_all (unfit (unat n)) (b # xs) \<and>
          (\<not> unfit (unat n) c \<or> ys = [])"
        using step nx True by simp
      then show ?thesis by blast
    next
      case False
      then have "find_free_loop m n p = Some p"
        using sz by (subst find_free_loop.simps) (auto simp: word_less_nat_alt unfit_def)
      then show ?thesis using False by (intro exI [of _ "[]"]) auto
    qed
  qed
qed simp

lemma spec_malloc_split:
  "list_all (unfit n) xs \<Longrightarrow>
     spec_malloc n (xs @ ys) = map_option (\<lambda>(off, bs'). (span xs + off, xs @ bs')) (spec_malloc n ys)"
  by (induction xs) (auto simp: unfit_def option.map_comp o_def split_def option.map_ident intro!: option.map_cong)

lemma spec_malloc_none: "list_all (unfit n) xs \<Longrightarrow> spec_malloc n xs = None"
  by (induction xs) (auto simp: unfit_def)

lemma find_free_space_chain:
  assumes "heap_ok st lim bs"
  obtains (none) "find_free_space st n = Some 0" "spec_malloc (unat n) bs = None"
  | (found) xs s ys q where "find_free_space st n = Some q" "bs = xs @ (s, False) # ys"
      "seg (heap_mem st) lim (head st) xs q" "unat n \<le> s" "q \<noteq> 0"
      "spec_malloc (unat n) bs = Some (span xs + 16, xs @ carve (unat n) s ys)"
      "list_all (unfit (unat n)) xs"
proof -
  let ?m = "heap_mem st"
  have ch: "chain ?m lim (head st) bs" using assms by (simp add: heap_ok_def)
  then obtain xs b ys q where f: "find_free_loop ?m n (head st) = Some q" "bs = xs @ b # ys"
    "seg ?m lim (head st) xs q" "list_all (unfit (unat n)) xs" "\<not> unfit (unat n) b \<or> ys = []"
    using find_free_loop_chain by blast
  then have "chain ?m lim q (b # ys)" using ch chain_at by blast
  then have q: "q \<noteq> 0" "unat (ms_size ?m q) = fst b" "ms_isAllocated ?m q = snd b"
    by (cases ys; simp add: blk_def)+
  show thesis
  proof (cases "unfit (unat n) b")
    case True
    then have "list_all (unfit (unat n)) bs" using f by auto
    moreover have "find_free_space st n = Some 0"
      using True f q by (auto simp: find_free_space_def unfit_def word_less_nat_alt)
    ultimately show thesis by (intro none spec_malloc_none)
  next
    case False
    then obtain s where b: "b = (s, False)" "unat n \<le> s" by (cases b) (auto simp: unfit_def)
    have "find_free_space st n = Some q"
      using False f q by (auto simp: find_free_space_def unfit_def word_less_nat_alt)
    moreover have "spec_malloc (unat n) bs = Some (span xs + 16, xs @ carve (unat n) s ys)"
      using f b by (simp add: spec_malloc_split)
    ultimately show thesis using found f b q by metis
  qed
qed

section \<open>Allocating a block\<close>

lemma chain_set_isAllocated:
  assumes "chain m lim p ((s, a) # ys)" "lim < 4294967296"
  shows "chain (set_isAllocated m p b) lim p ((s, b) # ys)"
proof -
  have "chain (set_isAllocated m p b) lim (after p (s, a)) ys" if "ys \<noteq> []"
    by (rule chain_frame) (use assms that in \<open>auto simp: chain_Cons unat_after set_outside\<close>)
  then show ?thesis using assms
    by (cases "ys = []") (auto simp: blk_def mem_simps chain_Cons after_def)
qed

lemma coalesce_cases:
  obtains (merges) s' zs where "ys = (s', False) # zs"
  | (last) "ys = []"
  | (blocked) s' zs where "ys = (s', True) # zs"
  by (metis (full_types) list.exhaust prod.exhaust)

lemma merge_coalesce:
  assumes "chain m lim p ((s, False) # ys)" "lim < 4294967296"
  shows "chain (snd (mergeNextMemorySpace m p)) lim p (coalesce s ys)"
proof (cases ys rule: coalesce_cases)
  case (merges s' zs)
  with assms have "chain m lim p ((s, False) # (s', False) # zs)" by simp
  from merge_yes [OF this assms(2)] show ?thesis using merges
    by (metis coalesce.simps(1) snd_conv)
next
  case last
  with assms have "mergeNextMemorySpace m p = (False, m)" using merge_no(1) by blast
  then show ?thesis using assms last by simp
next
  case (blocked s' zs)
  with assms have "mergeNextMemorySpace m p = (False, m)" using merge_no(2) by blast
  then show ?thesis using assms blocked by simp
qed

lemma coalesce_not_Nil [simp]: "coalesce s ys \<noteq> []"
  by (cases "(s, ys)" rule: coalesce.cases) auto

lemma chain_replace_tail:
  assumes "chain m lim p (b # ys)" "lim < 4294967296" "ys \<noteq> []"
    "chain m' lim (after p b) zs" "zs \<noteq> []" "\<And>x. unat x < unat (after p b) \<Longrightarrow> m' x = m x"
  shows "chain m' lim p (b # zs)"
proof -
  have "unat (after p b) = unat p + 16 + fst b" using assms by (simp add: chain_Cons unat_after)
  then have "blk m' p b (after p b) = blk m p b (after p b)"
    using assms by (intro blk_cong_nat) (auto simp: chain_Cons)
  then show ?thesis using assms by (simp add: chain_Cons)
qed

lemma in_alloc_tail:
  assumes "chain m lim q (b # ys)" "lim < 4294967296" "in_alloc (after q b) ys x"
  shows "unat q + 16 + fst b \<le> unat x"
proof -
  have "chain m lim (after q b) ys" "unat (after q b) = unat q + 16 + fst b"
    using assms by (cases "ys = []"; simp add: chain_Cons unat_after)+
  then show ?thesis using in_alloc_chain [OF _ assms(2,3)] by fastforce
qed

lemma alloc_block:
  assumes ch: "chain m lim q ((s, False) # ys)" and lim: "lim < 4294967280" and n: "unat n \<le> s"
  defines "m' \<equiv> set_isAllocated (snd (splitMemorySpace m q n)) q True"
  shows "chain m' lim q (carve (unat n) s ys)"
    and "in_alloc (after q (s, False)) ys x \<or> unat x < unat q \<or> lim \<le> unat x \<Longrightarrow> m' x = m x"
proof -
  have lim': "lim < 4294967296" using lim by simp
  have sz: "unat (ms_size m q) = s" "unat q + 16 + s \<le> lim" using ch by (cases ys; simp add: blk_def)+
  have n20: "unat (n + 20) = unat n + 20"
    using n sz lim unat_add_u32 [of n 20] by simp
  have far: "unat q + 16 + s \<le> unat x" if "in_alloc (after q (s, False)) ys x" for x
    using in_alloc_tail [OF ch lim' that] by simp
  let ?m7 = "snd (splitMemorySpace m q n)"
  have "chain m' lim q (carve (unat n) s ys) \<and>
    (in_alloc (after q (s, False)) ys x \<or> unat x < unat q \<or> lim \<le> unat x \<longrightarrow> ?m7 x = m x)"
  proof (cases "unat n + 20 < s")
    case False
    then have "?m7 = m" using n20 sz by (simp add: splitMemorySpace_eq word_less_nat_alt)
    then show ?thesis
      using chain_set_isAllocated [OF ch lim'] False by (simp add: m'_def carve_def)
  next
    case True
    let ?m6 = "split_raw m q n" and ?nx = "q + 16 + n"
    have m7: "?m7 = snd (mergeNextMemorySpace ?m6 ?nx)"
      using True n20 sz by (simp add: splitMemorySpace_eq word_less_nat_alt)
    note raw = split_raw_chain [OF ch lim' True]
    have nx: "after q (unat n, False) = ?nx" by (simp add: after_def)
    have tail: "chain ?m6 lim ?nx ((s - (unat n + 16), False) # ys)"
      using raw(1) by (simp add: nx)
    have below: "?m7 x = ?m6 x" if "unat x < unat ?nx" for x
      unfolding m7 using merge_keeps_alloc [OF tail lim'] that by blast
    have "chain ?m7 lim q ((unat n, False) # coalesce (s - (unat n + 16)) ys)"
      using chain_replace_tail [OF raw(1) lim', of ?m7] merge_coalesce [OF tail lim'] below
      by (simp add: nx m7)
    then have "chain m' lim q (carve (unat n) s ys)"
      using chain_set_isAllocated [OF _ lim'] True by (simp add: m'_def carve_def)
    moreover have "?m7 x = m x"
      if x: "in_alloc (after q (s, False)) ys x \<or> unat x < unat q \<or> lim \<le> unat x"
    proof -
      have "?m7 x = ?m6 x" unfolding m7
        using merge_keeps_alloc [OF tail lim', of x] x raw(5,6) by auto
      then show ?thesis using raw(2) far x sz by fastforce
    qed
    ultimately show ?thesis by blast
  qed
  then show "chain m' lim q (carve (unat n) s ys)"
    "in_alloc (after q (s, False)) ys x \<or> unat x < unat q \<or> lim \<le> unat x \<Longrightarrow> m' x = m x"
    using far [of x] sz lim unfolding m'_def by (auto simp: set_outside)
qed

lemma seg_addr: "seg m lim p xs q \<Longrightarrow> q = p + of_nat (span xs)"
proof (induction xs arbitrary: p)
  case (Cons b bs)
  then have "q = after p b + of_nat (span bs)" by simp
  then show ?case by (simp add: after_def algebra_simps)
qed simp

lemma carve_not_Nil [simp]: "carve n s ys \<noteq> []"
  by (simp add: carve_def)

text \<open>The payload of the new block.\<close>

lemma after_merge: "after p (s + 16 + s', a) = after (after p (s, b)) (s', c)"
  by (simp add: after_def add_ac)

lemma in_alloc_coalesce: "in_alloc p (coalesce s ys) x = in_alloc (after p (s, False)) ys x"
  by (cases "(s, ys)" rule: coalesce.cases) (auto simp: after_merge [where b = False and c = False])

lemma carve_payload:
  assumes "chain m lim q ((s, False) # ys)" "lim < 4294967296" "n \<le> s"
  shows "\<exists>k \<ge> n. k \<le> s \<and> (\<forall>x. in_alloc q (carve n s ys) x \<longleftrightarrow>
    unat q + 16 \<le> unat x \<and> unat x < unat q + 16 + k \<or> in_alloc (after q (s, False)) ys x)"
proof (cases "n + 20 < s")
  case True
  then have "s = (s - (n + 16)) + n + 16" by simp
  then have "(of_nat s :: u32) = of_nat (s - (n + 16)) + of_nat n + 16"
    by (metis of_nat_add of_nat_numeral)
  then have "after (after q (n, True)) (s - (n + 16), False) = after q (s, False)"
    by (simp add: after_def)
  then show ?thesis using True assms
    by (intro exI [of _ n]) (simp add: carve_def in_alloc_coalesce)
next
  case False
  then show ?thesis using assms by (intro exI [of _ s]) (simp add: carve_def after_def)
qed

text \<open>One call of \<open>malloc\<close> is one step of the specification; a failing call changes
  nothing, and no call touches the payload of an allocated block or memory outside the
  heap.\<close>

lemma malloc_spec:
  assumes ok: "heap_ok st lim bs"
  obtains (fail) "malloc sz st = Some (0, st)" "spec_malloc (unat (ALIGN_4BYTE sz)) bs = None"
  | (carved) off bs' st' where "malloc sz st = Some (head st + of_nat off, st')"
      "spec_malloc (unat (ALIGN_4BYTE sz)) bs = Some (off, bs')"
      "heap_ok st' lim bs'" "head st' = head st"
      "\<And>x. in_alloc (head st) bs x \<or> unat x < unat (head st) \<or> lim \<le> unat x \<Longrightarrow>
         heap_mem st' x = heap_mem st x"
      "\<And>x. in_alloc (head st) bs x \<Longrightarrow> in_alloc (head st) bs' x"
      "\<And>x. unat (head st) + off \<le> unat x \<Longrightarrow>
         unat x < unat (head st) + off + unat (ALIGN_4BYTE sz) \<Longrightarrow>
         in_alloc (head st) bs' x \<and> \<not> in_alloc (head st) bs x"
      "unat (head st) + off + unat (ALIGN_4BYTE sz) \<le> lim" "0 < off"
  using ok
proof (cases rule: find_free_space_chain [where n = "ALIGN_4BYTE sz"])
  case none
  then show thesis using fail by (simp add: malloc_def Let_def)
next
  case (found xs s ys q)
  let ?m = "heap_mem st" and ?n = "ALIGN_4BYTE sz"
  define m' where "m' = set_isAllocated (snd (splitMemorySpace ?m q ?n)) q True"
  have lim: "lim < 4294967280" "lim < 4294967296" using ok by (simp_all add: heap_ok_def)
  have ch: "chain ?m lim q ((s, False) # ys)"
    using ok found chain_at unfolding heap_ok_def by blast
  note ab = alloc_block [OF ch lim(1) found(4), folded m'_def]
  have seg': "seg m' lim (head st) xs q" using seg_frame [OF found(3) lim(2)] ab(2) by blast
  obtain k where k: "unat ?n \<le> k" "k \<le> s" and pay: "\<And>x. in_alloc q (carve (unat ?n) s ys) x \<longleftrightarrow>
      unat q + 16 \<le> unat x \<and> unat x < unat q + 16 + k \<or> in_alloc (after q (s, False)) ys x"
    using carve_payload [OF ch lim(2) found(4)] by blast
  have old: "in_alloc (head st) bs x \<longleftrightarrow>
      in_alloc (head st) xs x \<or> in_alloc (after q (s, False)) ys x" for x
    using in_alloc_append [OF found(3)] found(2) by simp
  have new: "in_alloc (head st) (xs @ carve (unat ?n) s ys) x \<longleftrightarrow>
      in_alloc (head st) bs x \<or> unat q + 16 \<le> unat x \<and> unat x < unat q + 16 + k" for x
    using in_alloc_append [OF seg'] old pay by auto
  have uq: "unat q = unat (head st) + span xs" using seg_span [OF found(3) lim(2)] by simp
  show thesis
  proof (rule carved)
    show "malloc sz st = Some (head st + of_nat (span xs + 16), st\<lparr>heap_mem := m'\<rparr>)"
      using found seg_addr [OF found(3)]
      by (simp add: malloc_def Let_def m'_def sizeof_memory_space_def)
    show "spec_malloc (unat ?n) bs = Some (span xs + 16, xs @ carve (unat ?n) s ys)"
      by (rule found(6))
    show "heap_ok (st\<lparr>heap_mem := m'\<rparr>) lim (xs @ carve (unat ?n) s ys)"
      using seg' ab(1) lim by (auto simp: heap_ok_def chain_append)
    show "heap_mem (st\<lparr>heap_mem := m'\<rparr>) x = ?m x"
      if "in_alloc (head st) bs x \<or> unat x < unat (head st) \<or> lim \<le> unat x" for x
    proof -
      have "in_alloc (after q (s, False)) ys x \<or> unat x < unat q \<or> lim \<le> unat x"
        using that in_alloc_seg [OF found(3) lim(2), of x] uq unfolding old by auto
      then show ?thesis using ab(2) by simp
    qed
    show "in_alloc (head st) (xs @ carve (unat ?n) s ys) x" if "in_alloc (head st) bs x" for x
      using that new by simp
    show "in_alloc (head st) (xs @ carve (unat ?n) s ys) x \<and> \<not> in_alloc (head st) bs x"
      if "unat (head st) + (span xs + 16) \<le> unat x"
        "unat x < unat (head st) + (span xs + 16) + unat ?n" for x
      using that new uq k old in_alloc_seg [OF found(3) lim(2), of x] in_alloc_tail [OF ch lim(2), of x]
      by auto
    show "unat (head st) + (span xs + 16) + unat ?n \<le> lim"
      using chain_span [OF ch lim(2)] found(4) uq by simp
  qed simp_all
qed

section \<open>Freeing a block\<close>

text \<open>The header before the end of a prefix, and the back links of a concatenation.\<close>

fun last_hdr :: "u32 \<Rightarrow> u32 \<Rightarrow> block list \<Rightarrow> u32" where
  "last_hdr pv p [] = pv"
| "last_hdr pv p (b # bs) = last_hdr p (after p b) bs"

lemma backs_append:
  "seg m lim p xs q \<Longrightarrow>
     backs m' pv p (xs @ ys) \<longleftrightarrow> backs m' pv p xs \<and> backs m' (last_hdr pv p xs) q ys"
  by (induction xs arbitrary: p pv) auto

lemma backs_seg_frame:
  assumes "backs m pv p xs" "seg m lim p xs q" "lim < 4294967296" "\<And>x. unat x < unat q \<Longrightarrow> m' x = m x"
  shows "backs m' pv p xs"
  using assms
proof (induction xs arbitrary: p pv)
  case (Cons b bs)
  have "unat (after p b) \<le> unat q" "unat (after p b) = unat p + 16 + fst b"
    using Cons.prems seg_span [of m lim "after p b" bs q] by (auto simp: unat_after)
  then have "ms_prev m' p = ms_prev m p"
    using Cons.prems by (intro header_cong_nat(1)) auto
  then show ?case using Cons by simp
qed simp

lemma last_hdr_snoc:
  "seg m lim p (xs @ [b]) q \<Longrightarrow> \<exists>r. seg m lim p xs r \<and> last_hdr pv p (xs @ [b]) = r \<and> q = after r b \<and>
     blk m r b q \<and> unat r + 16 + fst b < lim"
  by (induction xs arbitrary: p pv) auto

text \<open>A merge at the start of a list of blocks, with both kinds of links.\<close>

lemma merge_links:
  assumes ch: "chain m lim p ((s, False) # ys)" and lim: "lim < 4294967296"
    and pv: "ms_prev m p = pv" and bk: "backs m pv2 (after p (s, False)) ys"
    and hd: "ys = [] \<or> \<not> snd (hd ys) \<or> pv2 = p"
  defines "m' \<equiv> snd (mergeNextMemorySpace m p)"
  shows "chain m' lim p (coalesce s ys)" "backs m' pv p (coalesce s ys)"
    "\<And>x. unat x < unat p \<Longrightarrow> m' x = m x" "ms_prev m' p = ms_prev m p"
proof -
  show "chain m' lim p (coalesce s ys)" unfolding m'_def by (rule merge_coalesce [OF ch lim])
  show "\<And>x. unat x < unat p \<Longrightarrow> m' x = m x"
    unfolding m'_def using merge_keeps_alloc [OF ch lim] by blast
  have "backs m' pv p (coalesce s ys) \<and> ms_prev m' p = ms_prev m p"
  proof (cases ys rule: coalesce_cases)
    case last
    then have "m' = m" using merge_no(1) [of m lim p "(s, False)"] ch unfolding m'_def by simp
    then show ?thesis using pv last by simp
  next
    case (blocked s' zs)
    then have "mergeNextMemorySpace m p = (False, m)" using ch merge_no(2) by blast
    then have "m' = m" by (simp add: m'_def)
    then show ?thesis using pv bk hd blocked by simp
  next
    case (merges s' zs)
    let ?q = "after (after p (s, False)) (s', False)"
    have ch2: "chain m lim p ((s, False) # (s', False) # zs)" using ch merges by simp
    obtain m2 where m2: "mergeNextMemorySpace m p = (True, m2)"
      "\<And>x. unat x < unat p \<or> unat p + 16 \<le> unat x \<Longrightarrow>
         zs = [] \<or> unat x < unat ?q \<or> unat ?q + 16 \<le> unat x \<Longrightarrow> m2 x = m x"
      "ms_prev m2 p = ms_prev m p" "zs \<noteq> [] \<Longrightarrow> ms_prev m2 ?q = p"
      by (rule merge_yes [OF ch2 lim]) blast
    have m': "m' = m2" using m2 by (simp add: m'_def)
    have "backs m2 p ?q zs"
    proof (cases "zs = []")
      case False
      have "unat (after p (s, False)) = unat p + 16 + s" using ch2 lim by (simp add: unat_after)
      moreover have q: "chain m lim ?q zs" "unat ?q = unat (after p (s, False)) + 16 + s'"
        using ch2 lim False by (auto simp: chain_Cons unat_after)
      ultimately show ?thesis
        using backs_new_prev [OF q(1) _ lim, of "after p (s, False)" m2 p] bk merges m2 False by auto
    qed simp
    moreover have "?q = after p (s + 16 + s', False)" by (simp add: after_def algebra_simps)
    ultimately show ?thesis using pv m2 merges by (simp add: m')
  qed
  then show "backs m' pv p (coalesce s ys)" "ms_prev m' p = ms_prev m p" by auto
qed

definition freed :: "block list \<Rightarrow> nat \<Rightarrow> block list \<Rightarrow> block list" where
  "freed xs s ys =
     (if xs = [] \<or> snd (last xs) then xs @ coalesce s ys
      else butlast xs @ coalesce (fst (last xs)) (coalesce s ys))"

lemma spec_free_freed: "spec_free (span xs + 16) (xs @ (s, a) # ys) = freed xs s ys"
proof (induction xs)
  case Nil
  then show ?case by (cases ys) (auto simp: freed_def)
next
  case (Cons b bs)
  obtain s0 a0 where b: "b = (s0, a0)" by (cases b)
  show ?case
  proof (cases bs)
    case Nil
    then show ?thesis using Cons b by (cases ys) (auto simp: freed_def)
  next
    case (Cons c cs)
    then show ?thesis using Cons.IH b by (cases c) (auto simp: freed_def)
  qed
qed

lemma chain_after_prefix:
  assumes "chain m lim h (xs @ b # ys)" "seg m lim h xs q" "lim < 4294967296" "backs m pv h xs"
    "chain m' lim q zs" "backs m' (last_hdr pv h xs) q zs" "zs \<noteq> []"
    "\<And>x. unat x < unat q \<Longrightarrow> m' x = m x"
  shows "chain m' lim h (xs @ zs)" "backs m' pv h (xs @ zs)" "seg m' lim h xs q"
proof -
  show seg': "seg m' lim h xs q" using seg_frame [OF assms(2,3)] assms(8) by blast
  then show "chain m' lim h (xs @ zs)" using assms(5,7) by (auto simp: chain_append)
  show "backs m' pv h (xs @ zs)"
    using backs_append [OF seg'] backs_seg_frame [OF assms(4,2,3,8)] assms(6) by blast
qed

lemma free_links:
  assumes ln: "linked st lim (xs @ (s, a) # ys)" and sg: "seg (heap_mem st) lim (head st) xs q"
  shows "linked (free (q + 16) st) lim (freed xs s ys)"
    and "\<And>x. in_alloc (head st) xs x \<or> in_alloc (after q (s, a)) ys x \<or>
      unat x < unat (head st) \<or> lim \<le> unat x \<Longrightarrow> heap_mem (free (q + 16) st) x = heap_mem st x"
    and "head (free (q + 16) st) = head st"
proof -
  let ?m = "heap_mem st" and ?h = "head st"
  define m1 where "m1 = set_isAllocated ?m q False"
  define m2 where "m2 = snd (mergeNextMemorySpace m1 q)"
  have lim: "lim < 4294967296" "lim < 4294967280" and ch: "chain ?m lim ?h (xs @ (s, a) # ys)"
    and bk: "backs ?m 0 ?h (xs @ (s, a) # ys)"
    using ln by (simp_all add: linked_def heap_ok_def)
  have chq: "chain ?m lim q ((s, a) # ys)" using chain_at [OF ch sg] .
  have q: "unat q + 16 \<le> lim" "q \<noteq> 0" using chain_first [OF chq lim(1)] by simp_all
  have bks: "backs ?m 0 ?h xs" "backs ?m (last_hdr 0 ?h xs) q ((s, a) # ys)"
    using bk backs_append [OF sg] by auto
  have ch1: "chain m1 lim q ((s, False) # ys)"
    unfolding m1_def by (rule chain_set_isAllocated [OF chq lim(1)])
  have out1: "m1 x = ?m x" if "unat x < unat q \<or> unat q + 16 \<le> unat x" for x
    using that q lim by (simp add: m1_def set_outside)
  have bk1: "backs m1 (last_hdr 0 ?h xs) q ((s, False) # ys)"
    using backs_new_prev [OF chq bks(2) lim(1), of m1 "last_hdr 0 ?h xs"] out1 bks(2)
    by (auto simp: m1_def mem_simps after_def)
  have bk1': "ms_prev m1 q = last_hdr 0 ?h xs" "backs m1 q (after q (s, False)) ys"
    using bk1 by simp_all
  note mg = merge_links [OF ch1 lim(1) bk1', folded m2_def, simplified]
  have below: "\<And>x. unat x < unat q \<Longrightarrow> m2 x = ?m x" using mg(3) out1 by simp
  note pre = chain_after_prefix [OF ch sg lim(1) bks(1) mg(1,2) coalesce_not_Nil below]
  have pv: "ms_prev m2 q = last_hdr 0 ?h xs"
    using mg(4) bks(2) by (simp add: m1_def mem_simps)
  have nz: "q + 16 \<noteq> 0" using q lim unat_add_u32 [of q 16] by auto
  let ?pv = "last_hdr 0 ?h xs"
  have fr: "free (q + 16) st = st\<lparr>heap_mem :=
      (if ?pv \<noteq> 0 \<and> \<not> ms_isAllocated m2 ?pv then snd (mergeNextMemorySpace m2 ?pv) else m2)\<rparr>"
    using nz by (simp add: free_def sizeof_memory_space_def Let_def m1_def [symmetric]
      m2_def [symmetric] pv)
  have hq: "unat ?h \<le> unat q" using seg_span [OF sg lim(1)] by simp
  have keep2: "m2 x = ?m x" if "in_alloc ?h xs x \<or> in_alloc (after q (s, a)) ys x \<or>
      unat x < unat ?h \<or> lim \<le> unat x" for x
    using that hq q out1 [of x] in_alloc_seg [OF sg lim(1), of x] in_alloc_tail [OF chq lim(1), of x]
      merge_keeps_alloc [OF ch1 lim(1), of x] by (auto simp: m2_def after_def)
  show "head (free (q + 16) st) = ?h" by (simp add: fr)
  have "linked (free (q + 16) st) lim (freed xs s ys) \<and>
    (\<forall>x. in_alloc ?h xs x \<or> in_alloc (after q (s, a)) ys x \<or>
      unat x < unat ?h \<or> lim \<le> unat x \<longrightarrow> heap_mem (free (q + 16) st) x = m2 x)"
  proof (cases xs rule: rev_cases)
    case Nil
    then show ?thesis
      using fr pre lim by (simp add: linked_def heap_ok_def freed_def)
  next
    case (snoc ws b)
    obtain r where r: "seg m2 lim ?h ws r" "?pv = r" "q = after r b" "blk m2 r b q"
      using last_hdr_snoc [of m2 lim ?h ws b q 0] pre(3) snoc by auto
    show ?thesis
    proof (cases "snd b")
      case True
      then show ?thesis
        using fr pre lim r snoc by (simp add: linked_def heap_ok_def freed_def blk_def)
    next
      case False
      then obtain s0 where b: "b = (s0, False)" by (cases b) auto
      have ch2: "chain m2 lim ?h (ws @ (s0, False) # coalesce s ys)"
        and bk2: "backs m2 0 ?h (ws @ (s0, False) # coalesce s ys)"
        using pre(1,2) snoc b by simp_all
      have chr: "chain m2 lim r ((s0, False) # coalesce s ys)" using chain_at [OF ch2 r(1)] .
      have bkr: "backs m2 0 ?h ws" "ms_prev m2 r = last_hdr 0 ?h ws"
        "backs m2 r (after r (s0, False)) (coalesce s ys)"
        using bk2 backs_append [OF r(1)] by auto
      note mg2 = merge_links [OF chr lim(1) bkr(2,3), simplified]
      note pre2 = chain_after_prefix [OF ch2 r(1) lim(1) bkr(1) mg2(1,2) coalesce_not_Nil mg2(3)]
      have "r \<noteq> 0" "\<not> ms_isAllocated m2 r" using r b by (simp_all add: blk_def)
      then have fr2: "free (q + 16) st = st\<lparr>heap_mem := snd (mergeNextMemorySpace m2 r)\<rparr>"
        using fr r by simp
      have "snd (mergeNextMemorySpace m2 r) x = m2 x"
        if "in_alloc ?h xs x \<or> in_alloc (after q (s, a)) ys x \<or> unat x < unat ?h \<or> lim \<le> unat x" for x
        using that in_alloc_append [OF r(1), of "[b]" x] in_alloc_seg [OF r(1) lim(1), of x]
          seg_span [OF r(1) lim(1)] merge_keeps_alloc [OF chr lim(1), of x] r b snoc
        by (auto simp: in_alloc_coalesce after_def)
      then show ?thesis
        using fr2 pre2 b snoc lim by (simp add: linked_def heap_ok_def freed_def)
    qed
  qed
  then show "linked (free (q + 16) st) lim (freed xs s ys)"
    "\<And>x. in_alloc ?h xs x \<or> in_alloc (after q (s, a)) ys x \<or> unat x < unat ?h \<or> lim \<le> unat x \<Longrightarrow>
      heap_mem (free (q + 16) st) x = ?m x"
    using keep2 by auto
qed

end
