(* ===== verification/Heap_Props.thy ===== *)
theory Heap_Props
  imports Heap_Correct
begin

unbundle bit_operations_syntax

text \<open>
  What the allocator guarantees its callers, and where it does not: initialisation,
  alignment, when the back links survive a call of \<open>malloc\<close>, and that writes into allocated
  payloads cannot damage the heap.
\<close>

section \<open>Alignment\<close>

lemma and_not_mask_eq: "w AND NOT (mask n) = push_bit n (drop_bit n (w :: u32))"
  by (rule bit_word_eqI) (auto simp: bit_simps)

lemma ALIGN_4BYTE_push: "ALIGN_4BYTE x = push_bit 2 (drop_bit 2 (x + 3))"
proof -
  have m4: "(- 4 :: u32) = NOT (mask 2)" by (simp add: mask_eq_exp_minus_1)
  have "ALIGN_4BYTE x = (x + 3) AND - 4" by (simp add: ALIGN_4BYTE_def)
  then show ?thesis by (simp only: m4 and_not_mask_eq)
qed

lemma unat_ALIGN_4BYTE:
  assumes "unat x + 3 < 4294967296"
  shows "unat (ALIGN_4BYTE x) = (unat x + 3) div 4 * 4"
proof -
  have x3: "unat (x + 3) = unat x + 3" using assms by (simp add: unat_add_u32)
  have "unat (drop_bit 2 (x + 3)) = (unat x + 3) div 4"
    using x3 by (simp add: drop_bit_eq_div unat_div_u32)
  then have "unat (ALIGN_4BYTE x) = take_bit 32 (push_bit 2 ((unat x + 3) div 4))"
    by (simp only: ALIGN_4BYTE_push unsigned_push_bit_eq) simp
  moreover have "4 * ((unat x + 3) div 4) < 4294967296" using assms by linarith
  ultimately show ?thesis by (simp add: push_bit_eq_mult take_bit_nat_eq_self)
qed

lemma ALIGN_4BYTE_dvd: "4 dvd unat (ALIGN_4BYTE x)"
  unfolding ALIGN_4BYTE_push unsigned_push_bit_eq
  by (simp add: push_bit_eq_mult take_bit_eq_mod dvd_mod)

lemma ALIGN_4BYTE_ge: "unat x + 3 < 4294967296 \<Longrightarrow> unat x \<le> unat (ALIGN_4BYTE x)"
  by (subst unat_ALIGN_4BYTE) auto

text \<open>All blocks but the last have sizes that keep the next header aligned.\<close>

definition aligned_blocks :: "block list \<Rightarrow> bool" where
  "aligned_blocks bs \<longleftrightarrow> list_all (\<lambda>b. 4 dvd fst b) (butlast bs)"

lemma aligned_blocks_Cons [simp]:
  "aligned_blocks [] \<longleftrightarrow> True"
  "aligned_blocks (b # bs) \<longleftrightarrow> bs = [] \<or> 4 dvd fst b \<and> aligned_blocks bs"
  by (auto simp: aligned_blocks_def)

lemma aligned_coalesce:
  "aligned_blocks ((s, False) # ys) \<Longrightarrow> aligned_blocks (coalesce s ys)"
  by (cases "(s, ys)" rule: coalesce.cases) auto

lemma aligned_carve:
  assumes "4 dvd n" "aligned_blocks ((s, False) # ys)"
  shows "aligned_blocks (carve n s ys)"
proof -
  have "4 dvd s - (n + 16)" if "4 dvd s" using assms(1) that by (simp add: dvd_diff_nat)
  then have "aligned_blocks ((s - (n + 16), False) # ys)" using assms(2) by auto
  then show ?thesis using assms aligned_coalesce by (auto simp: carve_def)
qed

lemma aligned_spec_malloc:
  "spec_malloc n bs = Some (off, bs') \<Longrightarrow> 4 dvd n \<Longrightarrow> aligned_blocks bs \<Longrightarrow>
     4 dvd off \<and> aligned_blocks bs'"
proof (induction bs arbitrary: off bs')
  case (Cons b bs)
  obtain s a where b: "b = (s, a)" by (cases b)
  show ?case
  proof (cases "\<not> a \<and> n \<le> s")
    case True
    then show ?thesis using Cons.prems b aligned_carve [of n s bs] by auto
  next
    case False
    then obtain off1 bs1 where "spec_malloc n bs = Some (off1, bs1)" "off = 16 + s + off1"
      "bs' = (s, a) # bs1" using Cons.prems b by auto
    moreover from this have "bs \<noteq> []" by auto
    ultimately show ?thesis using Cons.IH [of off1 bs1] Cons.prems b by (auto intro: dvd_add)
  qed
qed simp

lemma aligned_spec_free: "aligned_blocks bs \<Longrightarrow> aligned_blocks (spec_free off bs)"
proof (induction off bs rule: spec_free.induct)
  case (3 off s a s' a' bs)
  have tl: "aligned_blocks ((s', a') # bs)" "4 dvd s" using "3.prems" by simp_all
  have "aligned_blocks (coalesce s' bs)" using tl aligned_coalesce [of s' bs] by auto
  then have "aligned_blocks (coalesce s (coalesce s' bs))" "aligned_blocks (coalesce s ((s', a') # bs))"
    using tl aligned_coalesce by auto
  moreover have "off \<noteq> 16 \<Longrightarrow> \<not> (off = 16 + s + 16 \<and> \<not> a) \<Longrightarrow>
      aligned_blocks (spec_free (off - (16 + s)) ((s', a') # bs))" using "3.IH" tl by blast
  ultimately show ?case using tl by simp
qed auto

section \<open>Back links across \<open>malloc\<close>\<close>

text \<open>The split of a block does not update the \<open>prev\<close> field of the block behind it.\<close>

definition split_ok :: "nat \<Rightarrow> nat \<Rightarrow> block list \<Rightarrow> bool" where
  "split_ok n s ys \<longleftrightarrow> (n + 20 < s \<longrightarrow> ys = [] \<or> \<not> snd (hd ys))"

fun spec_split_ok :: "nat \<Rightarrow> block list \<Rightarrow> bool" where
  "spec_split_ok n [] \<longleftrightarrow> True"
| "spec_split_ok n ((s, a) # bs) \<longleftrightarrow>
     (if \<not> a \<and> n \<le> s then split_ok n s bs else spec_split_ok n bs)"

lemma backs_cong:
  assumes "chain m lim p bs" "lim < 4294967296"
    "\<And>x. unat p \<le> unat x \<Longrightarrow> unat x < lim \<Longrightarrow> m' x = m x"
  shows "backs m' pv p bs = backs m pv p bs"
proof
  show "backs m' pv p bs \<Longrightarrow> backs m pv p bs"
    using chain_frame [OF assms] backs_frame [of m' pv p bs lim m] assms by auto
  show "backs m pv p bs \<Longrightarrow> backs m' pv p bs" using backs_frame assms by blast
qed

lemma backs_cong_tail:
  assumes "chain m lim q (b # cs)" "lim < 4294967296"
    "\<And>x. unat q + 16 + fst b \<le> unat x \<Longrightarrow> unat x < lim \<Longrightarrow> m' x = m x"
  shows "backs m' pv (after q b) cs = backs m pv (after q b) cs"
proof (cases "cs = []")
  case False
  then have "chain m lim (after q b) cs" "unat (after q b) = unat q + 16 + fst b"
    using assms by (simp_all add: chain_Cons unat_after)
  then show ?thesis using backs_cong [of m lim "after q b" cs m' pv] assms by simp
qed simp

lemma backs_set_isAllocated:
  assumes "chain m lim q (b # cs)" "lim < 4294967296"
  shows "backs (set_isAllocated m q v) pv q (b # cs) \<longleftrightarrow> backs m pv q (b # cs)"
  using backs_cong_tail [OF assms, of "set_isAllocated m q v" q] chain_first [OF assms] assms(2)
  by (simp add: mem_simps set_outside)

lemma alloc_block_backs:
  assumes ch: "chain m lim q ((s, False) # ys)" and lim: "lim < 4294967280" and n: "unat n \<le> s"
    and bk: "backs m pv q ((s, False) # ys)"
  defines "m' \<equiv> set_isAllocated (snd (splitMemorySpace m q n)) q True"
  shows "backs m' pv q (carve (unat n) s ys) \<longleftrightarrow> split_ok (unat n) s ys"
proof -
  have lim': "lim < 4294967296" using lim by simp
  have sz: "unat (ms_size m q) = s" "unat q + 16 + s \<le> lim" using ch by (cases ys; simp add: blk_def)+
  have n20: "unat (n + 20) = unat n + 20" using n sz lim unat_add_u32 [of n 20] by simp
  let ?m7 = "snd (splitMemorySpace m q n)"
  show ?thesis
  proof (cases "unat n + 20 < s")
    case False
    then have "?m7 = m" using n20 sz by (simp add: splitMemorySpace_eq word_less_nat_alt)
    then show ?thesis
      using backs_set_isAllocated [OF ch lim', of True pv] bk False
      by (simp add: m'_def carve_def split_ok_def after_def)
  next
    case True
    let ?m6 = "split_raw m q n" and ?nx = "q + 16 + n"
    have m7: "?m7 = snd (mergeNextMemorySpace ?m6 ?nx)"
      using True n20 sz by (simp add: splitMemorySpace_eq word_less_nat_alt)
    note raw = split_raw_chain [OF ch lim' True]
    have nx: "after q (unat n, False) = ?nx" by (simp add: after_def)
    have tail: "chain ?m6 lim ?nx ((s - (unat n + 16), False) # ys)" using raw(1) by (simp add: nx)
    have tbk: "backs ?m6 q (after ?nx (s - (unat n + 16), False)) ys"
      using backs_cong_tail [OF ch lim', of ?m6 q] raw(2) bk by (simp add: raw(6))
    have below: "?m7 x = ?m6 x" if "unat x < unat ?nx" for x
      unfolding m7 using merge_keeps_alloc [OF tail lim'] that by blast
    have pq: "ms_prev ?m7 q = pv"
      using header_cong_nat(1) [of q ?m7 ?m6] below raw(4,5) bk sz lim by simp
    have eqv: "backs ?m7 pv q ((unat n, False) # coalesce (s - (unat n + 16)) ys) \<longleftrightarrow>
        split_ok (unat n) s ys"
    proof (cases "ys = [] \<or> \<not> snd (hd ys)")
      case ok: True
      then have "backs ?m7 q ?nx (coalesce (s - (unat n + 16)) ys)"
        unfolding m7 using merge_links(2) [OF tail lim' raw(3) tbk] by blast
      then show ?thesis using ok pq by (simp add: split_ok_def nx)
    next
      case bad: False
      then obtain s' zs where ys: "ys = (s', True) # zs" by (cases ys) (auto simp: prod_eq_iff)
      have "mergeNextMemorySpace ?m6 ?nx = (False, ?m6)" using merge_no(2) tail ys by blast
      then have "?m7 = ?m6" by (simp add: m7)
      moreover have "unat ?nx \<noteq> unat q" unfolding raw(5) by simp
      then have "q \<noteq> ?nx" by metis
      ultimately show ?thesis
        using tbk ys True by (simp add: split_ok_def nx)
    qed
    have ch7: "chain ?m7 lim q ((unat n, False) # coalesce (s - (unat n + 16)) ys)"
      using chain_replace_tail [OF raw(1) lim', of ?m7] merge_coalesce [OF tail lim'] below
      by (simp add: nx m7)
    show ?thesis
      using eqv backs_set_isAllocated [OF ch7 lim', of True pv] True
      by (simp add: m'_def carve_def after_def)
  qed
qed

lemma spec_split_ok_append:
  "list_all (unfit n) xs \<Longrightarrow> spec_split_ok n (xs @ ys) = spec_split_ok n ys"
  by (induction xs) (auto simp: unfit_def)

lemma malloc_links:
  assumes ln: "linked st lim bs" and ma: "malloc sz st = Some (r, st')"
    and sp: "spec_malloc (unat (ALIGN_4BYTE sz)) bs = Some (off, bs')"
  shows "linked st' lim bs' \<longleftrightarrow> spec_split_ok (unat (ALIGN_4BYTE sz)) bs"
proof -
  let ?m = "heap_mem st" and ?n = "ALIGN_4BYTE sz"
  have ok: "heap_ok st lim bs" and bk: "backs ?m 0 (head st) bs"
    using ln by (simp_all add: linked_def)
  have lim: "lim < 4294967280" "lim < 4294967296" using ok by (simp_all add: heap_ok_def)
  from ok show ?thesis
  proof (cases rule: find_free_space_chain [where n = ?n])
    case none
    then show ?thesis using sp by simp
  next
    case (found xs s ys q)
    define m' where "m' = set_isAllocated (snd (splitMemorySpace ?m q ?n)) q True"
    have ch: "chain ?m lim q ((s, False) # ys)"
      using ok found(2,3) chain_at unfolding heap_ok_def by blast
    have bks: "backs ?m 0 (head st) xs" "backs ?m (last_hdr 0 (head st) xs) q ((s, False) # ys)"
      using bk backs_append [OF found(3)] found(2) by auto
    note ab = alloc_block [OF ch lim(1) found(4), folded m'_def]
    have below: "\<And>x. unat x < unat q \<Longrightarrow> m' x = ?m x" using ab(2) by blast
    have seg': "seg m' lim (head st) xs q" using seg_frame [OF found(3) lim(2)] below by blast
    have "backs m' 0 (head st) (xs @ carve (unat ?n) s ys) \<longleftrightarrow> split_ok (unat ?n) s ys"
      using backs_append [OF seg'] backs_seg_frame [OF bks(1) found(3) lim(2) below]
        alloc_block_backs [OF ch lim(1) found(4) bks(2), folded m'_def] by blast
    moreover have "st' = st\<lparr>heap_mem := m'\<rparr>" "bs' = xs @ carve (unat ?n) s ys"
      using ma sp found by (simp_all add: malloc_def Let_def m'_def)
    moreover have "heap_ok st' lim bs'"
      using calculation seg' ab(1) lim by (auto simp: heap_ok_def chain_append)
    moreover have "spec_split_ok (unat ?n) bs \<longleftrightarrow> split_ok (unat ?n) s ys"
      using spec_split_ok_append [OF found(7)] found(2,4) by simp
    ultimately show ?thesis by (simp add: linked_def)
  qed
qed

section \<open>Initialisation and client writes\<close>

lemma init_malloc_links:
  assumes "ALIGN_4BYTE hs \<noteq> 0" "unat (ALIGN_4BYTE hs) + 16 \<le> unat he" "unat he < 4294967280"
  shows "linked (init_malloc hs he st) (unat he) [(unat he - unat (ALIGN_4BYTE hs) - 16, False)]"
    and "head (init_malloc hs he st) = ALIGN_4BYTE hs"
proof -
  let ?h = "ALIGN_4BYTE hs"
  have sz: "unat (he - ?h - 16) = unat he - unat ?h - 16" using assms by (simp add: unat_sub_u32)
  then have "unat ?h + 16 + unat (he - ?h - 16) = unat he" using assms by simp
  then show "linked (init_malloc hs he st) (unat he) [(unat he - unat ?h - 16, False)]"
    using assms sz
    by (simp add: init_malloc_def Let_def linked_def heap_ok_def blk_def mem_simps
      sizeof_memory_space_def)
qed (simp add: init_malloc_def Let_def)

text \<open>Writes into allocated payloads leave every header alone.\<close>

lemma client_write_chain:
  assumes "chain m lim p bs" "lim < 4294967296"
    "\<And>x. unat p \<le> unat x \<Longrightarrow> \<not> in_alloc p bs x \<Longrightarrow> m' x = m x"
  shows "chain m' lim p bs" "backs m' pv p bs = backs m pv p bs"
proof -
  have "chain m' lim p bs \<and> backs m' pv p bs = backs m pv p bs"
    using assms
  proof (induction bs arbitrary: p pv)
    case (Cons b bs)
    have lim: "unat p + 16 + fst b \<le> lim" using Cons.prems by (cases bs) auto
    have hdr: "m' x = m x" if "unat p \<le> unat x" "unat x < unat p + 16" for x
      using that Cons.prems in_alloc_chain [OF Cons.prems(1,2), of x] by (meson not_le)
    have "\<And>nx. blk m' p b nx = blk m p b nx" "ms_prev m' p = ms_prev m p"
      using blk_cong_nat [of p m' m] header_cong_nat(1) [of p m' m] hdr lim Cons.prems(2) by auto
    moreover have "chain m' lim (after p b) bs \<and> backs m' p (after p b) bs = backs m p (after p b) bs"
      if ne: "bs \<noteq> []"
    proof (rule Cons.IH)
      show "chain m lim (after p b) bs" using Cons.prems ne by (simp add: chain_Cons)
      fix x assume "unat (after p b) \<le> unat x" "\<not> in_alloc (after p b) bs x"
      moreover have "unat (after p b) = unat p + 16 + fst b"
        using Cons.prems ne by (simp add: chain_Cons unat_after)
      ultimately show "m' x = m x" using Cons.prems(3) [of x] by simp
    qed (use Cons.prems in simp)
    ultimately show ?case using Cons.prems by (cases "bs = []") (auto simp: chain_Cons)
  qed simp
  then show "chain m' lim p bs" "backs m' pv p bs = backs m pv p bs" by auto
qed

section \<open>Properties\<close>

text \<open>A heap right after \<open>init_malloc\<close>: the state the witnesses start from.\<close>

definition heap0 :: heap_state where
  "heap0 = init_malloc 0x20001000 0x20009000 \<lparr>heap_mem = (\<lambda>_. 0), head = 0\<rparr>"

lemma heap0_links: "linked heap0 0x20009000 [(32752, False)]" "head heap0 = 0x20001000"
proof -
  have al: "ALIGN_4BYTE 0x20001000 = 0x20001000" by (simp add: ALIGN_4BYTE_push)
  show "linked heap0 0x20009000 [(32752, False)]" "head heap0 = 0x20001000"
    using init_malloc_links(1) [where hs = "0x20001000" and he = "0x20009000"]
    by (simp_all add: heap0_def al init_malloc_links(2))
qed

lemma heap0_ok: "heap_ok heap0 0x20009000 [(32752, False)]"
  using heap0_links by (simp add: linked_def)

lemma ALIGN_64: "ALIGN_4BYTE 64 = 64"
  by (simp add: ALIGN_4BYTE_push)

text \<open>C3. \<open>malloc\<close> refines first fit on the list of blocks: on every heap it returns; it returns
  NULL and changes nothing exactly when no free block is large enough, and otherwise it
  returns the payload address of the first fitting block and leaves the heap the
  specification describes (split when the rest can hold a header and more than four bytes).\<close>

theorem malloc_refines_first_fit:
  assumes "heap_ok st lim bs"
  shows "case spec_malloc (unat (ALIGN_4BYTE sz)) bs of
      None \<Rightarrow> malloc sz st = Some (0, st)
    | Some (off, bs') \<Rightarrow> \<exists>st'. malloc sz st = Some (head st + of_nat off, st') \<and>
        head st' = head st \<and> heap_ok st' lim bs'"
  using assms by (cases rule: malloc_spec [where sz = sz]) auto

theorem malloc_refines_first_fit_witness:
  "\<exists>st'. malloc 64 heap0 = Some (0x20001010, st') \<and>
     heap_ok st' 0x20009000 [(64, True), (32672, False)]"
  using malloc_refines_first_fit [OF heap0_ok, of 64]
  by (auto simp: ALIGN_64 carve_def heap0_links)

text \<open>C9. What a successful \<open>malloc\<close> hands out: the bytes of the requested size lie inside the
  heap, belonged to no allocated block before, belong to one afterwards, and every byte of
  every block that was allocated before is still allocated and unchanged.\<close>

theorem malloc_payload_fresh:
  assumes "heap_ok st lim bs" "malloc sz st = Some (r, st')" "r \<noteq> 0"
  shows "\<exists>bs'. heap_ok st' lim bs' \<and> unat r + unat (ALIGN_4BYTE sz) \<le> lim \<and>
    (\<forall>x. unat r \<le> unat x \<and> unat x < unat r + unat (ALIGN_4BYTE sz) \<longrightarrow>
       in_alloc (head st) bs' x \<and> \<not> in_alloc (head st) bs x) \<and>
    (\<forall>x. in_alloc (head st) bs x \<longrightarrow>
       in_alloc (head st) bs' x \<and> heap_mem st' x = heap_mem st x)"
  using assms(1)
proof (cases rule: malloc_spec [where sz = sz])
  case fail
  then show ?thesis using assms by simp
next
  case (carved off bs' st2)
  have "lim < 4294967296" using assms(1) by (simp add: heap_ok_def)
  then have "unat (head st) + off < 4294967296" using carved(8) by linarith
  then have "unat (head st + of_nat off) = unat (head st) + off"
    by (intro trans [OF unat_add_u32]) simp_all
  then show ?thesis using carved assms(2) by (intro exI [of _ bs']) auto
qed

theorem malloc_payload_fresh_witness:
  "\<exists>st' bs'. malloc 64 heap0 = Some (0x20001010, st') \<and> heap_ok st' 0x20009000 bs' \<and>
     (\<forall>x. 0x20001010 \<le> unat x \<and> unat x < 0x20001050 \<longrightarrow> in_alloc 0x20001000 bs' x)"
proof -
  obtain st' where st': "malloc 64 heap0 = Some (0x20001010, st')"
    using malloc_spec [OF heap0_ok, of 64] by (auto simp: ALIGN_64 carve_def heap0_links)
  from malloc_payload_fresh [OF heap0_ok st'] show ?thesis
    using st' by (auto simp: ALIGN_64 heap0_links)
qed

text \<open>The allocated block of the first witness and its heap, for the properties of \<open>free\<close>.\<close>

definition heap1 :: heap_state where
  "heap1 = snd (the (malloc 64 heap0))"

lemma heap1_links: "malloc 64 heap0 = Some (0x20001010, heap1)"
  "linked heap1 0x20009000 [(64, True), (32672, False)]" "head heap1 = 0x20001000"
proof -
  obtain st' where st': "malloc 64 heap0 = Some (0x20001010, st')" "head st' = 0x20001000"
    using malloc_spec [OF heap0_ok, of 64] by (auto simp: ALIGN_64 carve_def heap0_links)
  then show "malloc 64 heap0 = Some (0x20001010, heap1)" "head heap1 = 0x20001000"
    by (simp_all add: heap1_def)
  then show "linked heap1 0x20009000 [(64, True), (32672, False)]"
    using malloc_links [OF heap0_links(1)] by (simp add: ALIGN_64 carve_def split_ok_def)
qed

lemma free_spec:
  assumes "linked st lim (xs @ (s, a) # ys)" "ptr = head st + of_nat (span xs + 16)"
  shows "linked (free ptr st) lim (spec_free (span xs + 16) (xs @ (s, a) # ys)) \<and>
    (\<forall>x. in_alloc (head st) (xs @ (s, False) # ys) x \<longrightarrow>
       heap_mem (free ptr st) x = heap_mem st x)"
proof -
  have "chain (heap_mem st) lim (head st) (xs @ (s, a) # ys)"
    using assms(1) by (simp add: linked_def heap_ok_def)
  then obtain q where q: "seg (heap_mem st) lim (head st) xs q" by (auto simp: chain_append)
  then have p: "ptr = q + 16" using assms(2) seg_addr by (simp add: add.assoc)
  have "in_alloc (head st) (xs @ (s, False) # ys) x \<Longrightarrow>
      in_alloc (head st) xs x \<or> in_alloc (after q (s, a)) ys x" for x
    using in_alloc_append [OF q] by (auto simp: after_def)
  then show ?thesis
    using free_links [OF assms(1) q] unfolding p spec_free_freed by blast
qed

text \<open>C4. \<open>free\<close> on a heap whose links are intact refines the specification: the block becomes
  free and merges with a free successor and a free predecessor, both kinds of links stay
  intact, and the bytes of all other allocated blocks are unchanged.\<close>

theorem free_refines_spec:
  assumes "linked st lim (xs @ (s, a) # ys)" "ptr = head st + of_nat (span xs + 16)"
  shows "linked (free ptr st) lim (spec_free (span xs + 16) (xs @ (s, a) # ys)) \<and>
    (\<forall>x. in_alloc (head st) (xs @ (s, False) # ys) x \<longrightarrow>
       heap_mem (free ptr st) x = heap_mem st x)"
  using free_spec [OF assms] .

theorem free_refines_spec_witness:
  "linked (free 0x20001010 heap1) 0x20009000 [(32752, False)]"
  using free_refines_spec [of heap1 "0x20009000" "[]" 64 True "[(32672, False)]" "0x20001010"]
  by (simp add: heap1_links)

definition no_adjacent_free :: "block list \<Rightarrow> bool" where
  "no_adjacent_free bs \<longleftrightarrow> list_all (\<lambda>(b, c). snd b \<or> snd c) (zip bs (tl bs))"

lemma no_adjacent_free_append:
  "no_adjacent_free (xs @ (s, False) # ys) \<Longrightarrow>
     (xs = [] \<or> snd (last xs)) \<and> (ys = [] \<or> snd (hd ys))"
proof (induction xs)
  case Nil
  then show ?case by (cases ys) (auto simp: no_adjacent_free_def)
next
  case (Cons b xs)
  then show ?case by (cases xs) (auto simp: no_adjacent_free_def)
qed

lemma freed_carve:
  assumes "no_adjacent_free (xs @ (s, False) # ys)" "n \<le> s" "split_ok n s ys"
  obtains k zs where "carve n s ys = (k, True) # zs" "freed xs k zs = xs @ (s, False) # ys"
proof (cases "n + 20 < s")
  case True
  then have "ys = []" using assms no_adjacent_free_append by (auto simp: split_ok_def)
  then show thesis using that True no_adjacent_free_append [OF assms(1)]
    by (simp add: carve_def freed_def)
next
  case False
  then show thesis using that no_adjacent_free_append [OF assms(1)]
    by (cases ys) (auto simp: carve_def freed_def prod_eq_iff)
qed

text \<open>C15. Round trip: on a heap without adjacent free blocks, when \<open>malloc\<close> keeps the links,
  freeing the new block at once restores exactly the list of blocks there was before.\<close>

theorem malloc_free_round_trip:
  assumes "linked st lim bs" "no_adjacent_free bs" "spec_split_ok (unat (ALIGN_4BYTE sz)) bs"
    "malloc sz st = Some (r, st')" "r \<noteq> 0"
  shows "linked (free r st') lim bs"
proof -
  let ?n = "ALIGN_4BYTE sz"
  have ok: "heap_ok st lim bs" using assms(1) by (simp add: linked_def)
  from ok show ?thesis
  proof (cases rule: find_free_space_chain [where n = ?n])
    case none
    then show ?thesis using assms by (simp add: malloc_def Let_def)
  next
    case (found xs s ys q)
    have "split_ok (unat ?n) s ys"
      using spec_split_ok_append [OF found(7)] found(2,4) assms(3) by simp
    then obtain k zs where k: "carve (unat ?n) s ys = (k, True) # zs" "freed xs k zs = bs"
      using freed_carve [of xs s ys "unat ?n"] assms(2) found(2,4) by metis
    have ln: "linked st' lim (xs @ (k, True) # zs)"
      using malloc_links [OF assms(1,4) found(6)] assms(3) k by simp
    have h: "head st' = head st" "r = q + 16"
      using assms(4) found by (auto simp: malloc_def Let_def sizeof_memory_space_def)
    have "chain (heap_mem st') lim (head st) (xs @ (k, True) # zs)"
      using ln h by (simp add: linked_def heap_ok_def)
    then obtain q' where q': "seg (heap_mem st') lim (head st) xs q'" by (auto simp: chain_append)
    then have "q' = q" using found(3) seg_addr by blast
    then show ?thesis using free_links(1) [OF ln] q' h k by simp
  qed
qed

theorem malloc_free_round_trip_witness:
  "linked (free 0x20001010 heap1) 0x20009000 [(32752, False)]"
  using malloc_free_round_trip [OF heap0_links(1) _ _ heap1_links(1)]
  by (simp add: no_adjacent_free_def ALIGN_64 split_ok_def)

text \<open>C16. The doubly linked list survives a successful \<open>malloc\<close> exactly when the call does not
  split a block that has an allocated block behind it: \<open>splitMemorySpace\<close> links the new
  remainder into the \<open>next\<close> chain but leaves the \<open>prev\<close> field of the block behind it alone.\<close>

theorem malloc_keeps_links_iff:
  assumes "linked st lim bs" "malloc sz st = Some (r, st')"
    "spec_malloc (unat (ALIGN_4BYTE sz)) bs = Some (off, bs')"
  shows "linked st' lim bs' \<longleftrightarrow> spec_split_ok (unat (ALIGN_4BYTE sz)) bs"
  using assms by (rule malloc_links)

theorem malloc_keeps_links_iff_witness:
  "linked heap1 0x20009000 [(64, True), (32672, False)] \<longleftrightarrow>
     spec_split_ok 64 [(32752, False)]"
  using malloc_keeps_links_iff [OF heap0_links(1) heap1_links(1)]
  by (simp add: ALIGN_64 carve_def)

text \<open>C21. Alignment: on a heap that starts at a multiple of four and whose blocks keep the headers
  aligned, \<open>malloc\<close> returns a multiple of four and keeps the blocks aligned, whatever size
  is asked for.\<close>

theorem malloc_aligned:
  assumes "heap_ok st lim bs" "aligned_blocks bs" "4 dvd unat (head st)"
    "malloc sz st = Some (r, st')"
  shows "4 dvd unat r \<and> (\<exists>bs'. heap_ok st' lim bs' \<and> aligned_blocks bs' \<and> 4 dvd unat (head st'))"
  using assms(1)
proof (cases rule: malloc_spec [where sz = sz])
  case fail
  then show ?thesis using assms by auto
next
  case (carved off bs' st2)
  have al: "4 dvd off" "aligned_blocks bs'"
    using aligned_spec_malloc [OF carved(2) ALIGN_4BYTE_dvd assms(2)] by simp_all
  have "unat (head st) + off < 4294967296"
    using carved(8) assms(1) unfolding heap_ok_def by linarith
  then have "unat r = unat (head st) + off"
    using carved(1) assms(4) unat_add_u32 [of "head st" "of_nat off"] by simp
  then show ?thesis using carved assms al by auto
qed

theorem malloc_aligned_witness:
  "\<exists>r st' bs'. malloc 61 heap0 = Some (r, st') \<and> r \<noteq> 0 \<and> 4 dvd unat r \<and> heap_ok st' 0x20009000 bs' \<and>
     aligned_blocks bs' \<and> 4 dvd unat (head st')"
proof -
  have al: "ALIGN_4BYTE 61 = 64" by (simp add: ALIGN_4BYTE_push)
  obtain st' where st': "malloc 61 heap0 = Some (0x20001010, st')"
    using malloc_spec [OF heap0_ok, of 61] by (auto simp: al carve_def heap0_links)
  have "aligned_blocks [(32752, False)]" "4 dvd unat (head heap0)" by (simp_all add: aligned_blocks_def heap0_links)
  from malloc_aligned [OF heap0_ok this st'] show ?thesis using st' by (intro exI [of _ "0x20001010"]) auto
qed

text \<open>C22. A request within three bytes of \<open>2 ^ 32\<close> is rounded up to zero: it is served like
  \<open>malloc(0)\<close>, with a block that may hold no byte at all, instead of being refused.\<close>

theorem malloc_huge_wraps:
  assumes "4294967293 \<le> unat sz"
  shows "malloc sz st = malloc 0 st"
proof -
  have "unat sz + 3 = 4294967296 + (unat sz - 4294967293)" using assms by simp
  moreover have small: "unat sz - 4294967293 < 3" using unat_u32_lt [of sz] by linarith
  moreover have "unat (sz + 3) = (unat sz + 3) mod 4294967296" by (simp add: unat_word_ariths)
  ultimately have "unat (sz + 3) = unat sz - 4294967293" by (simp only: mod_add_self1) simp
  then have "unat (sz + 3) < 3" using small by simp
  then have "unat (drop_bit 2 (sz + 3)) = 0" by (simp add: drop_bit_eq_div unat_div_u32)
  then have "drop_bit 2 (sz + 3) = 0" by (simp only: unat_eq_zero)
  then have "ALIGN_4BYTE sz = ALIGN_4BYTE 0" by (simp add: ALIGN_4BYTE_push)
  then show ?thesis by (simp add: malloc_def)
qed

theorem malloc_huge_wraps_witness:
  "\<exists>r st'. malloc 0xFFFFFFFF heap0 = Some (r, st') \<and> r \<noteq> 0"
proof -
  have al: "ALIGN_4BYTE 0 = 0" by (simp add: ALIGN_4BYTE_push)
  obtain st' where "malloc 0 heap0 = Some (0x20001010, st')"
    using malloc_spec [OF heap0_ok, of 0] by (auto simp: al carve_def heap0_links)
  then show ?thesis using malloc_huge_wraps [of "0xFFFFFFFF" heap0] by simp
qed

end
