(* ===== verification/Cstring.thy ===== *)
theory Cstring
  imports Prelude
begin

text \<open>
  The string functions of \<open>libc/src/string\<close>.  A \<open>char *\<close> argument is the list of the bytes
  from the pointer to the end of the object it points into; running off that end is
  undefined in C and gives \<open>None\<close>.  A returned pointer is the offset from the argument.
  The predicate \<open>cstr\<close> relates a buffer to the string it holds.
\<close>

section \<open>The functions\<close>

primrec strlen_loop :: "u8 list \<Rightarrow> u32 \<Rightarrow> u32 option" where
  "strlen_loop [] i = None"
| "strlen_loop (c # cs) i = (if c \<noteq> 0 then strlen_loop cs (i + 1) else Some i)"

definition strlen :: "u8 list \<Rightarrow> u32 option" where
  "strlen str = strlen_loop str 0"

fun strcmp :: "u8 list \<Rightarrow> u8 list \<Rightarrow> int option" where
  "strcmp (a # as) (b # bs) =
     (if a \<noteq> 0 \<and> b \<noteq> 0 \<and> a = b then strcmp as bs else Some (uint a - uint b))"
| "strcmp _ _ = None"

text \<open>Storing bytes into an array object from an index on: all of them must fit.\<close>

definition overwrite :: "u8 list \<Rightarrow> nat \<Rightarrow> u8 list \<Rightarrow> u8 list option" where
  "overwrite buf i bs =
     (if i + length bs \<le> length buf then Some (take i buf @ bs @ drop (i + length bs) buf)
      else None)"

text \<open>The scan of \<open>strncat\<close> to the end of the destination, and the characters its second loop
  copies.  The source is read before the counter is tested.\<close>

primrec find_nul :: "u8 list \<Rightarrow> nat option" where
  "find_nul [] = None"
| "find_nul (c # cs) = (if c \<noteq> 0 then map_option Suc (find_nul cs) else Some 0)"

primrec strncat_chars :: "u8 list \<Rightarrow> u32 \<Rightarrow> u8 list option" where
  "strncat_chars [] num = None"
| "strncat_chars (c # cs) num =
     (if c \<noteq> 0 \<and> 0 < num then map_option (Cons c) (strncat_chars cs (num - 1)) else Some [])"

definition strncat :: "u8 list \<Rightarrow> u8 list \<Rightarrow> u32 \<Rightarrow> u8 list option" where
  "strncat destination source num = do {
     n \<leftarrow> find_nul destination;
     cs \<leftarrow> strncat_chars source num;
     overwrite destination n (cs @ [0])
   }"

primrec strncpy_chars :: "u8 list \<Rightarrow> nat \<Rightarrow> u8 list option" where
  "strncpy_chars src 0 = Some []"
| "strncpy_chars src (Suc count) =
     (case src of
        [] \<Rightarrow> None
      | c # cs \<Rightarrow> (if c \<noteq> 0 then map_option (Cons c) (strncpy_chars cs count) else Some []))"

definition strncpy :: "u8 list \<Rightarrow> u8 list \<Rightarrow> u32 \<Rightarrow> u8 list option" where
  "strncpy dest src count = do {
     cs \<leftarrow> strncpy_chars src (unat count);
     overwrite dest 0 (cs @ replicate (unat count - length cs) 0)
   }"

text \<open>\<open>strchr\<close> as written: the loop runs while the current character \<^emph>\<open>is\<close> the terminator.\<close>

primrec strchr_loop :: "u8 list \<Rightarrow> u8 \<Rightarrow> nat \<Rightarrow> nat option option" where
  "strchr_loop [] ch i = None"
| "strchr_loop (c # cs) ch i =
     (if c = 0 then (if c = ch then Some (Some i) else strchr_loop cs ch (Suc i))
      else Some (if ch = 0 then Some i else None))"

definition strchr :: "u8 list \<Rightarrow> u32 \<Rightarrow> nat option option" where
  "strchr str c = strchr_loop str (ucast c) 0"

text \<open>\<open>strtok\<close>: the static \<open>lastToken\<close> is an offset into the buffer being split.  The skip loop
  is used twice; it stops at the terminator or where \<open>strchr\<close> finds the character.\<close>

primrec strtok_skip :: "u8 list \<Rightarrow> u8 list \<Rightarrow> nat \<Rightarrow> nat option" where
  "strtok_skip [] delim i = None"
| "strtok_skip (c # cs) delim i =
     (if c \<noteq> 0 then do {
        r \<leftarrow> strchr delim (ucast c);
        if r = None then strtok_skip cs delim (Suc i) else Some i
      } else Some i)"

definition strtok ::
  "u8 list \<Rightarrow> nat option \<Rightarrow> u8 list \<Rightarrow> nat option \<Rightarrow> (nat option \<times> u8 list \<times> nat option) option" where
  "strtok buf str delim lastToken =
     (case (case str of Some s \<Rightarrow> Some s | None \<Rightarrow> lastToken) of
        None \<Rightarrow> Some (None, buf, lastToken)
      | Some t0 \<Rightarrow>
          if length buf \<le> t0 then None
          else if str = None \<and> buf ! t0 = 0 then Some (None, buf, Some t0)
          else do {
            t1 \<leftarrow> strtok_skip (drop t0 buf) delim t0;
            if buf ! t1 = 0 then Some (None, buf, Some t1)
            else do {
              t2 \<leftarrow> strtok_skip (drop t1 buf) delim t1;
              if buf ! t2 \<noteq> 0 then Some (Some t1, buf[t2 := 0], Some (Suc t2))
              else Some (Some t1, buf, Some t2)
            }
          })"

section \<open>Strings in buffers\<close>

definition cstr :: "u8 list \<Rightarrow> u8 list \<Rightarrow> bool" where
  "cstr buf s \<longleftrightarrow> 0 \<notin> set s \<and> (\<exists>rest. buf = s @ 0 # rest)"

lemma cstr_Nil [simp]: "cstr buf [] \<longleftrightarrow> (\<exists>rest. buf = 0 # rest)"
  by (simp add: cstr_def)

lemma cstr_Cons [simp]:
  "cstr buf (c # s) \<longleftrightarrow> c \<noteq> 0 \<and> (\<exists>buf'. buf = c # buf' \<and> cstr buf' s)"
  by (auto simp: cstr_def)

lemma cstr_unique: "cstr buf s \<Longrightarrow> cstr buf t \<Longrightarrow> s = t"
proof (induction s arbitrary: buf t)
  case Nil
  then show ?case by (cases t) auto
next
  case (Cons c s)
  then show ?case by (cases t) auto
qed

lemma strlen_loop_cstr: "cstr buf s \<Longrightarrow> strlen_loop buf i = Some (i + of_nat (length s))"
  by (induction s arbitrary: buf i) (auto simp: add.assoc)

lemma strlen_cstr: "cstr buf s \<Longrightarrow> strlen buf = Some (of_nat (length s))"
  by (simp add: strlen_def strlen_loop_cstr)

lemma find_nul_cstr: "cstr buf s \<Longrightarrow> find_nul buf = Some (length s)"
  by (induction s arbitrary: buf) auto

lemma find_nul_Some: "find_nul buf = Some n \<Longrightarrow> cstr buf (take n buf) \<and> n < length buf"
  by (induction buf arbitrary: n) (auto split: if_splits)

lemma strncat_chars_cstr:
  "cstr buf s \<Longrightarrow> strncat_chars buf num = Some (take (unat num) s)"
proof (induction s arbitrary: buf num)
  case (Cons c s)
  then obtain buf' where buf: "buf = c # buf'" "cstr buf' s" "c \<noteq> 0" by auto
  show ?case
  proof (cases "0 < num")
    case True
    then have "unat num = Suc (unat (num - 1))"
      by (simp add: unat_minus_one word_gt_0 unat_gt_0)
    then show ?thesis using buf Cons.IH [of buf' "num - 1"] True by simp
  next
    case False
    then have "num = 0" by (simp add: word_gt_0)
    then show ?thesis using buf by simp
  qed
qed auto

lemma overwrite_Some:
  "i + length bs \<le> length buf \<Longrightarrow> \<exists>buf'. overwrite buf i bs = Some buf' \<and> length buf' = length buf"
  by (auto simp: overwrite_def)

lemma drop_overwrite:
  assumes "overwrite buf i bs = Some buf'" "i + length bs \<le> j"
  shows "drop j buf' = drop j buf"
proof -
  have "buf' = (take i buf @ bs) @ drop (i + length bs) buf" "length (take i buf @ bs) = i + length bs"
    using assms(1) by (auto simp: overwrite_def split: if_splits)
  then show ?thesis using assms(2) by simp
qed

lemma length_overwrite: "overwrite buf i bs = Some buf' \<Longrightarrow> length buf' = length buf"
  by (auto simp: overwrite_def split: if_splits)

text \<open>\<open>strncat\<close> appends at most \<open>num\<close> characters and terminates the result, when it fits.\<close>

lemma strncat_cstr:
  assumes "cstr dst s" "cstr src t" "length s + min (unat num) (length t) < length dst"
  shows "\<exists>dst'. strncat dst src num = Some dst' \<and> cstr dst' (s @ take (unat num) t) \<and>
    length dst' = length dst"
proof -
  have "take (length s) dst = s" using assms(1) by (auto simp: cstr_def)
  moreover have "0 \<notin> set s" "0 \<notin> set (take (unat num) t)"
    using assms(1,2) by (auto simp: cstr_def dest: in_set_takeD)
  ultimately show ?thesis
    using assms(3)
    by (auto simp: strncat_def find_nul_cstr [OF assms(1)] strncat_chars_cstr [OF assms(2)]
      overwrite_def cstr_def min.commute)
qed

lemma strncpy_chars_cstr: "cstr buf s \<Longrightarrow> strncpy_chars buf n = Some (take n s)"
proof (induction n arbitrary: buf s)
  case (Suc n)
  then show ?case by (cases s) auto
qed auto

text \<open>\<open>strncpy\<close> fills exactly \<open>count\<close> bytes: the string, cut off or padded with zeroes.\<close>

lemma strncpy_cstr:
  assumes "cstr src s" "unat count \<le> length dst"
  shows "strncpy dst src count =
    Some (take (unat count) s @ replicate (unat count - length s) 0 @ drop (unat count) dst)"
proof -
  have "length (take (unat count) s) + (unat count - length (take (unat count) s)) = unat count"
    by simp
  then show ?thesis
    using assms(2) by (simp add: strncpy_def strncpy_chars_cstr [OF assms(1)] overwrite_def
      min_def)
qed

section \<open>Comparison\<close>

text \<open>The order \<open>strcmp\<close> decides: lexicographic on the unsigned character values.\<close>

fun str_less :: "u8 list \<Rightarrow> u8 list \<Rightarrow> bool" where
  "str_less [] t \<longleftrightarrow> t \<noteq> []"
| "str_less (a # s) [] \<longleftrightarrow> False"
| "str_less (a # s) (b # t) \<longleftrightarrow> a < b \<or> (a = b \<and> str_less s t)"

lemma uint_pos: "(a :: u8) \<noteq> 0 \<Longrightarrow> 0 < uint a"
  using uint_0_iff [of a] by (simp add: less_le)

lemma strcmp_cstr:
  assumes "cstr b1 s" "cstr b2 t"
  shows "\<exists>r. strcmp b1 b2 = Some r \<and> (r = 0 \<longleftrightarrow> s = t) \<and> (r < 0 \<longleftrightarrow> str_less s t)"
  using assms
proof (induction s arbitrary: b1 b2 t)
  case Nil
  then show ?case by (cases t) (auto simp: uint_0_iff uint_pos)
next
  case (Cons a s)
  then obtain b1' where b1: "b1 = a # b1'" "cstr b1' s" "a \<noteq> 0" by auto
  show ?case
  proof (cases t)
    case Nil
    then show ?thesis using Cons.prems b1 by (auto simp: uint_0_iff not_less)
  next
    case (Cons b t')
    then obtain b2' where b2: "b2 = b # b2'" "cstr b2' t'" "b \<noteq> 0" using Cons.prems by auto
    show ?thesis
    proof (cases "a = b")
      case True
      then show ?thesis using Cons.IH [OF b1(2) b2(2)] b1 b2 Cons by auto
    next
      case False
      then show ?thesis using b1 b2 Cons by (auto simp: word_less_def simp flip: word_uint_eq_iff)
    qed
  qed
qed

lemma strcmp_eq_0_iff: "cstr b1 s \<Longrightarrow> cstr b2 t \<Longrightarrow> strcmp b1 b2 = Some 0 \<longleftrightarrow> s = t"
  using strcmp_cstr [of b1 s b2 t] by auto

section \<open>Properties\<close>

text \<open>\<open>strcmp\<close> on two strings returns, its result is zero exactly when the strings are equal
  and negative exactly when the first comes first in the order of the character codes.\<close>

lemma strcmp_correct:
  assumes "cstr b1 s" "cstr b2 t"
  shows "\<exists>r. strcmp b1 b2 = Some r \<and> (r = 0 \<longleftrightarrow> s = t) \<and> (r < 0 \<longleftrightarrow> str_less s t)"
  using assms by (rule strcmp_cstr)

lemma strcmp_correct_witness:
  "\<exists>r. strcmp [65, 66, 0, 7] [65, 67, 0] = Some r \<and> r < 0"
  using strcmp_correct [of "[65, 66, 0, 7]" "[65, 66]" "[65, 67, 0]" "[65, 67]"] by auto

text \<open>C30. \<open>strncat\<close> with a limit that respects the destination array leaves the concatenation of
  the destination string and at most \<open>num\<close> characters of the source, terminated, and stays
  within the array.\<close>

theorem strncat_correct:
  assumes "cstr dst s" "cstr src t" "length s + min (unat num) (length t) < length dst"
  shows "\<exists>dst'. strncat dst src num = Some dst' \<and> cstr dst' (s @ take (unat num) t) \<and>
    length dst' = length dst"
  using assms by (rule strncat_cstr)

theorem strncat_correct_witness:
  "\<exists>dst'. strncat [65, 0, 9, 9] [66, 67, 68, 0] 2 = Some dst' \<and> cstr dst' [65, 66, 67]"
  using strncat_correct [of "[65, 0, 9, 9]" "[65]" "[66, 67, 68, 0]" "[66, 67, 68]" 2] by auto

lemma strchr_nonempty:
  "c \<noteq> 0 \<Longrightarrow> strchr (c # cs) ch = Some (if ucast ch = (0 :: u8) then Some 0 else None)"
  by (simp add: strchr_def)

lemma ucast_u8_u32_u8 [simp]: "(ucast (ucast (c :: u8) :: u32) :: u8) = c"
  by (rule bit_word_eqI) (simp add: bit_simps)

lemma strtok_skip_cstr:
  assumes "d \<noteq> 0"
  shows "cstr buf s \<Longrightarrow> strtok_skip buf (d # ds) i = Some (i + length s)"
proof (induction s arbitrary: buf i)
  case (Cons c s)
  then obtain buf' where "buf = c # buf'" "cstr buf' s" "c \<noteq> 0" by auto
  then show ?case using Cons.IH [of buf' "Suc i"] assms by (simp add: strchr_nonempty)
qed auto

text \<open>C31. \<open>strchr\<close> does not search: on every non-empty string it returns NULL for every character
  other than the terminator, in particular for characters the string contains, and for the
  terminator it returns the start of the string.  Its loop condition is inverted.\<close>

theorem strchr_does_not_search:
  assumes "cstr buf s" "s \<noteq> []"
  shows "strchr buf c = Some (if ucast c = (0 :: u8) then Some 0 else None)"
proof -
  obtain c0 s' where "s = c0 # s'" using assms(2) by (cases s) auto
  then show ?thesis using assms(1) strchr_nonempty by auto
qed

theorem strchr_does_not_search_witness: "strchr [65, 66, 0] 65 = Some None"
  using strchr_does_not_search [of "[65, 66, 0]" "[65, 66]" 65] by simp

text \<open>\<open>strtok\<close> finds no token in any string, whatever the (non-empty) set of delimiters: it
  walks to the terminator and returns NULL without touching the buffer.\<close>

lemma strtok_never_finds_token:
  assumes "cstr (drop p buf) s" "p < length buf" "cstr delim ds" "ds \<noteq> []"
  shows "strtok buf (Some p) delim lastToken = Some (None, buf, Some (p + length s))"
proof -
  obtain d ds' dr where "delim = d # dr" "d \<noteq> 0" using assms(3,4) by (cases ds) auto
  moreover have "buf ! (p + length s) = 0"
    using assms(1,2) nth_drop [of p buf "length s"] by (auto simp: cstr_def simp del: nth_drop)
  ultimately show ?thesis
    using assms(1,2) by (simp add: strtok_def strtok_skip_cstr)
qed

lemma strtok_never_finds_token_witness:
  "strtok [65, 44, 66, 0] (Some 0) [44, 0] None = Some (None, [65, 44, 66, 0], Some 3)"
  using strtok_never_finds_token [of 0 "[65, 44, 66, 0]" "[65, 44, 66]" "[44, 0]" "[44]" None]
  by simp

end
