(* ===== verification/Fat_Volume.thy ===== *)
theory Fat_Volume
  imports Memory Cstring
begin

unbundle bit_operations_syntax

text \<open>
  The volume layer of \<open>src/src/driver/fs/FAT32.c\<close>: the data types of the driver and of
  \<open>FAT32.h\<close>, the sector transfers, the partition table and boot sector parsers, the walk
  along the file allocation table and the map from clusters to sectors.

  The driver reaches the disk only through three functions of \<open>SD.c\<close>.  They are the fields of
  a record \<open>blockdev\<close> that every definition takes as its first argument; \<open>'w\<close> is the state of
  the device.  A read yields the bytes it stored into the buffer, or \<open>None\<close> when the C
  function returns false (it then has stored nothing); \<open>None\<close> for the whole call means that
  it does not return.
\<close>

section \<open>Data\<close>

record 'w blockdev =
  dev_read :: "u32 \<Rightarrow> 'w \<Rightarrow> (u8 list option \<times> 'w) option"
  dev_read_partial :: "u32 \<Rightarrow> u16 \<Rightarrow> u16 \<Rightarrow> 'w \<Rightarrow> (u8 list option \<times> 'w) option"
  dev_write :: "u32 \<Rightarrow> u8 list \<Rightarrow> 'w \<Rightarrow> (bool \<times> 'w) option"

record fat32_volume_info_t =
  volume_start_lba :: u32
  bytes_per_sector :: u16
  sectors_per_cluster :: u8
  reserved_sector_count :: u16
  num_fats :: u8
  fat_size_sectors :: u32
  root_dir_cluster :: u32
  total_sectors :: u32
  total_clusters :: u32
  first_fat_lba :: u32
  data_start_lba :: u32
  is_initialized :: bool
  fsinfo_sector_lba :: u16
  backup_boot_sector_lba :: u16
  bytes_per_cluster :: u32

record file_handle_t =
  cluster_start :: u32
  fh_current_cluster :: u32
  current_offset :: u32
  fh_file_size :: u32
  current_file_pos :: u32
  is_free :: bool
  mode :: u8

text \<open>The error codes.  \<open>getNextCluster\<close> also returns the marker of a bad cluster through the
  enumeration type: \<open>FAT_CODE\<close> stands for a value that is none of the enumerators.\<close>

datatype fat_error_t =
    FAT_SUCCESS
  | FAT_ERROR_READ_FAIL
  | FAT_ERROR_INVALID_CLUSTER
  | FAT_ERROR_BAD_FAT_ENTRY
  | FAT_ERROR_END_OF_CHAIN
  | FAT_ERROR_NOT_INITIALIZED
  | FAT_ERROR_NO_MORE_ENTRIES
  | FAT_ERROR_FILE_NOT_FOUND
  | FAT_CODE u32

text \<open>The state of the file system: the two globals of \<open>FAT32.c\<close>, the memory its callers'
  buffers live in, and the device.\<close>

record 'w fs =
  g_fat32_volume_info :: fat32_volume_info_t
  open_file_handles :: "file_handle_t list"
  ram :: mem
  sd :: 'w

definition MAX_OPEN_FILES :: nat where
  "MAX_OPEN_FILES = 16"

definition SD_BLOCK_SIZE :: nat where
  "SD_BLOCK_SIZE = 512"

definition FAT32_EOC_MARKER_START :: u32 where
  "FAT32_EOC_MARKER_START = 0x0FFFFFF8"

definition FAT32_BAD_CLUSTER :: u32 where
  "FAT32_BAD_CLUSTER = 0x0FFFFFF7"

definition FAT32_LAST_CLUSTER_VALID :: u32 where
  "FAT32_LAST_CLUSTER_VALID = 0x0FFFFFFF"

section \<open>Sector transfers\<close>

text \<open>The loops over \<open>i\<close> of \<open>read_sectors\<close> and \<open>write_sectors\<close>; the last argument counts the
  sectors left.\<close>

fun read_sectors_loop ::
  "'w blockdev \<Rightarrow> u32 \<Rightarrow> u32 \<Rightarrow> u32 \<Rightarrow> nat \<Rightarrow> 'w fs \<Rightarrow> (bool \<times> 'w fs) option" where
  "read_sectors_loop dev lba buffer i 0 s = Some (True, s)"
| "read_sectors_loop dev lba buffer i (Suc n) s = do {
     (r, w) \<leftarrow> dev_read dev (lba + i) (sd s);
     case r of
       None \<Rightarrow> Some (False, s\<lparr>sd := w\<rparr>)
     | Some bs \<Rightarrow> read_sectors_loop dev lba buffer (i + 1) n
         (s\<lparr>sd := w, ram := store_bytes (ram s) (buffer + i * 512) bs\<rparr>)
   }"

definition read_sectors ::
  "'w blockdev \<Rightarrow> u32 \<Rightarrow> u32 \<Rightarrow> u32 \<Rightarrow> 'w fs \<Rightarrow> (bool \<times> 'w fs) option" where
  "read_sectors dev lba count buffer s = read_sectors_loop dev lba buffer 0 (unat count) s"

fun write_sectors_loop ::
  "'w blockdev \<Rightarrow> u32 \<Rightarrow> u32 \<Rightarrow> u32 \<Rightarrow> nat \<Rightarrow> 'w fs \<Rightarrow> (bool \<times> 'w fs) option" where
  "write_sectors_loop dev lba buffer i 0 s = Some (True, s)"
| "write_sectors_loop dev lba buffer i (Suc n) s = do {
     (r, w) \<leftarrow> dev_write dev (lba + i) (bytes_at (ram s) (buffer + i * 512) SD_BLOCK_SIZE) (sd s);
     if \<not> r then Some (False, s\<lparr>sd := w\<rparr>)
     else write_sectors_loop dev lba buffer (i + 1) n (s\<lparr>sd := w\<rparr>)
   }"

definition write_sectors ::
  "'w blockdev \<Rightarrow> u32 \<Rightarrow> u32 \<Rightarrow> u32 \<Rightarrow> 'w fs \<Rightarrow> (bool \<times> 'w fs) option" where
  "write_sectors dev lba count buffer s = write_sectors_loop dev lba buffer 0 (unat count) s"

text \<open>\<open>min\<close> takes and returns \<open>int\<close>: its unsigned arguments are compared as signed numbers.\<close>

definition min_int :: "u32 \<Rightarrow> u32 \<Rightarrow> u32" where
  "min_int a b = (if sint a < sint b then a else b)"

section \<open>Mounting\<close>

definition parseMBR :: "'w blockdev \<Rightarrow> 'w fs \<Rightarrow> (bool \<times> 'w fs) option" where
  "parseMBR dev s = do {
     (r, w) \<leftarrow> dev_read_partial dev 0 446 66 (sd s);
     let s = s\<lparr>sd := w\<rparr>;
     case r of
       None \<Rightarrow> Some (False, s)
     | Some mbr_buffer \<Rightarrow>
         if read_le16 ((!) mbr_buffer) 64 \<noteq> 0xAA55 then Some (False, s)
         else
           (case find (\<lambda>offset. mbr_buffer ! unat offset AND 0x80 \<noteq> 0 \<and>
                    (mbr_buffer ! unat (offset + 4) = 0x0B \<or> mbr_buffer ! unat (offset + 4) = 0x0C))
                  (map (\<lambda>i :: u16. i * 16) [0, 1, 2, 3]) of
              None \<Rightarrow> Some (False, s)
            | Some offset \<Rightarrow>
                Some (True, s\<lparr>g_fat32_volume_info := (g_fat32_volume_info s)
                  \<lparr>total_sectors := read_le32 ((!) mbr_buffer) (offset + 12),
                   volume_start_lba := read_le32 ((!) mbr_buffer) (offset + 8)\<rparr>\<rparr>))
   }"

text \<open>\<open>bpb_fields v bpb_data\<close> is the assignment sequence of \<open>parseBPB\<close> up to
  \<open>bytes_per_cluster\<close>; the division that follows is undefined for zero sectors per cluster.\<close>

definition bpb_fields :: "fat32_volume_info_t \<Rightarrow> u8 list \<Rightarrow> fat32_volume_info_t" where
  "bpb_fields v bpb_data =
     (let v1 = v\<lparr>bytes_per_sector := read_le16 ((!) bpb_data) 0,
                 sectors_per_cluster := bpb_data ! 2,
                 reserved_sector_count := read_le16 ((!) bpb_data) 3,
                 num_fats := bpb_data ! 5,
                 fat_size_sectors := read_le32 ((!) bpb_data) 25,
                 root_dir_cluster := read_le32 ((!) bpb_data) 33,
                 fsinfo_sector_lba := read_le16 ((!) bpb_data) 37,
                 backup_boot_sector_lba := read_le16 ((!) bpb_data) 39\<rparr>;
          v2 = v1\<lparr>first_fat_lba := volume_start_lba v1 + ucast (reserved_sector_count v1)\<rparr>;
          v3 = v2\<lparr>data_start_lba := first_fat_lba v2 + ucast (num_fats v2) * fat_size_sectors v2\<rparr>
      in v3\<lparr>bytes_per_cluster := ucast (sectors_per_cluster v3) * ucast (bytes_per_sector v3)\<rparr>)"

definition parseBPB :: "'w blockdev \<Rightarrow> 'w fs \<Rightarrow> (bool \<times> 'w fs) option" where
  "parseBPB dev s = do {
     (r, w) \<leftarrow> dev_read_partial dev (volume_start_lba (g_fat32_volume_info s)) 0x0B 41 (sd s);
     let s = s\<lparr>sd := w\<rparr>;
     case r of
       None \<Rightarrow> Some (False, s)
     | Some bpb_data \<Rightarrow>
         let v = bpb_fields (g_fat32_volume_info s) bpb_data;
             data_sectors = total_sectors v -
               (ucast (reserved_sector_count v) + ucast (num_fats v) * fat_size_sectors v)
         in if sectors_per_cluster v = 0 then None
            else Some (True, s\<lparr>g_fat32_volume_info :=
              v\<lparr>total_clusters := data_sectors div ucast (sectors_per_cluster v),
                is_initialized := True\<rparr>\<rparr>)
   }"

definition fat32_init :: "'w blockdev \<Rightarrow> 'w fs \<Rightarrow> (bool \<times> 'w fs) option" where
  "fat32_init dev s = do {
     (mbr, s) \<leftarrow> parseMBR dev s;
     if \<not> mbr then Some (False, s)
     else do {
       (bpb, s) \<leftarrow> parseBPB dev s;
       if \<not> bpb then Some (False, s)
       else Some (True, s\<lparr>open_file_handles :=
         map (\<lambda>h. h\<lparr>is_free := True\<rparr>) (open_file_handles s)\<rparr>)
     }
   }"

section \<open>Clusters\<close>

text \<open>The result carries the value stored through \<open>next_cluster_out\<close>, when one is stored.\<close>

definition getNextCluster ::
  "'w blockdev \<Rightarrow> u32 \<Rightarrow> 'w fs \<Rightarrow> ((fat_error_t \<times> u32 option) \<times> 'w fs) option" where
  "getNextCluster dev current_cluster s =
     (let v = g_fat32_volume_info s in
      if \<not> is_initialized v then Some ((FAT_ERROR_NOT_INITIALIZED, None), s)
      else if current_cluster < 2 \<or> total_clusters v + 2 \<le> current_cluster then
        Some ((FAT_ERROR_INVALID_CLUSTER, None), s)
      else if bytes_per_sector v = 0 then None
      else
        let fat_entry_offset = current_cluster * 4;
            fat_sector_offset = fat_entry_offset div ucast (bytes_per_sector v);
            fat_byte_in_sector_offset = ucast (fat_entry_offset mod ucast (bytes_per_sector v));
            fat_sector_lba = first_fat_lba v + fat_sector_offset
        in do {
          (r, w) \<leftarrow> dev_read_partial dev fat_sector_lba fat_byte_in_sector_offset 4 (sd s);
          let s = s\<lparr>sd := w\<rparr>;
          case r of
            None \<Rightarrow> Some ((FAT_ERROR_READ_FAIL, None), s)
          | Some fat_entry_buffer \<Rightarrow>
              let fat_entry_value = read_le32 ((!) fat_entry_buffer) 0 AND 0x0FFFFFFF
              in if FAT32_EOC_MARKER_START \<le> fat_entry_value \<and>
                    fat_entry_value \<le> FAT32_LAST_CLUSTER_VALID
                 then Some ((FAT_ERROR_END_OF_CHAIN, Some 0), s)
                 else if fat_entry_value = FAT32_BAD_CLUSTER
                 then Some ((FAT_CODE FAT32_BAD_CLUSTER, Some 0), s)
                 else if fat_entry_value = 0 then Some ((FAT_ERROR_INVALID_CLUSTER, Some 0), s)
                 else Some ((FAT_SUCCESS, Some fat_entry_value), s)
        })"

definition fatClusterToLba :: "fat32_volume_info_t \<Rightarrow> u32 \<Rightarrow> u32" where
  "fatClusterToLba v cluster =
     (if cluster < 2 then 0
      else data_start_lba v + (cluster - 2) * ucast (sectors_per_cluster v))"

definition fat_read_cluster ::
  "'w blockdev \<Rightarrow> u32 \<Rightarrow> u32 \<Rightarrow> 'w fs \<Rightarrow> (fat_error_t \<times> 'w fs) option" where
  "fat_read_cluster dev cluster buffer s =
     (let lba = fatClusterToLba (g_fat32_volume_info s) cluster in
      if lba = 0 then Some (FAT_ERROR_INVALID_CLUSTER, s)
      else do {
        (r, s) \<leftarrow> read_sectors dev lba (ucast (sectors_per_cluster (g_fat32_volume_info s))) buffer s;
        if \<not> r then Some (FAT_ERROR_READ_FAIL, s) else Some (FAT_SUCCESS, s)
      })"

end
