(* ===== verification/Fat_Entry.thy ===== *)
theory Fat_Entry
  imports Fat_Volume
begin

unbundle bit_operations_syntax

text \<open>
  The directory entries of \<open>src/src/driver/fs/FAT32.c\<close>: the two packed structures and the union of them.  An entry is
  its 32 bytes, the member \<open>raw\<close> of the union; the members \<open>sfn\<close> and \<open>lfn\<close> are the views \<open>entry_sfn\<close> and \<open>entry_lfn\<close>.

  \<open>sfn_bytes\<close> and \<open>lfn_bytes\<close> lay the fields out in the order of their declarations, without gaps and with the low byte
  of a number first.
\<close>

section \<open>The structures\<close>

record fat_sfn_dir_entry_t =
  DIR_Name :: "u8 list"
  DIR_Attr :: u8
  DIR_NTRes :: u8
  DIR_CrtTimeTenth :: u8
  DIR_CrtTime :: u16
  DIR_CrtDate :: u16
  DIR_LstAccDate :: u16
  DIR_FstClusHI :: u16
  DIR_WrtTime :: u16
  DIR_WrtDate :: u16
  DIR_FstClusLO :: u16
  DIR_FileSize :: u32

record fat_lfn_dir_entry_t =
  LDIR_Ord :: u8
  LDIR_Name1 :: "u16 list"
  LDIR_Attr :: u8
  LDIR_Type :: u8
  LDIR_Chksum :: u8
  LDIR_Name2 :: "u16 list"
  LDIR_FstClusLO :: u16
  LDIR_Name3 :: "u16 list"

text \<open>The bytes of an array of \<open>uint16_t\<close>, and the \<open>uint16_t\<close> view of a byte array.\<close>

definition unit_bytes :: "u16 list \<Rightarrow> u8 list" where
  "unit_bytes us = concat (map le_bytes16 us)"

fun lfn_units :: "u8 list \<Rightarrow> u16 list" where
  "lfn_units (lo # hi # bs) = (ucast lo OR push_bit 8 (ucast hi)) # lfn_units bs"
| "lfn_units _ = []"

definition sfn_bytes :: "fat_sfn_dir_entry_t \<Rightarrow> u8 list" where
  "sfn_bytes e = DIR_Name e @ [DIR_Attr e, DIR_NTRes e, DIR_CrtTimeTenth e] @ le_bytes16 (DIR_CrtTime e) @
     le_bytes16 (DIR_CrtDate e) @ le_bytes16 (DIR_LstAccDate e) @ le_bytes16 (DIR_FstClusHI e) @
     le_bytes16 (DIR_WrtTime e) @ le_bytes16 (DIR_WrtDate e) @ le_bytes16 (DIR_FstClusLO e) @ le_bytes32 (DIR_FileSize e)"

definition lfn_bytes :: "fat_lfn_dir_entry_t \<Rightarrow> u8 list" where
  "lfn_bytes e = [LDIR_Ord e] @ unit_bytes (LDIR_Name1 e) @ [LDIR_Attr e, LDIR_Type e, LDIR_Chksum e] @
     unit_bytes (LDIR_Name2 e) @ le_bytes16 (LDIR_FstClusLO e) @ unit_bytes (LDIR_Name3 e)"

section \<open>The union\<close>

type_synonym fat_dir_entry_t = "u8 list"

definition entry_sfn :: "fat_dir_entry_t \<Rightarrow> fat_sfn_dir_entry_t" where
  "entry_sfn raw = \<lparr>DIR_Name = take 11 raw, DIR_Attr = raw ! 11, DIR_NTRes = raw ! 12, DIR_CrtTimeTenth = raw ! 13,
     DIR_CrtTime = read_le16 ((!) raw) 14, DIR_CrtDate = read_le16 ((!) raw) 16, DIR_LstAccDate = read_le16 ((!) raw) 18,
     DIR_FstClusHI = read_le16 ((!) raw) 20, DIR_WrtTime = read_le16 ((!) raw) 22, DIR_WrtDate = read_le16 ((!) raw) 24,
     DIR_FstClusLO = read_le16 ((!) raw) 26, DIR_FileSize = read_le32 ((!) raw) 28\<rparr>"

definition entry_lfn :: "fat_dir_entry_t \<Rightarrow> fat_lfn_dir_entry_t" where
  "entry_lfn raw = \<lparr>LDIR_Ord = raw ! 0, LDIR_Name1 = lfn_units (take 10 (drop 1 raw)), LDIR_Attr = raw ! 11,
     LDIR_Type = raw ! 12, LDIR_Chksum = raw ! 13, LDIR_Name2 = lfn_units (take 12 (drop 14 raw)),
     LDIR_FstClusLO = read_le16 ((!) raw) 26, LDIR_Name3 = lfn_units (take 4 (drop 28 raw))\<rparr>"

lemma entry_fields [simp]:
  "DIR_Name (entry_sfn raw) = take 11 raw" "DIR_Attr (entry_sfn raw) = raw ! 11" "LDIR_Ord (entry_lfn raw) = raw ! 0"
  "LDIR_Chksum (entry_lfn raw) = raw ! 13"
  by (simp_all add: entry_sfn_def entry_lfn_def)

section \<open>The layout\<close>

lemma length_unit_bytes [simp]: "length (unit_bytes us) = 2 * length us"
  by (induction us) (simp_all add: unit_bytes_def)

lemma unit_join:
  "(ucast (ucast u :: u8) :: u16) OR push_bit 8 (ucast (ucast (drop_bit 8 u) :: u8)) = u" for u :: u16
  by (rule bit_word_eqI) (auto simp: bit_simps)

lemma lfn_units_bytes [simp]: "lfn_units (unit_bytes us) = us"
  by (induction us) (simp_all add: unit_bytes_def le_bytes16_def unit_join)

lemma le_bytes16_join: "le_bytes16 (ucast lo OR push_bit 8 (ucast hi)) = [lo, hi]" for lo hi :: u8
  by (auto simp: le_bytes16_def bit_simps intro!: bit_word_eqI dest: bit_imp_le_length)

lemma unit_bytes_units: "even (length bs) \<Longrightarrow> unit_bytes (lfn_units bs) = bs"
  by (induction bs rule: lfn_units.induct) (auto simp: unit_bytes_def le_bytes16_join)

text \<open>Slices as explicit lists.\<close>

lemma slice_nth: "i + n \<le> length xs \<Longrightarrow> take n (drop i xs) = map ((!) xs) [i..<i + n]"
  by (rule nth_equalityI) auto

lemma sfn_view:
  assumes "length raw = 32"
  shows "sfn_bytes (entry_sfn raw) = raw"
proof -
  have "sfn_bytes (entry_sfn raw) = map ((!) raw) [0..<32]"
    using assms slice_nth [of 0 11 raw] upt_add_eq_append [of 0 11 21]
    by (simp add: sfn_bytes_def entry_sfn_def le_bytes16_read_le16 le_bytes32_read_le32)
  then show ?thesis using assms by (simp add: map_nth [of raw, unfolded assms])
qed

lemma lfn_view:
  assumes "length raw = 32"
  shows "lfn_bytes (entry_lfn raw) = raw"
proof -
  have "[0..<32] = [0] @ [1..<11] @ [11..<14] @ [14..<26] @ [26..<28] @ [28..<32 :: nat]" by code_simp
  then have "map ((!) raw) [0..<32] = [raw ! 0] @ take 10 (drop 1 raw) @ [raw ! 11, raw ! 12, raw ! 13] @
      take 12 (drop 14 raw) @ [raw ! 26, raw ! 27] @ take 4 (drop 28 raw)"
    using assms slice_nth [of 1 10 raw] slice_nth [of 14 12 raw] slice_nth [of 28 4 raw] by simp
  also have "\<dots> = lfn_bytes (entry_lfn raw)"
    using assms by (simp add: lfn_bytes_def entry_lfn_def le_bytes16_read_le16 unit_bytes_units)
  finally show ?thesis using assms by (simp add: map_nth [of raw, unfolded assms])
qed

lemma sfn_of_bytes:
  assumes "length (DIR_Name e) = 11"
  shows "length (sfn_bytes e) = 32" "entry_sfn (sfn_bytes e) = e"
proof -
  show "length (sfn_bytes e) = 32" using assms by (simp add: sfn_bytes_def)
  show "entry_sfn (sfn_bytes e) = e"
    using assms by (cases e) (simp add: sfn_bytes_def entry_sfn_def nth_append read_le16_def read_le32_def Let_def
      le_bytes16_def le_bytes32_def le_join16 le_join32)
qed

lemma lfn_of_bytes:
  assumes "length (LDIR_Name1 e) = 5" "length (LDIR_Name2 e) = 6" "length (LDIR_Name3 e) = 2"
  shows "length (lfn_bytes e) = 32" "entry_lfn (lfn_bytes e) = e"
proof -
  show "length (lfn_bytes e) = 32" using assms by (simp add: lfn_bytes_def)
  show "entry_lfn (lfn_bytes e) = e"
    using assms by (cases e) (simp add: lfn_bytes_def entry_lfn_def nth_append read_le16_def Let_def
      le_bytes16_def le_join16)
qed

end
