(* ===== verification/Fat_Dir.thy ===== *)
theory Fat_Dir
  imports Fat_Entry
begin

unbundle bit_operations_syntax

text \<open>
  The directory layer of \<open>src/src/driver/fs/FAT32.c\<close>: short and long names, the directory
  iterator and \<open>fat_read_next_dir_entry\<close>.  The \<open>for (;;)\<close> loop of the latter is
  \<open>dir_loop\<close>, one round of it is \<open>dir_step\<close>; the loop is a partial function because a cyclic
  cluster chain keeps it going.

  The locals \<open>lfn_buffer\<close> and \<open>lfn_parts_found\<close> of that loop are never initialised.  What the
  stack holds when the function is entered is the argument \<open>lfn_locals\<close>; the two variables keep
  their storage from one round to the next.
\<close>

section \<open>Names\<close>

definition FAT_ATTR_VOLUME_ID :: u8 where "FAT_ATTR_VOLUME_ID = 0x08"

definition FAT_ATTR_DIRECTORY :: u8 where "FAT_ATTR_DIRECTORY = 0x10"

definition FAT_ATTR_LFN :: u8 where "FAT_ATTR_LFN = 0x01 OR 0x02 OR 0x04 OR FAT_ATTR_VOLUME_ID"

definition MAX_LFN_PARTS :: nat where "MAX_LFN_PARTS = 20"

definition MAX_UTF8_CHARS_PER_LFN_PART :: nat where "MAX_UTF8_CHARS_PER_LFN_PART = 13 * 3 + 1"

definition MAX_FILENAME_LEN :: nat where "MAX_FILENAME_LEN = 256"

text \<open>The characters \<open>fat_sfn_to_string\<close> stores from the start of \<open>out_name\<close> on.\<close>

definition fat_sfn_to_string :: "u8 list \<Rightarrow> u8 list" where
  "fat_sfn_to_string sfn_name =
     takeWhile (\<lambda>c. c \<noteq> 0x20) (take 8 sfn_name) @
     (if sfn_name ! 8 \<noteq> 0x20
      then 0x2E # takeWhile (\<lambda>c. c \<noteq> 0x20) (take 3 (drop 8 sfn_name)) else []) @ [0]"

definition fat_sfn_checksum :: "u8 list \<Rightarrow> u8" where
  "fat_sfn_checksum sfn_name =
     foldl (\<lambda>sum c. (if sum AND 1 \<noteq> 0 then 0x80 else 0) + drop_bit 1 sum + c) 0 (take 11 sfn_name)"

text \<open>The characters the loop of \<open>fat_lfn_to_utf8\<close> stores from \<open>out_buffer[current_out_len]\<close> on.\<close>

fun lfn_chars :: "u16 list \<Rightarrow> u32 \<Rightarrow> u32 \<Rightarrow> u8 list" where
  "lfn_chars [] max_len current_out_len = []"
| "lfn_chars (wc # ws) max_len current_out_len =
     (if wc = 0x0000 \<or> wc = 0xFFFF then []
      else if current_out_len < max_len - 1
      then (if wc < 0x80 then ucast wc else 0x3F) # lfn_chars ws max_len (current_out_len + 1)
      else [])"

text \<open>\<open>out_buffer\<close> points to index \<open>base\<close> of the array \<open>buf\<close>.\<close>

definition fat_lfn_to_utf8 ::
  "u8 list \<Rightarrow> u8 list \<Rightarrow> nat \<Rightarrow> u32 \<Rightarrow> u32 \<Rightarrow> (u32 \<times> u8 list) option" where
  "fat_lfn_to_utf8 utf16_name_part buf base max_len current_out_len =
     (let cs = lfn_chars (lfn_units utf16_name_part) max_len current_out_len in do {
        buf' \<leftarrow> overwrite buf (base + unat current_out_len) (cs @ [0]);
        Some (of_nat (length cs), buf')
      })"

section \<open>The iterator\<close>

record fat_directory_iterator_t =
  it_current_cluster :: u32
  current_sector_in_cluster :: u32
  current_entry_in_sector :: u16
  sector_buffer :: "u8 list"
  sector_buffer_valid :: bool
  lfn_checksum :: u8

record fat_file_info_t =
  filename :: "u8 list"
  first_cluster :: u32
  fi_file_size :: u32
  attributes :: u8
  is_directory :: bool

record lfn_locals =
  lfn_buffer :: "u8 list"
  lfn_parts_found :: u8

record 'w dir_state =
  d_iter :: fat_directory_iterator_t
  d_info :: fat_file_info_t
  d_lfn :: lfn_locals
  d_fs :: "'w fs"

text \<open>A pointer argument that the code compares with NULL is an option.\<close>

definition fat_init_root_dir_iterator ::
  "fat32_volume_info_t \<Rightarrow> fat_directory_iterator_t option \<Rightarrow> u32 \<Rightarrow>
    fat_error_t \<times> fat_directory_iterator_t option" where
  "fat_init_root_dir_iterator v iter start_cluster =
     (if \<not> is_initialized v then (FAT_ERROR_NOT_INITIALIZED, iter)
      else if iter = None then (FAT_ERROR_BAD_FAT_ENTRY, iter)
      else (FAT_SUCCESS, Some \<lparr>it_current_cluster = start_cluster,
        current_sector_in_cluster = - 1, current_entry_in_sector = 0,
        sector_buffer = replicate SD_BLOCK_SIZE 0, sector_buffer_valid = False,
        lfn_checksum = 0\<rparr>))"

text \<open>Loading the next sector when the buffered one is used up.  \<open>Some e\<close> as the first
  component: the function returns \<open>e\<close>.\<close>

definition read_dir_sector :: "'w blockdev \<Rightarrow> 'w dir_state \<Rightarrow> (fat_error_t option \<times> 'w dir_state) option" where
  "read_dir_sector dev st =
     (let it = d_iter st;
          sector_lba = fatClusterToLba (g_fat32_volume_info (d_fs st)) (it_current_cluster it) +
            current_sector_in_cluster it
      in do {
        (r, w) \<leftarrow> dev_read dev sector_lba (sd (d_fs st));
        let st = st\<lparr>d_fs := (d_fs st)\<lparr>sd := w\<rparr>\<rparr>;
        case r of
          None \<Rightarrow> Some (Some FAT_ERROR_READ_FAIL, st)
        | Some bs \<Rightarrow> Some (None, st\<lparr>d_iter := it\<lparr>sector_buffer := bs, sector_buffer_valid := True\<rparr>\<rparr>)
      })"

definition next_dir_sector :: "'w blockdev \<Rightarrow> 'w dir_state \<Rightarrow> (fat_error_t option \<times> 'w dir_state) option" where
  "next_dir_sector dev st =
     (let v = g_fat32_volume_info (d_fs st);
          it = (d_iter st)\<lparr>current_sector_in_cluster := current_sector_in_cluster (d_iter st) + 1,
            current_entry_in_sector := 0\<rparr>
      in
      if ucast (sectors_per_cluster v) \<le> current_sector_in_cluster it then do {
        ((fat_res, nxt), s) \<leftarrow> getNextCluster dev (it_current_cluster it) (d_fs st);
        case nxt of
          Some next_cluster \<Rightarrow>
            if fat_res \<noteq> FAT_SUCCESS then Some (Some fat_res, st\<lparr>d_iter := it, d_fs := s\<rparr>)
            else read_dir_sector dev (st\<lparr>d_fs := s, d_iter :=
              it\<lparr>it_current_cluster := next_cluster, current_sector_in_cluster := 0\<rparr>\<rparr>)
        | None \<Rightarrow> Some (Some fat_res, st\<lparr>d_iter := it, d_fs := s\<rparr>)
      }
      else read_dir_sector dev (st\<lparr>d_iter := it\<rparr>))"

definition load_dir_sector :: "'w blockdev \<Rightarrow> 'w dir_state \<Rightarrow> (fat_error_t option \<times> 'w dir_state) option" where
  "load_dir_sector dev st =
     (let entries_per_sector = ucast (bytes_per_sector (g_fat32_volume_info (d_fs st)) div 32) :: u32;
          it = d_iter st
      in if \<not> sector_buffer_valid it \<or> entries_per_sector \<le> ucast (current_entry_in_sector it)
         then next_dir_sector dev st else Some (None, st))"

section \<open>Entries\<close>

text \<open>A long-name entry changes the checksum the iterator remembers and the two locals.\<close>

definition process_lfn :: "fat_dir_entry_t \<Rightarrow> u8 \<Rightarrow> lfn_locals \<Rightarrow> (u8 \<times> lfn_locals) option" where
  "process_lfn entry checksum lfn =
     (let lfn_entry = entry_lfn entry;
          order_flags = LDIR_Ord lfn_entry;
          sequence_order = order_flags AND NOT 0x40
      in
      if sequence_order = 0 \<or> of_nat MAX_LFN_PARTS < sequence_order
      then Some (0, lfn\<lparr>lfn_parts_found := 0\<rparr>)
      else if order_flags AND 0x40 = 0 \<and> checksum = 0 then Some (0, lfn\<lparr>lfn_parts_found := 0\<rparr>)
      else
        let checksum' = (if order_flags AND 0x40 \<noteq> 0 then LDIR_Chksum lfn_entry else checksum);
            base = unat (sequence_order - 1) * MAX_UTF8_CHARS_PER_LFN_PART
        in do {
          (n1, b1) \<leftarrow> fat_lfn_to_utf8 (unit_bytes (LDIR_Name1 lfn_entry)) (lfn_buffer lfn) base
            (of_nat MAX_FILENAME_LEN) 0;
          (n2, b2) \<leftarrow> fat_lfn_to_utf8 (unit_bytes (LDIR_Name2 lfn_entry)) b1 base
            (of_nat MAX_FILENAME_LEN) n1;
          (n3, b3) \<leftarrow> fat_lfn_to_utf8 (unit_bytes (LDIR_Name3 lfn_entry)) b2 base
            (of_nat MAX_FILENAME_LEN) (n1 + n2);
          Some (checksum', \<lparr>lfn_buffer = b3, lfn_parts_found = lfn_parts_found lfn + 1\<rparr>)
        })"

text \<open>The loop that puts the parts of a long name together; \<open>i\<close> is the loop counter and the last
  argument counts the rounds left.\<close>

fun assemble_lfn :: "u8 list \<Rightarrow> u8 list \<Rightarrow> nat \<Rightarrow> nat \<Rightarrow> u8 list option" where
  "assemble_lfn buf name i 0 = Some name"
| "assemble_lfn buf name i (Suc n) =
     (if length buf \<le> i * MAX_UTF8_CHARS_PER_LFN_PART then None
      else if buf ! (i * MAX_UTF8_CHARS_PER_LFN_PART) \<noteq> 0 then do {
        l \<leftarrow> strlen name;
        name' \<leftarrow> strncat name (drop (i * MAX_UTF8_CHARS_PER_LFN_PART) buf)
          (of_nat MAX_FILENAME_LEN - 1 - l);
        assemble_lfn buf name' (Suc i) n
      }
      else assemble_lfn buf name (Suc i) n)"

definition entry_filename ::
  "fat_dir_entry_t \<Rightarrow> u8 \<Rightarrow> lfn_locals \<Rightarrow> u8 list \<Rightarrow> u8 list option" where
  "entry_filename entry checksum lfn name =
     (if checksum \<noteq> 0 \<and> fat_sfn_checksum (DIR_Name (entry_sfn entry)) = checksum then do {
        name' \<leftarrow> assemble_lfn (lfn_buffer lfn) (name[0 := 0]) 0 (unat (lfn_parts_found lfn));
        Some (name'[MAX_FILENAME_LEN - 1 := 0])
      }
      else overwrite name 0 (fat_sfn_to_string (DIR_Name (entry_sfn entry))))"

text \<open>A short-name entry fills \<open>file_info_out\<close> and is returned, unless it is a volume label.\<close>

definition process_sfn ::
  "fat_dir_entry_t \<Rightarrow> u8 \<Rightarrow> lfn_locals \<Rightarrow> fat_file_info_t \<Rightarrow>
    (fat_error_t option \<times> lfn_locals \<times> fat_file_info_t) option" where
  "process_sfn entry checksum lfn info = do {
     name \<leftarrow> entry_filename entry checksum lfn (filename info);
     let attr = DIR_Attr (entry_sfn entry);
     let info = \<lparr>filename = name,
       first_cluster = push_bit 16 (ucast (read_le16 ((!) entry) 20)) OR
         ucast (read_le16 ((!) entry) 26),
       fi_file_size = read_le32 ((!) entry) 28,
       attributes = attr,
       is_directory = (attr AND FAT_ATTR_DIRECTORY \<noteq> 0)\<rparr>;
     let lfn = lfn\<lparr>lfn_parts_found := 0\<rparr>;
     if attr AND FAT_ATTR_VOLUME_ID \<noteq> 0 \<and> \<not> is_directory info then Some (None, lfn, info)
     else Some (Some FAT_SUCCESS, lfn, info)
   }"

definition is_lfn_entry :: "fat_dir_entry_t \<Rightarrow> bool" where
  "is_lfn_entry entry \<longleftrightarrow> DIR_Attr (entry_sfn entry) AND FAT_ATTR_LFN = FAT_ATTR_LFN"

definition process_entry :: "'w dir_state \<Rightarrow> (fat_error_t option \<times> 'w dir_state) option" where
  "process_entry st =
     (let it = d_iter st; off = unat (current_entry_in_sector it) * 32 in
      if length (sector_buffer it) < off + 32 then None
      else
        let entry = take 32 (drop off (sector_buffer it));
            it = it\<lparr>current_entry_in_sector := current_entry_in_sector it + 1\<rparr>;
            first_byte = entry ! 0
        in
        if first_byte = 0x00 then Some (Some FAT_ERROR_NO_MORE_ENTRIES, st\<lparr>d_iter := it\<rparr>)
        else if first_byte = 0xE5 then Some (None, st\<lparr>d_iter := it\<rparr>)
        else if is_lfn_entry entry then do {
          (checksum, lfn) \<leftarrow> process_lfn entry (lfn_checksum it) (d_lfn st);
          Some (None, st\<lparr>d_iter := it\<lparr>lfn_checksum := checksum\<rparr>, d_lfn := lfn\<rparr>)
        }
        else do {
          (r, lfn, info) \<leftarrow> process_sfn entry (lfn_checksum it) (d_lfn st) (d_info st);
          Some (r, st\<lparr>d_iter := it\<lparr>lfn_checksum := 0\<rparr>, d_lfn := lfn, d_info := info\<rparr>)
        })"

section \<open>Reading the next entry\<close>

definition dir_step :: "'w blockdev \<Rightarrow> 'w dir_state \<Rightarrow> (fat_error_t option \<times> 'w dir_state) option" where
  "dir_step dev st = do {
     (r, st) \<leftarrow> load_dir_sector dev st;
     case r of Some e \<Rightarrow> Some (Some e, st) | None \<Rightarrow> process_entry st
   }"

partial_function (option) dir_loop ::
  "'w blockdev \<Rightarrow> 'w dir_state \<Rightarrow> (fat_error_t \<times> 'w dir_state) option" where
  "dir_loop dev st = do {
     (r, st') \<leftarrow> dir_step dev st;
     case r of Some e \<Rightarrow> Some (e, st') | None \<Rightarrow> dir_loop dev st'
   }"

declare dir_loop.simps [code]

definition fat_read_next_dir_entry ::
  "'w blockdev \<Rightarrow> lfn_locals \<Rightarrow> fat_directory_iterator_t option \<Rightarrow> fat_file_info_t option \<Rightarrow>
    'w fs \<Rightarrow> (fat_error_t \<times> fat_directory_iterator_t option \<times> fat_file_info_t option \<times> 'w fs) option" where
  "fat_read_next_dir_entry dev junk iter file_info_out s =
     (if \<not> is_initialized (g_fat32_volume_info s)
      then Some (FAT_ERROR_NOT_INITIALIZED, iter, file_info_out, s)
      else
        (case (iter, file_info_out) of
           (Some it, Some info) \<Rightarrow> do {
             (e, st) \<leftarrow> dir_loop dev \<lparr>d_iter = it, d_info = info, d_lfn = junk, d_fs = s\<rparr>;
             Some (e, Some (d_iter st), Some (d_info st), d_fs st)
           }
         | _ \<Rightarrow> Some (FAT_ERROR_BAD_FAT_ENTRY, iter, file_info_out, s)))"

end
