(* ===== verification/Fat_File.thy ===== *)
theory Fat_File
  imports Fat_Dir
begin

unbundle bit_operations_syntax

text \<open>
  The file layer of \<open>src/src/driver/fs/FAT32.c\<close>: reading through a handle, the search for a
  path and the four calls of \<open>FAT32.h\<close> on handles.  A file id is an index into
  \<open>open_file_handles\<close>.
\<close>

section \<open>Reading a file\<close>

text \<open>One round of the loop of \<open>fat_read_file\<close>, on \<open>bytes_read_total\<close> and the state; \<open>Some e\<close> as
  the first component: the function returns \<open>e\<close> (a \<open>break\<close> returns \<open>FAT_SUCCESS\<close>).\<close>

definition read_file_step ::
  "'w blockdev \<Rightarrow> nat \<Rightarrow> u32 \<Rightarrow> u32 \<Rightarrow> u32 \<Rightarrow> 'w fs \<Rightarrow> (fat_error_t option \<times> u32 \<times> 'w fs) option" where
  "read_file_step dev fid buffer actual_bytes_to_read bytes_read_total s =
     (let v = g_fat32_volume_info s;
          h = open_file_handles s ! fid;
          bps = ucast (bytes_per_sector v) :: u32
      in
      if bps = 0 then None
      else
        let sector_in_cluster = current_offset h div bps;
            current_byte_in_sector = current_offset h mod bps;
            current_sector_lba = fatClusterToLba v (fh_current_cluster h) + sector_in_cluster;
            bytes_left_in_sector = bps - current_byte_in_sector;
            bytes_to_copy = min_int (actual_bytes_to_read - bytes_read_total) bytes_left_in_sector
        in do {
          (r, w) \<leftarrow> dev_read_partial dev current_sector_lba (ucast current_byte_in_sector)
            (ucast bytes_to_copy) (sd s);
          let s = s\<lparr>sd := w\<rparr>;
          case r of
            None \<Rightarrow> Some (Some FAT_ERROR_READ_FAIL, bytes_read_total, s)
          | Some bs \<Rightarrow>
              let s = s\<lparr>ram := store_bytes (ram s) (buffer + bytes_read_total) bs\<rparr>;
                  h = h\<lparr>current_file_pos := current_file_pos h + bytes_to_copy,
                        current_offset := current_offset h + bytes_to_copy\<rparr>;
                  s = s\<lparr>open_file_handles := (open_file_handles s)[fid := h]\<rparr>;
                  tot = bytes_read_total + bytes_to_copy
              in
              if bytes_per_cluster v \<le> current_offset h then do {
                ((res, nxt), s) \<leftarrow> getNextCluster dev (fh_current_cluster h) s;
                if res = FAT_ERROR_END_OF_CHAIN then Some (Some FAT_SUCCESS, tot, s)
                else
                  (case nxt of
                     Some next_cluster \<Rightarrow>
                       if res \<noteq> FAT_SUCCESS then Some (Some res, tot, s)
                       else Some (None, tot, s\<lparr>open_file_handles := (open_file_handles s)
                         [fid := h\<lparr>fh_current_cluster := next_cluster, current_offset := 0\<rparr>]\<rparr>)
                   | None \<Rightarrow> Some (Some res, tot, s))
              }
              else Some (None, tot, s)
        })"

partial_function (option) read_file_loop ::
  "'w blockdev \<Rightarrow> nat \<Rightarrow> u32 \<Rightarrow> u32 \<Rightarrow> u32 \<Rightarrow> 'w fs \<Rightarrow> (fat_error_t \<times> 'w fs) option" where
  "read_file_loop dev fid buffer actual tot s =
     (if tot < actual then do {
        (r, tot', s') \<leftarrow> read_file_step dev fid buffer actual tot s;
        case r of
          Some e \<Rightarrow> Some (e, s')
        | None \<Rightarrow> read_file_loop dev fid buffer actual tot' s'
      }
      else Some (FAT_SUCCESS, s))"

declare read_file_loop.simps [code]

definition fat_read_file ::
  "'w blockdev \<Rightarrow> u32 \<Rightarrow> u32 \<Rightarrow> u32 \<Rightarrow> 'w fs \<Rightarrow> (fat_error_t \<times> 'w fs) option" where
  "fat_read_file dev file_id buffer bytes_to_read s =
     (if \<not> is_initialized (g_fat32_volume_info s) then Some (FAT_ERROR_NOT_INITIALIZED, s)
      else if buffer = 0 then Some (FAT_ERROR_BAD_FAT_ENTRY, s)
      else if MAX_OPEN_FILES \<le> unat file_id \<or> is_free (open_file_handles s ! unat file_id)
      then Some (FAT_ERROR_BAD_FAT_ENTRY, s)
      else
        let h = open_file_handles s ! unat file_id;
            actual_bytes_to_read = min_int bytes_to_read (fh_file_size h - current_file_pos h)
        in if actual_bytes_to_read = 0 then Some (FAT_SUCCESS, s)
           else read_file_loop dev (unat file_id) buffer actual_bytes_to_read 0 s)"

section \<open>Finding a file\<close>

text \<open>The \<open>while\<close> loop that copies a path component; the result is the name and the path from
  the separator or terminator on.\<close>

fun path_component :: "u8 list \<Rightarrow> u8 list \<Rightarrow> (u8 list \<times> u8 list) option" where
  "path_component [] name = None"
| "path_component (c # path) name =
     (if c \<noteq> 0x2F \<and> c \<noteq> 0
      then path_component path (if length name < MAX_FILENAME_LEN - 1 then name @ [c] else name)
      else Some (name, c # path))"

text \<open>The \<open>do\<close> loop over the entries of one directory.  The \<open>n\<close>-th call of
  \<open>fat_read_next_dir_entry\<close> finds \<open>junk n\<close> on its stack.  A first component \<open>Some e\<close> means that
  \<open>get_file\<close> returns \<open>e\<close>, and \<open>None\<close> that the directory of the name was entered.\<close>

record 'w search =
  dir_iter :: fat_directory_iterator_t
  current_entry :: fat_file_info_t
  calls :: nat
  s_fs :: "'w fs"

partial_function (option) find_entry ::
  "'w blockdev \<Rightarrow> (nat \<Rightarrow> lfn_locals) \<Rightarrow> u8 list \<Rightarrow> bool \<Rightarrow> 'w search \<Rightarrow>
    (fat_error_t option \<times> 'w search) option" where
  "find_entry dev junk name_buffer final_path_component st = do {
     (result, it, info, s) \<leftarrow> fat_read_next_dir_entry dev (junk (calls st)) (Some (dir_iter st))
       (Some (current_entry st)) (s_fs st);
     let st = \<lparr>dir_iter = the it, current_entry = the info, calls = Suc (calls st), s_fs = s\<rparr>;
     if result = FAT_SUCCESS then do {
       c \<leftarrow> strcmp name_buffer (filename (current_entry st));
       if c = 0 then
         (if is_directory (current_entry st) \<and> \<not> final_path_component then
            (let (init_res, it') = fat_init_root_dir_iterator (g_fat32_volume_info s)
                   (Some (dir_iter st)) (first_cluster (current_entry st))
             in if init_res \<noteq> FAT_SUCCESS then Some (Some init_res, st)
                else Some (None, st\<lparr>dir_iter := the it'\<rparr>))
          else if final_path_component \<and> \<not> is_directory (current_entry st)
          then Some (Some FAT_SUCCESS, st)
          else if final_path_component \<and> is_directory (current_entry st)
          then Some (Some FAT_ERROR_FILE_NOT_FOUND, st)
          else find_entry dev junk name_buffer final_path_component st)
       else find_entry dev junk name_buffer final_path_component st
     }
     else if result = FAT_ERROR_NO_MORE_ENTRIES then Some (Some FAT_ERROR_FILE_NOT_FOUND, st)
     else Some (Some result, st)
   }"

declare find_entry.simps [code]

partial_function (option) get_file_loop ::
  "'w blockdev \<Rightarrow> (nat \<Rightarrow> lfn_locals) \<Rightarrow> u8 list \<Rightarrow> 'w search \<Rightarrow>
    (fat_error_t \<times> 'w search) option" where
  "get_file_loop dev junk path st = do {
     (name, rest) \<leftarrow> path_component path [];
     let final_path_component = (hd rest = 0);
     let path = (if final_path_component then rest else tl rest);
     if name = [] \<and> \<not> final_path_component then get_file_loop dev junk path st
     else do {
       (r, st) \<leftarrow> find_entry dev junk (name @ [0]) final_path_component st;
       case r of Some e \<Rightarrow> Some (e, st) | None \<Rightarrow> get_file_loop dev junk path st
     }
   }"

declare get_file_loop.simps [code]

text \<open>\<open>entry0\<close> is what the uninitialised local \<open>current_entry\<close> holds.\<close>

definition get_file ::
  "'w blockdev \<Rightarrow> (nat \<Rightarrow> lfn_locals) \<Rightarrow> fat_file_info_t \<Rightarrow> u8 list option \<Rightarrow>
    fat_file_info_t option \<Rightarrow> 'w fs \<Rightarrow> (fat_error_t \<times> fat_file_info_t option \<times> 'w fs) option" where
  "get_file dev junk entry0 path file s =
     (case (path, file) of
        (Some p, Some f) \<Rightarrow>
          (let v = g_fat32_volume_info s;
               (init_res, it) = fat_init_root_dir_iterator v
                 (Some \<lparr>it_current_cluster = 0, current_sector_in_cluster = 0,
                   current_entry_in_sector = 0, sector_buffer = [], sector_buffer_valid = False,
                   lfn_checksum = 0\<rparr>) (root_dir_cluster v)
           in if init_res \<noteq> FAT_SUCCESS then Some (init_res, file, s)
              else do {
                (e, st) \<leftarrow> get_file_loop dev junk (tl p)
                  \<lparr>dir_iter = the it, current_entry = entry0, calls = 0, s_fs = s\<rparr>;
                Some (e, (if e = FAT_SUCCESS then Some (current_entry st) else file), s_fs st)
              })
      | _ \<Rightarrow> Some (FAT_ERROR_BAD_FAT_ENTRY, file, s))"

section \<open>Handles\<close>

definition handle_of :: "fat_file_info_t \<Rightarrow> u8 \<Rightarrow> file_handle_t" where
  "handle_of file md =
     \<lparr>cluster_start = first_cluster file, fh_current_cluster = first_cluster file,
      current_offset = 0, fh_file_size = fi_file_size file, current_file_pos = 0,
      is_free = False, mode = md\<rparr>"

text \<open>\<open>file0\<close> is what the uninitialised local \<open>file\<close> holds.\<close>

definition fat32_open ::
  "'w blockdev \<Rightarrow> (nat \<Rightarrow> lfn_locals) \<Rightarrow> fat_file_info_t \<Rightarrow> fat_file_info_t \<Rightarrow> u8 list option \<Rightarrow>
    u8 \<Rightarrow> 'w fs \<Rightarrow> (u32 \<times> 'w fs) option" where
  "fat32_open dev junk entry0 file0 path md s = do {
     (e, file, s) \<leftarrow> get_file dev junk entry0 path (Some file0) s;
     if e \<noteq> FAT_SUCCESS then Some (- 1, s)
     else
       (case find (\<lambda>i. is_free (open_file_handles s ! i)) [0..<MAX_OPEN_FILES] of
          Some i \<Rightarrow> Some (of_nat i, s\<lparr>open_file_handles :=
            (open_file_handles s)[i := handle_of (the file) md]\<rparr>)
        | None \<Rightarrow> Some (- 1, s))
   }"

definition fat32_close :: "u32 \<Rightarrow> 'w fs \<Rightarrow> bool \<times> 'w fs" where
  "fat32_close file_id s =
     (if MAX_OPEN_FILES \<le> unat file_id then (False, s)
      else (True, s\<lparr>open_file_handles := (open_file_handles s)[unat file_id :=
        (open_file_handles s ! unat file_id)\<lparr>is_free := True\<rparr>]\<rparr>))"

definition fat32_read ::
  "'w blockdev \<Rightarrow> u32 \<Rightarrow> u32 \<Rightarrow> u32 \<Rightarrow> 'w fs \<Rightarrow> (bool \<times> 'w fs) option" where
  "fat32_read dev file_id buffer bytes_to_read s =
     (if MAX_OPEN_FILES \<le> unat file_id \<or> buffer = 0 then Some (False, s)
      else if is_free (open_file_handles s ! unat file_id) then Some (False, s)
      else do {
        (e, s) \<leftarrow> fat_read_file dev file_id buffer bytes_to_read s;
        Some (e = FAT_SUCCESS, s)
      })"

definition fat32_get_size :: "u32 \<Rightarrow> 'w fs \<Rightarrow> u32" where
  "fat32_get_size file_id s =
     (if MAX_OPEN_FILES \<le> unat file_id then 0
      else fh_file_size (open_file_handles s ! unat file_id))"

end
