(* ===== verification/Block_Device.thy ===== *)
theory Block_Device
  imports Fat_Volume
begin

unbundle bit_operations_syntax

text \<open>
  The contract between the FAT driver and the SD card driver, and what the volume layer does
  on a device that keeps it.  \<open>disk w\<close> is the content of the card: the 512 bytes of a sector,
  or \<open>None\<close> for a sector whose reads fail.  Reading changes the device but not the content.

  \<open>next_cluster\<close> is the file allocation table as a function: what \<open>getNextCluster\<close> returns.
  \<open>fat_chain\<close> says that a list of clusters is linked by the table from its first element to an
  end mark; \<open>file_bytes\<close> is the data of such a list.
\<close>

section \<open>The contract\<close>

type_synonym disk = "u32 \<Rightarrow> u8 list option"

locale block_device =
  fixes dev :: "'w blockdev"
    and ready :: "'w \<Rightarrow> bool"
    and disk :: "'w \<Rightarrow> disk"
  assumes sector_length: "\<lbrakk>ready w; disk w lba = Some bs\<rbrakk> \<Longrightarrow> length bs = 512"
    and read_law: "ready w \<Longrightarrow>
      \<exists>w'. dev_read dev lba w = Some (disk w lba, w') \<and> ready w' \<and> disk w' = disk w"
    and partial_law: "\<lbrakk>ready w; unat off + unat len \<le> 512\<rbrakk> \<Longrightarrow>
      \<exists>w'. dev_read_partial dev lba off len w =
          Some (map_option (\<lambda>bs. take (unat len) (drop (unat off) bs)) (disk w lba), w') \<and>
        ready w' \<and> disk w' = disk w"

section \<open>The volume as data\<close>

definition vol_ok :: "fat32_volume_info_t \<Rightarrow> bool" where
  "vol_ok v \<longleftrightarrow> is_initialized v \<and> bytes_per_sector v = 512 \<and> sectors_per_cluster v \<noteq> 0 \<and>
     bytes_per_cluster v = 512 * ucast (sectors_per_cluster v) \<and> total_clusters v < 0x0FFFFFF7"

definition fat_entry :: "fat32_volume_info_t \<Rightarrow> disk \<Rightarrow> u32 \<Rightarrow> u32 option" where
  "fat_entry v d c =
     map_option (\<lambda>bs. read_le32 ((!) bs) (of_nat (unat c * 4 mod 512)) AND 0x0FFFFFFF)
       (d (first_fat_lba v + of_nat (unat c * 4 div 512)))"

definition next_cluster :: "fat32_volume_info_t \<Rightarrow> disk \<Rightarrow> u32 \<Rightarrow> fat_error_t \<times> u32 option" where
  "next_cluster v d c =
     (if c < 2 \<or> total_clusters v + 2 \<le> c then (FAT_ERROR_INVALID_CLUSTER, None)
      else case fat_entry v d c of
        None \<Rightarrow> (FAT_ERROR_READ_FAIL, None)
      | Some e \<Rightarrow>
          if 0x0FFFFFF8 \<le> e then (FAT_ERROR_END_OF_CHAIN, Some 0)
          else if e = 0x0FFFFFF7 then (FAT_CODE 0x0FFFFFF7, Some 0)
          else if e = 0 then (FAT_ERROR_INVALID_CLUSTER, Some 0)
          else (FAT_SUCCESS, Some e))"

fun fat_chain :: "fat32_volume_info_t \<Rightarrow> disk \<Rightarrow> u32 list \<Rightarrow> bool" where
  "fat_chain v d [] \<longleftrightarrow> False"
| "fat_chain v d [c] \<longleftrightarrow> next_cluster v d c = (FAT_ERROR_END_OF_CHAIN, Some 0)"
| "fat_chain v d (c # c' # cs) \<longleftrightarrow>
     next_cluster v d c = (FAT_SUCCESS, Some c') \<and> fat_chain v d (c' # cs)"

definition cluster_sectors :: "fat32_volume_info_t \<Rightarrow> disk \<Rightarrow> u32 \<Rightarrow> u8 list option list" where
  "cluster_sectors v d c =
     map (\<lambda>i. d (fatClusterToLba v c + of_nat i)) [0..<unat (sectors_per_cluster v)]"

definition cluster_bytes :: "fat32_volume_info_t \<Rightarrow> disk \<Rightarrow> u32 \<Rightarrow> u8 list" where
  "cluster_bytes v d c = concat (map the (cluster_sectors v d c))"

definition readable :: "fat32_volume_info_t \<Rightarrow> disk \<Rightarrow> u32 \<Rightarrow> bool" where
  "readable v d c \<longleftrightarrow> list_all (\<lambda>x. x \<noteq> None) (cluster_sectors v d c)"

definition file_bytes :: "fat32_volume_info_t \<Rightarrow> disk \<Rightarrow> u32 list \<Rightarrow> u8 list" where
  "file_bytes v d cs = concat (map (cluster_bytes v d) cs)"

definition sectors_512 :: "disk \<Rightarrow> bool" where
  "sectors_512 d \<longleftrightarrow> (\<forall>lba bs. d lba = Some bs \<longrightarrow> length bs = 512)"

lemma next_cluster_in_range: "fst (next_cluster v d c) = FAT_SUCCESS \<Longrightarrow> 2 \<le> c"
  by (auto simp: next_cluster_def split: if_splits option.splits)

text \<open>Slices of a concatenation of equally long pieces.\<close>

lemma slice_concat:
  assumes "\<And>x. x \<in> set xs \<Longrightarrow> length x = l" "k < length xs" "r + m \<le> l"
  shows "take m (drop (k * l + r) (concat xs)) = take m (drop r (xs ! k))"
  using assms
proof (induction xs arbitrary: k)
  case (Cons x xs)
  show ?case
  proof (cases k)
    case 0
    then show ?thesis using Cons.prems by simp
  next
    case (Suc j)
    have "drop (k * l + r) (concat (x # xs)) = drop (j * l + r) (concat xs)"
      using Cons.prems(1) [of x] Suc by (simp add: add.assoc)
    then show ?thesis using Cons.IH [of j] Cons.prems Suc by simp
  qed
qed simp

lemma length_concat_uniform:
  "(\<And>x. x \<in> set xs \<Longrightarrow> length x = l) \<Longrightarrow> length (concat xs) = length xs * l"
  by (induction xs) auto

lemma cluster_sector:
  assumes "readable v d c" "i < unat (sectors_per_cluster v)"
  obtains bs where "d (fatClusterToLba v c + of_nat i) = Some bs"
    "map the (cluster_sectors v d c) ! i = bs"
  using assms by (fastforce simp: readable_def cluster_sectors_def list_all_iff)

lemma length_cluster_sectors:
  assumes "readable v d c" "sectors_512 d"
  shows "\<And>x. x \<in> set (map the (cluster_sectors v d c)) \<Longrightarrow> length x = 512"
    "length (map the (cluster_sectors v d c)) = unat (sectors_per_cluster v)"
  using assms by (fastforce simp: readable_def cluster_sectors_def list_all_iff sectors_512_def)+

lemma length_cluster_bytes:
  "readable v d c \<Longrightarrow> sectors_512 d \<Longrightarrow>
     length (cluster_bytes v d c) = unat (sectors_per_cluster v) * 512"
  using length_cluster_sectors length_concat_uniform [of "map the (cluster_sectors v d c)" 512]
  by (simp add: cluster_bytes_def)

lemma length_file_bytes:
  assumes "\<And>c. c \<in> set cs \<Longrightarrow> readable v d c" "sectors_512 d"
  shows "length (file_bytes v d cs) = length cs * (unat (sectors_per_cluster v) * 512)"
  unfolding file_bytes_def using assms
  by (subst length_concat_uniform [where l = "unat (sectors_per_cluster v) * 512"])
    (auto simp: length_cluster_bytes)

text \<open>A slice of a file inside one sector is that slice of the sector.\<close>

lemma file_slice:
  assumes rd: "\<And>c. c \<in> set cs \<Longrightarrow> readable v d c" and len: "sectors_512 d"
    and k: "k < length cs" and off: "off < unat (sectors_per_cluster v) * 512"
    and m: "off mod 512 + m \<le> 512"
  obtains bs where "d (fatClusterToLba v (cs ! k) + of_nat (off div 512)) = Some bs"
    "take m (drop (k * (unat (sectors_per_cluster v) * 512) + off) (file_bytes v d cs)) =
      take m (drop (off mod 512) bs)"
proof -
  let ?n = "unat (sectors_per_cluster v)" and ?c = "cs ! k" and ?i = "off div 512"
  have i: "?i < ?n" using off by (simp add: less_mult_imp_div_less)
  have c: "readable v d ?c" using rd k by simp
  obtain bs where bs: "d (fatClusterToLba v ?c + of_nat ?i) = Some bs"
    "map the (cluster_sectors v d ?c) ! ?i = bs" using cluster_sector [OF c i] .
  have end_ok: "off + m \<le> ?n * 512"
  proof -
    have "off + m = ?i * 512 + (off mod 512 + m)" by simp
    also have "\<dots> \<le> ?i * 512 + 512" using m by (intro add_left_mono)
    also have "\<dots> = (?i + 1) * 512" by simp
    also have "\<dots> \<le> ?n * 512" using i by (intro mult_le_mono1) simp
    finally show ?thesis .
  qed
  have "take m (drop (k * (?n * 512) + off) (file_bytes v d cs)) =
      take m (drop off (map (cluster_bytes v d) cs ! k))"
    unfolding file_bytes_def
    by (rule slice_concat) (use rd len k end_ok in \<open>auto simp: length_cluster_bytes\<close>)
  also have "\<dots> = take m (drop (?i * 512 + off mod 512) (concat (map the (cluster_sectors v d ?c))))"
    using k by (simp add: cluster_bytes_def)
  also have "\<dots> = take m (drop (off mod 512) bs)"
    using slice_concat [where xs = "map the (cluster_sectors v d ?c)" and k = ?i and r = "off mod 512" and m = m,
        OF length_cluster_sectors(1) [OF c len]]
      length_cluster_sectors(2) [OF c len] i m bs(2) by simp
  finally show thesis using that bs(1) by blast
qed

section \<open>The volume layer on a device\<close>

context block_device
begin

lemma ready_sectors: "ready w \<Longrightarrow> sectors_512 (disk w)"
  using sector_length by (auto simp: sectors_512_def)

text \<open>What an operation that only reads the disk keeps.\<close>

definition fs_same :: "'w fs \<Rightarrow> 'w fs \<Rightarrow> bool" where
  "fs_same s s' \<longleftrightarrow> g_fat32_volume_info s' = g_fat32_volume_info s \<and>
     open_file_handles s' = open_file_handles s \<and> ram s' = ram s \<and>
     ready (sd s') \<and> disk (sd s') = disk (sd s)"

lemma fs_same_refl: "ready (sd s) \<Longrightarrow> fs_same s s"
  by (simp add: fs_same_def)

lemma fs_same_trans: "fs_same s s' \<Longrightarrow> fs_same s' s'' \<Longrightarrow> fs_same s s''"
  by (simp add: fs_same_def)

text \<open>\<open>getNextCluster\<close> is the table lookup; the byte arithmetic of the code does not wrap.\<close>

lemma getNextCluster_refines:
  assumes "ready (sd s)" "vol_ok (g_fat32_volume_info s)"
  shows "\<exists>w'. getNextCluster dev c s =
      Some (next_cluster (g_fat32_volume_info s) (disk (sd s)) c, s\<lparr>sd := w'\<rparr>) \<and>
    ready w' \<and> disk w' = disk (sd s)"
proof -
  let ?v = "g_fat32_volume_info s"
  have vi: "is_initialized ?v" "bytes_per_sector ?v = 512" "total_clusters ?v < 0x0FFFFFF7"
    using assms(2) by (simp_all add: vol_ok_def)
  show ?thesis
  proof (cases "c < 2 \<or> total_clusters ?v + 2 \<le> c")
    case True
    then show ?thesis using vi assms
      by (intro exI [of _ "sd s"]) (simp add: getNextCluster_def next_cluster_def Let_def)
  next
    case False
    have "unat (total_clusters ?v) < 0x0FFFFFF7" using vi(3) by (simp add: word_less_nat_alt)
    moreover from this have "unat (total_clusters ?v + 2) = unat (total_clusters ?v) + 2"
      by (simp add: unat_add_u32)
    ultimately have c: "unat c < 0x0FFFFFF9" using False by (simp add: word_le_nat_alt)
    then have c4: "unat (c * 4) = unat c * 4" by (simp add: unat_word_ariths)
    have dv: "c * 4 div 512 = of_nat (unat c * 4 div 512)"
      using c by (simp add: word_unat_eq_iff unat_div_u32 c4)
    have md: "(ucast (c * 4 mod 512 :: u32) :: u16) = of_nat (unat c * 4 mod 512)"
    proof -
      have "unat (c * 4 mod 512) = unat c * 4 mod 512" by (simp add: unat_mod_u32 c4)
      then show ?thesis by (metis of_nat_unat)
    qed
    let ?o = "of_nat (unat c * 4 mod 512) :: u16"
    have o: "unat ?o = unat c * 4 mod 512" by (rule unat_of_nat_u16) simp
    have fit: "unat ?o + unat (4 :: u16) \<le> 512" 
    proof -
      have "unat c * 4 mod 512 = (unat c mod 128) * 4" using mod_mult_mult2 [of "unat c" 4 128] by simp
      moreover have "unat c mod 128 < 128" by simp
      moreover have "unat (4 :: u16) = 4" by simp
      ultimately show ?thesis unfolding o by linarith
    qed
    obtain w' where w': "dev_read_partial dev (first_fat_lba ?v + of_nat (unat c * 4 div 512)) ?o 4
        (sd s) = Some (map_option (\<lambda>bs. take 4 (drop (unat ?o) bs))
          (disk (sd s) (first_fat_lba ?v + of_nat (unat c * 4 div 512))), w')"
      "ready w'" "disk w' = disk (sd s)"
      using partial_law [OF assms(1) fit] by auto
    have rd: "read_le32 ((!) (take 4 (drop (unat ?o) bs))) 0 = read_le32 ((!) bs) ?o"
      if "disk (sd s) lba = Some bs" for lba bs
      using sector_length [OF assms(1) that] fit by (intro read_le32_cong) simp
    have msk: "x AND 0x0FFFFFFF \<le> (0x0FFFFFFF :: u32)" for x by (rule word_and_le1)
    show ?thesis
      using False vi w' rd msk
      by (intro exI [of _ w'])
        (auto simp: getNextCluster_def next_cluster_def fat_entry_def Let_def dv md
          FAT32_EOC_MARKER_START_def FAT32_LAST_CLUSTER_VALID_def FAT32_BAD_CLUSTER_def
          split: option.splits)
  qed
qed

end

end
