(* ===== verification/Fat_Scan.thy ===== *)
theory Fat_Scan
  imports Fat_Dir Block_Device
begin

unbundle bit_operations_syntax

text \<open>
  Iterating over a directory refines a scan of the list of its 32-byte entries.
  \<open>dir_entries\<close> is that list for the clusters of a directory, \<open>scan_entries\<close> the effect of
  \<open>fat_read_next_dir_entry\<close> on it, and \<open>iter_at\<close> relates an iterator to the number of entries
  it has consumed.
\<close>

section \<open>Specification\<close>

definition entry_at :: "u8 list \<Rightarrow> nat \<Rightarrow> u8 list" where
  "entry_at f p = take 32 (drop (p * 32) f)"

definition dir_entries :: "fat32_volume_info_t \<Rightarrow> disk \<Rightarrow> u32 list \<Rightarrow> u8 list list" where
  "dir_entries v d cs =
     map (entry_at (file_bytes v d cs)) [0..<length cs * (unat (sectors_per_cluster v) * 16)]"

text \<open>The result: the code returned, the number of entries consumed, the checksum and the locals
  left behind, and the file information.\<close>

fun scan_entries ::
  "u8 list list \<Rightarrow> u8 \<Rightarrow> lfn_locals \<Rightarrow> fat_file_info_t \<Rightarrow>
    (fat_error_t \<times> nat \<times> u8 \<times> lfn_locals \<times> fat_file_info_t) option" where
  "scan_entries [] ck lfn info = Some (FAT_ERROR_END_OF_CHAIN, 0, ck, lfn, info)"
| "scan_entries (e # es) ck lfn info =
     (if e ! 0 = 0 then Some (FAT_ERROR_NO_MORE_ENTRIES, 1, ck, lfn, info)
      else if e ! 0 = 0xE5 then
        map_option (\<lambda>(r, n, z). (r, Suc n, z)) (scan_entries es ck lfn info)
      else if is_lfn_entry e then do {
        (ck', lfn') \<leftarrow> process_lfn e ck lfn;
        map_option (\<lambda>(r, n, z). (r, Suc n, z)) (scan_entries es ck' lfn' info)
      }
      else do {
        (r, lfn', info') \<leftarrow> process_sfn e ck lfn info;
        case r of
          Some x \<Rightarrow> Some (x, 1, 0, lfn', info')
        | None \<Rightarrow> map_option (\<lambda>(r, n, z). (r, Suc n, z)) (scan_entries es 0 lfn' info')
      })"

definition iter_at ::
  "fat32_volume_info_t \<Rightarrow> disk \<Rightarrow> u32 list \<Rightarrow> fat_directory_iterator_t \<Rightarrow> nat \<Rightarrow> bool" where
  "iter_at v d cs it p \<longleftrightarrow> fat_chain v d cs \<and> list_all (readable v d) cs \<and>
     (if sector_buffer_valid it then
        (\<exists>k < length cs. \<exists>j < unat (sectors_per_cluster v). \<exists>i \<le> 16.
           it_current_cluster it = cs ! k \<and> current_sector_in_cluster it = of_nat j \<and>
           current_entry_in_sector it = of_nat i \<and>
           d (fatClusterToLba v (cs ! k) + of_nat j) = Some (sector_buffer it) \<and>
           p = (k * unat (sectors_per_cluster v) + j) * 16 + i)
      else it_current_cluster it = hd cs \<and> current_sector_in_cluster it = - 1 \<and> p = 0)"

text \<open>An iterator whose next entry is in its buffer.\<close>

definition iter_loaded ::
  "fat32_volume_info_t \<Rightarrow> disk \<Rightarrow> u32 list \<Rightarrow> fat_directory_iterator_t \<Rightarrow> nat \<Rightarrow> bool" where
  "iter_loaded v d cs it p \<longleftrightarrow> iter_at v d cs it p \<and> sector_buffer_valid it \<and>
     current_entry_in_sector it < 16"

section \<open>Loading sectors\<close>

lemma fat_chain_step:
  "fat_chain v d cs \<Longrightarrow> k < length cs \<Longrightarrow>
     next_cluster v d (cs ! k) =
       (if Suc k < length cs then (FAT_SUCCESS, Some (cs ! Suc k)) else (FAT_ERROR_END_OF_CHAIN, Some 0))"
  by (induction v d cs arbitrary: k rule: fat_chain.induct) (auto simp: nth_Cons split: nat.splits)

lemma fat_chain_not_Nil: "fat_chain v d cs \<Longrightarrow> cs \<noteq> []"
  by auto

lemma entries_per_sector: "vol_ok v \<Longrightarrow> (ucast (bytes_per_sector v div 32) :: u32) = 16"
  by (simp add: vol_ok_def)

lemma entry_index_bound:
  assumes "k < l" "j < n" "i < (16 :: nat)"
  shows "(k * n + j) * 16 + i < l * (n * 16)"
proof -
  have "Suc k * n \<le> l * n" using assms(1) by (intro mult_le_mono1) simp
  then have "k * n + j + 1 \<le> l * n" using assms(2) by simp
  then have "(k * n + j + 1) * 16 \<le> (l * n) * 16" by (rule mult_le_mono1)
  then show ?thesis using assms(3) by (simp add: mult.assoc distrib_right)
qed

context block_device
begin

text \<open>What sector loading leaves alone.\<close>

definition dir_same :: "'w dir_state \<Rightarrow> 'w dir_state \<Rightarrow> bool" where
  "dir_same st st' \<longleftrightarrow> d_info st' = d_info st \<and> d_lfn st' = d_lfn st \<and>
     lfn_checksum (d_iter st') = lfn_checksum (d_iter st) \<and> fs_same (d_fs st) (d_fs st')"

lemma read_dir_sector_at:
  assumes "ready (sd (d_fs st))" "v = g_fat32_volume_info (d_fs st)" "d = disk (sd (d_fs st))"
    and "fat_chain v d cs" "list_all (readable v d) cs" "k < length cs" "j < unat (sectors_per_cluster v)"
    and "it_current_cluster (d_iter st) = cs ! k" "current_sector_in_cluster (d_iter st) = of_nat j"
      "current_entry_in_sector (d_iter st) = 0"
  shows "\<exists>st'. read_dir_sector dev st = Some (None, st') \<and> dir_same st st' \<and>
    iter_loaded v d cs (d_iter st') ((k * unat (sectors_per_cluster v) + j) * 16)"
proof -
  obtain bs where bs: "d (fatClusterToLba v (cs ! k) + of_nat j) = Some bs"
    using cluster_sector [of v d "cs ! k" j] assms(5-7) by (auto simp: list_all_iff)
  obtain w' where w': "dev_read dev (fatClusterToLba v (cs ! k) + of_nat j) (sd (d_fs st)) = Some (Some bs, w')"
    "ready w'" "disk w' = d"
    using read_law [OF assms(1), of "fatClusterToLba v (cs ! k) + of_nat j"] bs assms(3) by auto
  let ?st = "st\<lparr>d_fs := (d_fs st)\<lparr>sd := w'\<rparr>,
    d_iter := (d_iter st)\<lparr>sector_buffer := bs, sector_buffer_valid := True\<rparr>\<rparr>"
  have "read_dir_sector dev st = Some (None, ?st)"
    using w'(1) assms(2,8,9) by (simp add: read_dir_sector_def Let_def)
  moreover have "iter_loaded v d cs (d_iter ?st) ((k * unat (sectors_per_cluster v) + j) * 16)"
    using assms(4-10) bs unfolding iter_loaded_def iter_at_def by fastforce
  ultimately show ?thesis using w' assms(3) by (auto simp: dir_same_def fs_same_def)
qed

lemma next_dir_sector_spec:
  assumes rdy: "ready (sd (d_fs st))" and v: "v = g_fat32_volume_info (d_fs st)" and vol: "vol_ok v"
    and d: "d = disk (sd (d_fs st))" and ch: "fat_chain v d cs" "list_all (readable v d) cs"
    and k: "k < length cs" and j: "j < unat (sectors_per_cluster v)"
    and it: "it_current_cluster (d_iter st) = cs ! k"
      "current_sector_in_cluster (d_iter st) = of_nat j"
  defines "p \<equiv> (k * unat (sectors_per_cluster v) + Suc j) * 16"
  shows "\<exists>r st'. next_dir_sector dev st = Some (r, st') \<and> dir_same st st' \<and>
    (if p < length cs * (unat (sectors_per_cluster v) * 16)
     then r = None \<and> iter_loaded v d cs (d_iter st') p
     else r = Some FAT_ERROR_END_OF_CHAIN \<and> p = length cs * (unat (sectors_per_cluster v) * 16))"
proof -
  let ?n = "unat (sectors_per_cluster v)"
  let ?it = "(d_iter st)\<lparr>current_sector_in_cluster := of_nat (Suc j), current_entry_in_sector := 0\<rparr>"
  have n: "0 < ?n" using vol by (simp add: vol_ok_def unat_gt_0)
  have "Suc j < 4294967296" using j unat_u8_lt [of "sectors_per_cluster v"] by linarith
  then have uj: "unat (of_nat (Suc j) :: u32) = Suc j" by (rule unat_of_nat_u32)
  have step: "current_sector_in_cluster (d_iter st) + 1 = of_nat (Suc j)" using it(2) by simp
  show ?thesis
  proof (cases "Suc j < ?n")
    case True
    let ?st = "st\<lparr>d_iter := ?it\<rparr>"
    have "next_dir_sector dev st = read_dir_sector dev ?st"
      using True uj v unfolding next_dir_sector_def step Let_def by (simp add: word_le_nat_alt)
    moreover obtain st' where "read_dir_sector dev ?st = Some (None, st')" "dir_same ?st st'"
      "iter_loaded v d cs (d_iter st') p"
      using read_dir_sector_at [of ?st v d cs k "Suc j"] rdy v d ch k True it p_def by auto
    moreover have "p < length cs * (?n * 16)"
      using entry_index_bound [OF k True, of 0] by (simp add: p_def)
    ultimately show ?thesis by (auto simp: dir_same_def fs_same_def)
  next
    case False
    then have last: "Suc j = ?n" using j by simp
    obtain w' where w': "getNextCluster dev (cs ! k) (d_fs st) =
        Some (next_cluster v d (cs ! k), (d_fs st)\<lparr>sd := w'\<rparr>)" "ready w'" "disk w' = d"
      using getNextCluster_refines [OF rdy, of "cs ! k"] vol v d by auto
    have nxt: "next_cluster v d (cs ! k) = (if Suc k < length cs then (FAT_SUCCESS, Some (cs ! Suc k))
        else (FAT_ERROR_END_OF_CHAIN, Some 0))" by (rule fat_chain_step [OF ch(1) k])
    let ?st = "st\<lparr>d_fs := (d_fs st)\<lparr>sd := w'\<rparr>, d_iter := ?it\<lparr>it_current_cluster := cs ! Suc k,
      current_sector_in_cluster := 0\<rparr>\<rparr>"
    have eq: "next_dir_sector dev st =
        (if Suc k < length cs then read_dir_sector dev ?st
         else Some (Some FAT_ERROR_END_OF_CHAIN, st\<lparr>d_iter := ?it, d_fs := (d_fs st)\<lparr>sd := w'\<rparr>\<rparr>))"
      using False uj v it w'(1) nxt unfolding next_dir_sector_def step Let_def
      by (simp add: word_le_nat_alt)
    have pk: "p = (Suc k * ?n + 0) * 16" using last by (simp add: p_def)
    show ?thesis
    proof (cases "Suc k < length cs")
      case True
      obtain st' where "read_dir_sector dev ?st = Some (None, st')" "dir_same ?st st'"
        "iter_loaded v d cs (d_iter st') p"
        using read_dir_sector_at [of ?st v d cs "Suc k" 0] w' v d ch True n unfolding pk by auto
      moreover have "p < length cs * (?n * 16)"
        using entry_index_bound [OF True n, of 0] by (simp only: pk) simp
      ultimately show ?thesis using eq True w' d by (auto simp: dir_same_def fs_same_def)
    next
      case False
      then have "Suc k = length cs" using k by simp
      then have "p = length cs * (?n * 16)" unfolding pk by (simp only: add_0_right mult.assoc)
      then show ?thesis using eq False w' d by (auto simp: dir_same_def fs_same_def)
    qed
  qed
qed

lemma load_dir_sector_spec:
  assumes rdy: "ready (sd (d_fs st))" and v: "v = g_fat32_volume_info (d_fs st)" and vol: "vol_ok v"
    and d: "d = disk (sd (d_fs st))" and at: "iter_at v d cs (d_iter st) p"
  shows "\<exists>r st'. load_dir_sector dev st = Some (r, st') \<and> dir_same st st' \<and>
    (if p < length cs * (unat (sectors_per_cluster v) * 16)
     then r = None \<and> iter_loaded v d cs (d_iter st') p
     else r = Some FAT_ERROR_END_OF_CHAIN \<and> p = length cs * (unat (sectors_per_cluster v) * 16))"
proof -
  let ?n = "unat (sectors_per_cluster v)" and ?it = "d_iter st"
  have ch: "fat_chain v d cs" "list_all (readable v d) cs" using at by (simp_all add: iter_at_def)
  have n: "0 < ?n" "?n < 256" using vol by (simp_all add: vol_ok_def unat_gt_0)
  have same0: "dir_same st st" using rdy by (simp add: dir_same_def fs_same_refl)
  note eps = entries_per_sector [OF vol]
  show ?thesis
  proof (cases "sector_buffer_valid ?it")
    case False
    then have it: "it_current_cluster ?it = hd cs" "current_sector_in_cluster ?it = - 1" "p = 0"
      using at by (simp_all add: iter_at_def)
    let ?st = "st\<lparr>d_iter := ?it\<lparr>current_sector_in_cluster := 0, current_entry_in_sector := 0\<rparr>\<rparr>"
    have cs: "cs \<noteq> []" "0 < length cs" "hd cs = cs ! 0" using ch(1) by (cases cs; simp)+
    have "load_dir_sector dev st = read_dir_sector dev ?st"
      using False it n(1) v vol by (simp add: load_dir_sector_def next_dir_sector_def Let_def vol_ok_def
        word_le_nat_alt)
    moreover obtain st' where "read_dir_sector dev ?st = Some (None, st')" "dir_same ?st st'"
      "iter_loaded v d cs (d_iter st') 0"
      using read_dir_sector_at [of ?st v d cs 0 0] rdy v d ch n cs it by auto
    ultimately show ?thesis using it cs n by (auto simp: dir_same_def fs_same_def)
  next
    case True
    then obtain k j i where it: "k < length cs" "j < ?n" "i \<le> 16" "it_current_cluster ?it = cs ! k"
      "current_sector_in_cluster ?it = of_nat j" "current_entry_in_sector ?it = of_nat i"
      "d (fatClusterToLba v (cs ! k) + of_nat j) = Some (sector_buffer ?it)" "p = (k * ?n + j) * 16 + i"
      using at by (auto simp: iter_at_def)
    show ?thesis
    proof (cases "i < 16")
      case True
      then have i16: "(of_nat i :: u16) < 16" "\<not> 16 \<le> (ucast (of_nat i :: u16) :: u32)"
        by (simp_all add: word_less_nat_alt word_le_nat_alt)
      then have "load_dir_sector dev st = Some (None, st)"
        using \<open>sector_buffer_valid ?it\<close> it(6) eps v by (simp add: load_dir_sector_def Let_def)
      then show ?thesis
        using same0 at \<open>sector_buffer_valid ?it\<close> entry_index_bound [OF it(1,2) True] it(6,8) i16
        by (auto simp: iter_loaded_def)
    next
      case False
      then have p: "p = (k * ?n + Suc j) * 16" using it(3,8) by simp
      have "(16 :: u32) \<le> ucast (current_entry_in_sector ?it)" using False it(3,6) by simp
      then have load: "load_dir_sector dev st = next_dir_sector dev st"
        using eps v by (simp add: load_dir_sector_def Let_def)
      show ?thesis unfolding load
        using next_dir_sector_spec [OF rdy v vol d ch it(1,2,4,5)] unfolding p by simp
    qed
  qed
qed

lemma iter_loaded_entry:
  assumes "iter_loaded v d cs it p" "sectors_512 d"
  shows "unat (current_entry_in_sector it) * 32 + 32 \<le> length (sector_buffer it)"
    "take 32 (drop (unat (current_entry_in_sector it) * 32) (sector_buffer it)) =
      entry_at (file_bytes v d cs) p"
    "iter_at v d cs (it\<lparr>current_entry_in_sector := current_entry_in_sector it + 1,
      lfn_checksum := ck\<rparr>) (Suc p)"
proof -
  let ?n = "unat (sectors_per_cluster v)"
  obtain k j i where it: "fat_chain v d cs" "list_all (readable v d) cs" "k < length cs" "j < ?n"
    "i \<le> 16" "sector_buffer_valid it" "it_current_cluster it = cs ! k"
    "current_sector_in_cluster it = of_nat j" "current_entry_in_sector it = of_nat i"
    "d (fatClusterToLba v (cs ! k) + of_nat j) = Some (sector_buffer it)" "p = (k * ?n + j) * 16 + i"
    "(of_nat i :: u16) < 16"
    using assms(1) by (auto simp: iter_loaded_def iter_at_def)
  have i: "i < 16" "unat (of_nat i :: u16) = i" using it(5,12) by (simp_all add: word_less_nat_alt)
  have len: "length (sector_buffer it) = 512" using it(10) assms(2) by (auto simp: sectors_512_def)
  then show "unat (current_entry_in_sector it) * 32 + 32 \<le> length (sector_buffer it)"
    using i it(9) by simp
  have off: "(j * 512 + i * 32) div 512 = j" "(j * 512 + i * 32) mod 512 = i * 32"
    using i by (simp_all add: div_mult_self3)
  have "Suc j * 512 \<le> ?n * 512" using it(4) by (intro mult_le_mono1) simp
  then have lt: "j * 512 + i * 32 < ?n * 512" using i by simp
  obtain bs where "d (fatClusterToLba v (cs ! k) + of_nat ((j * 512 + i * 32) div 512)) = Some bs"
    "take 32 (drop (k * (?n * 512) + (j * 512 + i * 32)) (file_bytes v d cs)) =
      take 32 (drop ((j * 512 + i * 32) mod 512) bs)"
    using file_slice [OF _ assms(2) it(3) lt, of 32] it(2) i off by (auto simp: list_all_iff)
  moreover have "p * 32 = k * (?n * 512) + (j * 512 + i * 32)"
    using it(11) by (simp add: algebra_simps)
  ultimately show "take 32 (drop (unat (current_entry_in_sector it) * 32) (sector_buffer it)) =
      entry_at (file_bytes v d cs) p"
    using it(9,10) i by (simp add: entry_at_def off)
  show "iter_at v d cs (it\<lparr>current_entry_in_sector := current_entry_in_sector it + 1,
      lfn_checksum := ck\<rparr>) (Suc p)"
    unfolding iter_at_def
    by (simp add: it(1,2,6), rule exI [of _ k], simp add: it(3), rule exI [of _ j], simp add: it(4),
      rule exI [of _ "Suc i"]) (use it i in simp)
qed

text \<open>One entry: the step of the scan.\<close>

lemma process_entry_spec:
  assumes ld: "iter_loaded v d cs (d_iter st) p" and d: "sectors_512 d"
    and e: "e = entry_at (file_bytes v d cs) p"
  shows "process_entry st =
     (let it = (d_iter st)\<lparr>current_entry_in_sector := current_entry_in_sector (d_iter st) + 1\<rparr> in
      if e ! 0 = 0 then Some (Some FAT_ERROR_NO_MORE_ENTRIES, st\<lparr>d_iter := it\<rparr>)
      else if e ! 0 = 0xE5 then Some (None, st\<lparr>d_iter := it\<rparr>)
      else if is_lfn_entry e then do {
        (ck, lfn) \<leftarrow> process_lfn e (lfn_checksum (d_iter st)) (d_lfn st);
        Some (None, st\<lparr>d_iter := it\<lparr>lfn_checksum := ck\<rparr>, d_lfn := lfn\<rparr>)
      }
      else do {
        (r, lfn, info) \<leftarrow> process_sfn e (lfn_checksum (d_iter st)) (d_lfn st) (d_info st);
        Some (r, st\<lparr>d_iter := it\<lparr>lfn_checksum := 0\<rparr>, d_lfn := lfn, d_info := info\<rparr>)
      })"
  using iter_loaded_entry(1,2) [OF ld d] unfolding e by (simp add: process_entry_def Let_def)

text \<open>The loop is the scan.\<close>

definition dir_result ::
  "fat32_volume_info_t \<Rightarrow> u32 list \<Rightarrow> nat \<Rightarrow> 'w dir_state \<Rightarrow>
    (fat_error_t \<times> nat \<times> u8 \<times> lfn_locals \<times> fat_file_info_t) option \<Rightarrow>
    (fat_error_t \<times> 'w dir_state) option \<Rightarrow> bool" where
  "dir_result v cs p st sc res \<longleftrightarrow>
     (case sc of
        None \<Rightarrow> res = None
      | Some (e, n, ck, lfn, info) \<Rightarrow> \<exists>st'. res = Some (e, st') \<and> d_info st' = info \<and> d_lfn st' = lfn \<and>
          lfn_checksum (d_iter st') = ck \<and> fs_same (d_fs st) (d_fs st') \<and>
          (e \<noteq> FAT_ERROR_END_OF_CHAIN \<longrightarrow> iter_at v (disk (sd (d_fs st))) cs (d_iter st') (p + n)))"

lemma dir_result_later:
  assumes "dir_result v cs (Suc p) st' sc res" "fs_same (d_fs st) (d_fs st')"
  shows "dir_result v cs p st (map_option (\<lambda>(r, n, z). (r, Suc n, z)) sc) res"
  using assms by (auto simp: dir_result_def fs_same_def split: option.splits)

lemma dir_loop_refines:
  assumes "ready (sd (d_fs st))" "v = g_fat32_volume_info (d_fs st)" "vol_ok v"
    "d = disk (sd (d_fs st))" "iter_at v d cs (d_iter st) p" "es = drop p (dir_entries v d cs)"
  shows "dir_result v cs p st
    (scan_entries es (lfn_checksum (d_iter st)) (d_lfn st) (d_info st)) (dir_loop dev st)"
  using assms
proof (induction es arbitrary: p st)
  case Nil
  let ?t = "length cs * (unat (sectors_per_cluster v) * 16)"
  have "\<not> p < ?t" using Nil.prems(6) by (simp add: dir_entries_def)
  then obtain st' where "load_dir_sector dev st = Some (Some FAT_ERROR_END_OF_CHAIN, st')"
    "dir_same st st'" using load_dir_sector_spec [OF Nil.prems(1-5)] by auto
  then show ?case
    by (subst dir_loop.simps) (auto simp: dir_step_def dir_result_def dir_same_def)
next
  case (Cons e es)
  let ?t = "length cs * (unat (sectors_per_cluster v) * 16)"
  have p: "p < ?t"
  proof (rule ccontr)
    assume "\<not> p < ?t"
    then show False using Cons.prems(6) by (simp add: dir_entries_def)
  qed
  then obtain st1 where ld: "load_dir_sector dev st = Some (None, st1)" "dir_same st st1"
    "iter_loaded v d cs (d_iter st1) p" using load_dir_sector_spec [OF Cons.prems(1-5)] by auto
  have sec: "sectors_512 d" using ready_sectors [OF Cons.prems(1)] Cons.prems(4) by simp
  have "drop p (dir_entries v d cs) = dir_entries v d cs ! p # drop (Suc p) (dir_entries v d cs)"
    using p by (intro Cons_nth_drop_Suc [symmetric]) (simp add: dir_entries_def)
  then have e: "e = entry_at (file_bytes v d cs) p" and es: "es = drop (Suc p) (dir_entries v d cs)"
    using Cons.prems(6) p by (simp_all add: dir_entries_def)
  define it where "it = (d_iter st1)\<lparr>current_entry_in_sector := current_entry_in_sector (d_iter st1) + 1\<rparr>"
  have nxt: "iter_at v d cs (it\<lparr>lfn_checksum := ck\<rparr>) (Suc p)" for ck
    using iter_loaded_entry(3) [OF ld(3) sec] by (simp add: it_def)
  have sm: "d_info st1 = d_info st" "d_lfn st1 = d_lfn st"
    "lfn_checksum (d_iter st1) = lfn_checksum (d_iter st)" "fs_same (d_fs st) (d_fs st1)"
    using ld(2) by (simp_all add: dir_same_def)
  have itck: "it\<lparr>lfn_checksum := lfn_checksum (d_iter st)\<rparr> = it" by (simp add: it_def sm(3) [symmetric])
  have nxt0: "iter_at v d cs it (Suc p)" using nxt [of "lfn_checksum (d_iter st)"] itck by simp
  have rest: "dir_result v cs p st
      (map_option (\<lambda>(r, n, z). (r, Suc n, z)) (scan_entries es ck lfn info)) (dir_loop dev st2)"
    if "d_iter st2 = it\<lparr>lfn_checksum := ck\<rparr>" "d_lfn st2 = lfn" "d_info st2 = info" "d_fs st2 = d_fs st1"
    for st2 ck lfn info
  proof -
    have "dir_result v cs (Suc p) st2
        (scan_entries es (lfn_checksum (d_iter st2)) (d_lfn st2) (d_info st2)) (dir_loop dev st2)"
      using that nxt es Cons.prems(2-4) sm(4) by (intro Cons.IH) (auto simp: fs_same_def)
    then show ?thesis using that sm(4) by (intro dir_result_later [where st' = st2]) auto
  qed
  note pe = process_entry_spec [OF ld(3) sec e, folded it_def, unfolded Let_def sm(1-3)]
  have loop: "dir_loop dev st = do {
      (r, st') \<leftarrow> process_entry st1; case r of Some e \<Rightarrow> Some (e, st') | None \<Rightarrow> dir_loop dev st' }"
    by (subst dir_loop.simps) (simp add: dir_step_def ld(1))
  show ?case
  proof (cases "e ! 0 = 0 \<or> e ! 0 = 0xE5")
    case True
    then show ?thesis
    proof
      assume "e ! 0 = 0"
      then show ?thesis using nxt0 sm Cons.prems(4)
        by (simp add: loop pe dir_result_def it_def)
    next
      assume "e ! 0 = 0xE5"
      then show ?thesis
        using rest [of "st1\<lparr>d_iter := it\<rparr>" "lfn_checksum (d_iter st)"] sm itck
        by (simp add: loop pe)
    qed
  next
    case False
    show ?thesis
    proof (cases "is_lfn_entry e")
      case True
      show ?thesis
      proof (cases "process_lfn e (lfn_checksum (d_iter st)) (d_lfn st)")
        case None
        then show ?thesis using False True by (simp add: loop pe dir_result_def)
      next
        case (Some x)
        then show ?thesis using False True rest by (cases x) (simp add: loop pe sm)
      qed
    next
      case nolfn: False
      show ?thesis
      proof (cases "process_sfn e (lfn_checksum (d_iter st)) (d_lfn st) (d_info st)")
        case None
        then show ?thesis using False nolfn by (simp add: loop pe dir_result_def)
      next
        case (Some x)
        obtain r lfn' info' where x: "x = (r, lfn', info')" by (cases x)
        show ?thesis
        proof (cases r)
          case None
          then show ?thesis using False nolfn Some x rest by (simp add: loop pe)
        next
          case (Some y)
          then show ?thesis
            using False nolfn \<open>process_sfn _ _ _ _ = Some x\<close> x nxt [of 0] sm(4) Cons.prems(4)
            by (simp add: loop pe dir_result_def)
        qed
      qed
    qed
  qed
qed

end

end
