(* ===== verification/Fat_Names.thy ===== *)
theory Fat_Names
  imports Fat_Scan
begin

unbundle bit_operations_syntax

text \<open>
  File names.  The on-disk encodings of short and long names are written down as functions
  (\<open>sfn_encode\<close>, \<open>lfn_entry\<close>, \<open>lfn_sequence\<close>), and the driver's decoding is shown to invert
  them: \<open>fat_sfn_to_string\<close> for 8.3 names, and for long names the whole way through the scan of
  the entries of one file.
\<close>

section \<open>Short names\<close>

definition name_char :: "u8 \<Rightarrow> bool" where
  "name_char c \<longleftrightarrow> c \<noteq> 0 \<and> c \<noteq> 0x20"

definition sfn_encode :: "u8 list \<Rightarrow> u8 list \<Rightarrow> u8 list" where
  "sfn_encode base ext =
     base @ replicate (8 - length base) 0x20 @ ext @ replicate (3 - length ext) 0x20"

definition sfn_display :: "u8 list \<Rightarrow> u8 list \<Rightarrow> u8 list" where
  "sfn_display base ext = base @ (if ext = [] then [] else 0x2E # ext)"

lemma takeWhile_padded:
  "(\<And>c. c \<in> set xs \<Longrightarrow> c \<noteq> 0x20) \<Longrightarrow>
     takeWhile (\<lambda>c. c \<noteq> 0x20) (xs @ replicate n (0x20 :: u8)) = xs"
  by (cases n) simp_all

lemma sfn_to_string_encode:
  assumes "length base \<le> 8" "length ext \<le> 3" "list_all name_char base" "list_all name_char ext"
  shows "fat_sfn_to_string (sfn_encode base ext) = sfn_display base ext @ [0]"
proof -
  let ?n = "sfn_encode base ext"
  have 8: "take 8 ?n = base @ replicate (8 - length base) 0x20"
    using assms(1) by (simp add: sfn_encode_def)
  have 3: "drop 8 ?n = ext @ replicate (3 - length ext) 0x20"
    using assms(1) by (simp add: sfn_encode_def)
  have "?n ! 8 = (if ext = [] then 0x20 else hd ext)"
    using assms(1) by (cases ext) (simp_all add: sfn_encode_def nth_append)
  moreover have "takeWhile (\<lambda>c. c \<noteq> 0x20) (take 8 ?n) = base"
    "takeWhile (\<lambda>c. c \<noteq> 0x20) (take 3 (drop 8 ?n)) = ext"
    unfolding 8 3 using assms by (auto simp: takeWhile_padded list_all_iff name_char_def)
  ultimately show ?thesis
    using assms(4) by (cases ext) (auto simp: fat_sfn_to_string_def sfn_display_def name_char_def)
qed

text \<open>Whatever bytes the entry holds, the result is short and terminated.\<close>

lemma length_fat_sfn_to_string: "length (fat_sfn_to_string n) \<le> 13"
proof -
  have len: "length (takeWhile P (take k xs)) \<le> k" for P k and xs :: "u8 list"
    by (rule order_trans [OF length_takeWhile_le]) simp
  show ?thesis using len [of "\<lambda>c. c \<noteq> 0x20" 8 n] len [of "\<lambda>c. c \<noteq> 0x20" 3 "drop 8 n"]
    by (simp add: fat_sfn_to_string_def)
qed

lemma bit128: "bit (128 :: u8) n \<longleftrightarrow> n = 7"
proof -
  have "(128 :: u8) = 2 ^ 7" by simp
  then show ?thesis by (simp only: bit_exp_iff) auto
qed

lemma checksum_step:
  "((if s AND 1 \<noteq> 0 then 0x80 else 0) + drop_bit 1 s :: u8) = word_rotr 1 s"
proof -
  define t :: "u8" where "t = (if bit s 0 then 0x80 else 0)"
  have b: "bit t n \<longleftrightarrow> n = 7 \<and> bit s 0" for n using bit128 [of n] by (auto simp: t_def)
  have hi: "\<not> bit s n" if "8 \<le> n" for n using bit_imp_le_length [of s n] that by auto
  have "t AND drop_bit 1 s = 0"
    by (rule bit_word_eqI) (auto simp: bit_simps b hi)
  then have "t + drop_bit 1 s = t OR drop_bit 1 s" by (rule disjunctive_add_eq_or)
  also have "\<dots> = word_rotr 1 s"
  proof (rule bit_word_eqI)
    fix n assume "n < LENGTH(8)"
    then show "bit (t OR drop_bit 1 s) n \<longleftrightarrow> bit (word_rotr 1 s) n"
      by (cases "n = 7") (auto simp: bit_simps b bit_word_rotr_iff hi)
  qed
  finally show ?thesis by (simp add: t_def and_one_eq odd_iff_mod_2_eq_one bit_0)
qed

lemma checksum_rotate: "fat_sfn_checksum n = foldl (\<lambda>s c. word_rotr 1 s + c) 0 (take 11 n)"
  unfolding fat_sfn_checksum_def checksum_step ..

section \<open>Long name entries\<close>

definition lfn_char :: "u8 \<Rightarrow> bool" where
  "lfn_char c \<longleftrightarrow> c \<noteq> 0 \<and> c < 0x80"

definition lfn_pad :: "u8 list \<Rightarrow> u16 list" where
  "lfn_pad part = map ucast part @ take (13 - length part) (0 # replicate 12 0xFFFF)"

definition lfn_fields :: "u8 \<Rightarrow> u8 \<Rightarrow> u8 list \<Rightarrow> fat_lfn_dir_entry_t" where
  "lfn_fields ord ck part = \<lparr>LDIR_Ord = ord, LDIR_Name1 = take 5 (lfn_pad part), LDIR_Attr = 0x0F, LDIR_Type = 0,
     LDIR_Chksum = ck, LDIR_Name2 = take 6 (drop 5 (lfn_pad part)), LDIR_FstClusLO = 0,
     LDIR_Name3 = take 2 (drop 11 (lfn_pad part))\<rparr>"

definition lfn_entry :: "u8 \<Rightarrow> u8 \<Rightarrow> u8 list \<Rightarrow> u8 list" where
  "lfn_entry ord ck part = lfn_bytes (lfn_fields ord ck part)"

lemma length_lfn_pad [simp]: "length part \<le> 13 \<Longrightarrow> length (lfn_pad part) = 13"
  by (cases part) (simp_all add: lfn_pad_def min_def)

lemma lfn_chars_stop:
  assumes "list_all lfn_char cs" "unat cur + length cs < 256" "set ss \<subseteq> {0, 0xFFFF}"
  shows "lfn_chars (map ucast cs @ ss) 256 cur = cs"
  using assms(1,2)
proof (induction cs arbitrary: cur)
  case Nil
  then show ?case using assms(3) by (cases ss) auto
next
  case (Cons c cs)
  have cur: "unat (cur + 1) = unat cur + 1" using Cons.prems(2) by (simp add: unat_add_u32)
  have c: "c \<noteq> 0" "unat c < 128" using Cons.prems(1) by (simp_all add: lfn_char_def word_less_nat_alt)
  have u: "unat (ucast c :: u16) = unat c"
    by (simp add: unsigned_ucast_eq take_bit_nat_eq_self order_less_trans [OF unat_u8_lt])
  have "(ucast c :: u16) \<noteq> 0" "(ucast c :: u16) \<noteq> 0xFFFF" "(ucast c :: u16) < 0x80"
    using c u by (auto simp: word_unat_eq_iff word_less_nat_alt)
  moreover have "(ucast (ucast c :: u16) :: u8) = c" by (rule bit_word_eqI) (simp add: bit_simps)
  moreover have "cur < 255" using Cons.prems(2) by (simp add: word_less_nat_alt)
  ultimately show ?case using Cons.IH [of "cur + 1"] Cons.prems cur by simp
qed

text \<open>A run of units of the padded part decodes to the characters of that run.\<close>

lemma lfn_chars_run:
  assumes "list_all lfn_char part" "length part \<le> 13" "unat cur + n < 256"
  shows "lfn_chars (take n (drop k (lfn_pad part))) 256 cur = take n (drop k part)"
proof -
  let ?s = "take (13 - length part) (0 # replicate 12 0xFFFF :: u16 list)"
  have "take n (drop k (lfn_pad part)) = map ucast (take n (drop k part)) @
      take (n - (length part - k)) (drop (k - length part) ?s)"
    by (simp add: lfn_pad_def take_map drop_map)
  moreover have "set (take (n - (length part - k)) (drop (k - length part) ?s)) \<subseteq> {0, 0xFFFF}"
    by (rule order_trans [OF set_take_subset], rule order_trans [OF set_drop_subset],
      rule order_trans [OF set_take_subset]) auto
  moreover have "list_all lfn_char (take n (drop k part))"
    using assms(1) by (auto simp: list_all_iff dest: in_set_takeD in_set_dropD)
  moreover have "unat cur + length (take n (drop k part)) < 256" using assms(3) by simp
  ultimately show ?thesis using lfn_chars_stop by simp
qed

lemma overwrite_overwrite:
  assumes "overwrite buf i (xs @ [z]) = Some buf'"
  shows "overwrite buf' (i + length xs) (ys @ [0]) = overwrite buf i (xs @ ys @ [0])"
  using assms by (auto simp: overwrite_def min_def add_ac split: if_splits)

text \<open>A long-name entry writes its part, terminated, into its row of the buffer.\<close>

lemma lfn_entry_view:
  assumes "length part \<le> 13"
  shows "entry_lfn (lfn_entry ord ck part) = lfn_fields ord ck part" "length (lfn_entry ord ck part) = 32"
  using assms lfn_of_bytes [of "lfn_fields ord ck part"] by (simp_all add: lfn_entry_def lfn_fields_def)

lemma lfn_entry_fields:
  assumes "length part \<le> 13"
  shows "lfn_entry ord ck part ! 0 = ord" "lfn_entry ord ck part ! 11 = 0x0F" "is_lfn_entry (lfn_entry ord ck part)"
  using assms
  by (simp_all add: lfn_entry_def lfn_bytes_def lfn_fields_def nth_append is_lfn_entry_def FAT_ATTR_LFN_def FAT_ATTR_VOLUME_ID_def)

lemma lfn_writes:
  assumes part: "list_all lfn_char part" "length part \<le> 13"
    and fit: "base + length part < length buf"
  shows "\<exists>buf' n1 n2 n3 b1 b2. overwrite buf base (part @ [0]) = Some buf' \<and>
    fat_lfn_to_utf8 (unit_bytes (take 5 (lfn_pad part))) buf base 256 0 = Some (n1, b1) \<and>
    fat_lfn_to_utf8 (unit_bytes (take 6 (drop 5 (lfn_pad part)))) b1 base 256 n1 = Some (n2, b2) \<and>
    fat_lfn_to_utf8 (unit_bytes (take 2 (drop 11 (lfn_pad part)))) b2 base 256 (n1 + n2) = Some (n3, buf')"
proof -
  define p1 p2 p3 where "p1 = take 5 part" and "p2 = take 6 (drop 5 part)"
    and "p3 = take 2 (drop 11 part)"
  note p = p1_def p2_def p3_def
  have "drop 5 part = p2 @ drop 11 part" using append_take_drop_id [of 6 "drop 5 part"] by (simp add: p)
  moreover have "p3 = drop 11 part" using part(2) by (simp add: p)
  ultimately have all: "p1 @ p2 @ p3 = part" using append_take_drop_id [of 5 part] by (simp add: p)
  let ?n1 = "of_nat (length p1) :: u32" and ?n2 = "of_nat (length p2) :: u32"
  have l: "length p1 \<le> 5" "length p2 \<le> 6" by (simp_all add: p)
  have u: "unat ?n1 = length p1" "unat (?n1 + ?n2) = length p1 + length p2"
    using l by (simp_all add: unat_add_u32)
  have fits: "base + (length p1 + length p2 + length p3) < length buf"
    using fit unfolding all [symmetric] by simp
  obtain b1 where b1: "overwrite buf base (p1 @ [0]) = Some b1"
    using fits overwrite_Some [of base "p1 @ [0]" buf] by auto
  obtain b2 where b2: "overwrite buf base ((p1 @ p2) @ [0]) = Some b2"
    using fits overwrite_Some [of base "(p1 @ p2) @ [0]" buf] by auto
  obtain b3 where b3: "overwrite buf base ((p1 @ p2) @ p3 @ [0]) = Some b3"
    using fits overwrite_Some [of base "(p1 @ p2) @ p3 @ [0]" buf] by auto
  have "fat_lfn_to_utf8 (unit_bytes (take 5 (lfn_pad part))) buf base 256 0 = Some (?n1, b1)"
    using lfn_chars_run [OF part, of 0 5 0] b1 by (simp add: fat_lfn_to_utf8_def p(1))
  moreover have "fat_lfn_to_utf8 (unit_bytes (take 6 (drop 5 (lfn_pad part)))) b1 base 256 ?n1 =
      Some (?n2, b2)"
    using lfn_chars_run [OF part, of ?n1 6 5, folded p(2)] overwrite_overwrite [OF b1, of p2] b2 u l
    by (simp add: fat_lfn_to_utf8_def)
  moreover have "fat_lfn_to_utf8 (unit_bytes (take 2 (drop 11 (lfn_pad part)))) b2 base 256 (?n1 + ?n2) =
      Some (of_nat (length p3), b3)"
    using lfn_chars_run [OF part, of "?n1 + ?n2" 2 11, folded p(3)] overwrite_overwrite [OF b2, of p3]
      b3 u l by (simp add: fat_lfn_to_utf8_def)
  moreover have "overwrite buf base (part @ [0]) = Some b3" using b3 all [symmetric] by simp
  ultimately show ?thesis by blast
qed

section \<open>Sequences of long name entries\<close>

text \<open>The order byte of part \<open>k\<close> (from 0) of \<open>n\<close>: its number, marked in the entry stored first.\<close>

definition lfn_order :: "nat \<Rightarrow> nat \<Rightarrow> u8" where
  "lfn_order n k = of_nat (Suc k) OR (if Suc k = n then 0x40 else 0)"

definition lfn_sequence :: "u8 \<Rightarrow> u8 list list \<Rightarrow> u8 list list" where
  "lfn_sequence ck parts =
     map (\<lambda>k. lfn_entry (lfn_order (length parts) k) ck (parts ! k)) (rev [0..<length parts])"

lemma lfn_order_values:
  assumes "k < 20"
  shows "lfn_order n k AND NOT 0x40 = of_nat (Suc k)" "lfn_order n k AND 0x40 \<noteq> 0 \<longleftrightarrow> Suc k = n"
    "lfn_order n k \<noteq> 0" "lfn_order n k \<noteq> 0xE5" "unat (of_nat (Suc k) - 1 :: u8) = k"
    "(of_nat (Suc k) :: u8) \<noteq> 0" "\<not> 20 < (of_nat (Suc k) :: u8)"
proof -
  have k: "k \<in> {0, 1, 2, 3, 4, 5, 6, 7, 8, 9, 10, 11, 12, 13, 14, 15, 16, 17, 18, 19}"
    using assms unfolding insert_iff empty_iff by presburger
  then show "lfn_order n k AND NOT 0x40 = of_nat (Suc k)"
    "lfn_order n k AND 0x40 \<noteq> 0 \<longleftrightarrow> Suc k = n" "lfn_order n k \<noteq> 0" "lfn_order n k \<noteq> 0xE5"
    by (auto simp: lfn_order_def)
  from k show "unat (of_nat (Suc k) - 1 :: u8) = k" "(of_nat (Suc k) :: u8) \<noteq> 0"
    "\<not> 20 < (of_nat (Suc k) :: u8)" by auto
qed

lemma process_lfn_entry:
  assumes "k < 20" "list_all lfn_char part" "length part \<le> 13" "length (lfn_buffer lfn) = 800"
    "Suc k = n \<or> ck0 = ck" "ck \<noteq> 0"
  obtains buf' where "overwrite (lfn_buffer lfn) (k * 40) (part @ [0]) = Some buf'"
    "process_lfn (lfn_entry (lfn_order n k) ck part) ck0 lfn =
      Some (ck, \<lparr>lfn_buffer = buf', lfn_parts_found = lfn_parts_found lfn + 1\<rparr>)"
proof -
  have "k * 40 + length part < length (lfn_buffer lfn)" using assms(1,3,4) by simp
  from lfn_writes [OF assms(2,3) this] obtain buf' n1 n2 n3 b1 b2 where
    w: "overwrite (lfn_buffer lfn) (k * 40) (part @ [0]) = Some buf'"
    "fat_lfn_to_utf8 (unit_bytes (take 5 (lfn_pad part))) (lfn_buffer lfn) (k * 40) 256 0 = Some (n1, b1)"
    "fat_lfn_to_utf8 (unit_bytes (take 6 (drop 5 (lfn_pad part)))) b1 (k * 40) 256 n1 = Some (n2, b2)"
    "fat_lfn_to_utf8 (unit_bytes (take 2 (drop 11 (lfn_pad part)))) b2 (k * 40) 256 (n1 + n2) =
      Some (n3, buf')" by blast
  note fields = lfn_entry_view(1) [OF assms(3)]
  note order = lfn_order_values [OF assms(1)]
  have "process_lfn (lfn_entry (lfn_order n k) ck part) ck0 lfn =
      Some (ck, \<lparr>lfn_buffer = buf', lfn_parts_found = lfn_parts_found lfn + 1\<rparr>)"
    unfolding process_lfn_def Let_def fields lfn_fields_def fat_lfn_dir_entry_t.simps order
    using order(2) [of n] assms(5,6) w(2-4)
    by (auto simp: order(5-7) MAX_LFN_PARTS_def MAX_FILENAME_LEN_def MAX_UTF8_CHARS_PER_LFN_PART_def
      simp del: of_nat_Suc)
  then show thesis using that w(1) by blast
qed

text \<open>The rows from \<open>j\<close> on hold the parts.\<close>

definition rows_hold :: "u8 list \<Rightarrow> u8 list list \<Rightarrow> nat \<Rightarrow> bool" where
  "rows_hold buf parts j \<longleftrightarrow> length buf = 800 \<and>
     (\<forall>k. j \<le> k \<longrightarrow> k < length parts \<longrightarrow> cstr (drop (k * 40) buf) (parts ! k))"

lemma rows_hold_write:
  assumes "rows_hold buf parts (Suc k)" "k < 20" "length part \<le> 13" "list_all lfn_char part"
    "part = parts ! k" "overwrite buf (k * 40) (part @ [0]) = Some buf'"
  shows "rows_hold buf' parts k"
proof -
  have b: "buf' = take (k * 40) buf @ part @ 0 # drop (k * 40 + Suc (length part)) buf"
    "length buf = 800" "length buf' = 800"
    using assms(1,6) by (auto simp: overwrite_def rows_hold_def split: if_splits)
  have "cstr (drop (i * 40) buf') (parts ! i)" if "k \<le> i" "i < length parts" for i
  proof (cases "i = k")
    case True
    have "0 \<notin> set part" using assms(4) by (auto simp: list_all_iff lfn_char_def)
    then show ?thesis using True assms(2,5) b by (simp add: cstr_def)
  next
    case False
    then have "k * 40 + 40 \<le> i * 40" using that(1) mult_le_mono1 [of "Suc k" i 40] by simp
    then have "drop (i * 40) buf' = drop (i * 40) buf"
      using drop_overwrite [OF assms(6), of "i * 40"] assms(3) by simp
    then show ?thesis using assms(1) that False by (simp add: rows_hold_def)
  qed
  then show ?thesis using b(3) by (simp add: rows_hold_def)
qed

definition parts_ok :: "u8 list list \<Rightarrow> bool" where
  "parts_ok parts \<longleftrightarrow> length parts \<le> 20 \<and>
     list_all (\<lambda>p. p \<noteq> [] \<and> length p \<le> 13 \<and> list_all lfn_char p) parts"

text \<open>The rows may hold more than the \<open>n\<close> parts of the sequence: \<open>rows\<close> lists them all.\<close>

lemma scan_lfn_step:
  assumes "parts_ok rows" "k < n" "n \<le> length rows" "Suc k = n \<or> ck0 = ck" "ck \<noteq> 0"
    "rows_hold (lfn_buffer lfn) rows (Suc k)"
  obtains buf' where "rows_hold buf' rows k"
    "scan_entries (lfn_entry (lfn_order n k) ck (rows ! k) # es) ck0 lfn info =
      map_option (\<lambda>(r, n, z). (r, Suc n, z)) (scan_entries es ck
        \<lparr>lfn_buffer = buf', lfn_parts_found = lfn_parts_found lfn + 1\<rparr> info)"
proof -
  have p: "k < 20" "list_all lfn_char (rows ! k)" "length (rows ! k) \<le> 13"
    using assms(1-3) by (auto simp: parts_ok_def list_all_length)
  obtain buf' where b: "overwrite (lfn_buffer lfn) (k * 40) (rows ! k @ [0]) = Some buf'"
    "process_lfn (lfn_entry (lfn_order n k) ck (rows ! k)) ck0 lfn =
      Some (ck, \<lparr>lfn_buffer = buf', lfn_parts_found = lfn_parts_found lfn + 1\<rparr>)"
    using process_lfn_entry [OF p, of lfn n ck0 ck] assms(4-6) by (auto simp: rows_hold_def)
  have "rows_hold buf' rows k" by (rule rows_hold_write [OF assms(6) p(1,3,2) refl b(1)])
  then show thesis
    using that b(2) lfn_entry_fields(1,3) [OF p(3)] lfn_order_values(3,4) [OF p(1)] by simp
qed

lemma scan_lfn_sequence:
  assumes "parts_ok rows" "n \<le> length rows" "j \<le> n" "ck \<noteq> 0" "j = n \<or> ck0 = ck"
    "rows_hold (lfn_buffer lfn) rows j"
  shows "\<exists>buf' ck'. rows_hold buf' rows 0 \<and> (0 < j \<or> ck0 = ck \<longrightarrow> ck' = ck) \<and>
    scan_entries (map (\<lambda>k. lfn_entry (lfn_order n k) ck (rows ! k)) (rev [0..<j]) @ es) ck0 lfn info =
      map_option (\<lambda>(r, n, z). (r, j + n, z)) (scan_entries es ck'
        \<lparr>lfn_buffer = buf', lfn_parts_found = lfn_parts_found lfn + of_nat j\<rparr> info)"
  using assms(3,5,6)
proof (induction j arbitrary: ck0 lfn)
  case 0
  have lfn: "\<lparr>lfn_buffer = lfn_buffer lfn, lfn_parts_found = lfn_parts_found lfn\<rparr> = lfn" by simp
  show ?case using 0
    by (intro exI [of _ "lfn_buffer lfn"] exI [of _ ck0])
      (auto simp: lfn option.map_ident split_def)
next
  case (Suc j)
  let ?es = "map (\<lambda>k. lfn_entry (lfn_order n k) ck (rows ! k)) (rev [0..<j]) @ es"
  obtain buf1 where b1: "rows_hold buf1 rows j"
    "scan_entries (lfn_entry (lfn_order n j) ck (rows ! j) # ?es) ck0 lfn info =
      map_option (\<lambda>(r, n, z). (r, Suc n, z)) (scan_entries ?es ck
        \<lparr>lfn_buffer = buf1, lfn_parts_found = lfn_parts_found lfn + 1\<rparr> info)"
    using scan_lfn_step [OF assms(1), of j n ck0 ck lfn ?es info] Suc.prems assms(2,4) by auto
  let ?lfn = "\<lparr>lfn_buffer = buf1, lfn_parts_found = lfn_parts_found lfn + 1\<rparr>"
  obtain buf' where b': "rows_hold buf' rows 0"
    "scan_entries ?es ck ?lfn info = map_option (\<lambda>(r, n, z). (r, j + n, z)) (scan_entries es ck
        \<lparr>lfn_buffer = buf', lfn_parts_found = lfn_parts_found lfn + 1 + of_nat j\<rparr> info)"
    using Suc.IH [of ck ?lfn] Suc.prems(1) b1(1) by auto
  show ?case
    by (rule exI [of _ buf'], rule exI [of _ ck])
      (simp add: b'(1) b1(2) b'(2) option.map_comp o_def split_def add.assoc
        del: scan_entries.simps(2))
qed

section \<open>Assembling the name\<close>

lemma assemble_lfn_parts:
  assumes "rows_hold buf parts 0" "parts_ok parts" "cstr name s" "length name = 256"
    "length s + length (concat (drop i parts)) < 256" "i + n = length parts"
  shows "\<exists>name'. assemble_lfn buf name i n = Some name' \<and> cstr name' (s @ concat (drop i parts)) \<and>
    length name' = 256"
  using assms(3-6)
proof (induction n arbitrary: i name s)
  case 0
  then show ?case by simp
next
  case (Suc n)
  have i: "i < length parts" using Suc.prems(4) by simp
  have row: "cstr (drop (i * 40) buf) (parts ! i)" "length buf = 800" "parts ! i \<noteq> []"
    using assms(1,2) i by (auto simp: rows_hold_def parts_ok_def list_all_length)
  then obtain c bs where c0: "drop (i * 40) buf = c # bs" "c \<noteq> 0" by (cases "parts ! i") auto
  have fit: "i * 40 < length buf"
  proof (rule ccontr)
    assume "\<not> ?thesis"
    then show False using c0 by simp
  qed
  then have c: "buf ! (i * 40) \<noteq> 0" using c0 hd_drop_conv_nth [OF fit] by simp
  have dr: "drop i parts = parts ! i # drop (Suc i) parts" using i by (rule Cons_nth_drop_Suc [symmetric])
  have len: "length s + length (parts ! i) + length (concat (drop (Suc i) parts)) < 256"
    using Suc.prems(3) by (simp add: dr)
  have num: "unat (256 - 1 - of_nat (length s) :: u32) = 255 - length s"
    using len by (subst unat_sub_u32) simp_all
  then have whole: "take (unat (256 - 1 - of_nat (length s) :: u32)) (parts ! i) = parts ! i"
    using len by simp
  have room: "length s + min (unat (256 - 1 - of_nat (length s) :: u32)) (length (parts ! i)) < length name"
    unfolding num Suc.prems(2) using len by simp
  obtain name1 where n1: "strncat name (drop (i * 40) buf) (256 - 1 - of_nat (length s)) = Some name1"
    "cstr name1 (s @ parts ! i)" "length name1 = 256"
    using strncat_cstr [OF Suc.prems(1) row(1) room] unfolding whole Suc.prems(2) by blast
  have "\<exists>name'. assemble_lfn buf name1 (Suc i) n = Some name' \<and>
      cstr name' ((s @ parts ! i) @ concat (drop (Suc i) parts)) \<and> length name' = 256"
    using Suc.IH [OF n1(2,3)] len Suc.prems(4) by simp
  then show ?case
    using c fit n1(1) strlen_cstr [OF Suc.prems(1)]
    by (auto simp: dr MAX_UTF8_CHARS_PER_LFN_PART_def MAX_FILENAME_LEN_def)
qed

text \<open>A short-name entry that is in use, is not part of a long name and is not a volume label.\<close>

definition file_entry :: "u8 list \<Rightarrow> bool" where
  "file_entry e \<longleftrightarrow> e ! 0 \<noteq> 0 \<and> e ! 0 \<noteq> 0xE5 \<and> e ! 11 AND FAT_ATTR_VOLUME_ID = 0"

lemma file_entry_not_lfn: "file_entry e \<Longrightarrow> \<not> is_lfn_entry e"
proof
  assume "file_entry e" "is_lfn_entry e"
  then have "(e ! 11 AND 0x0F) AND 0x08 = 0x08" "e ! 11 AND 0x08 = 0"
    by (simp_all add: file_entry_def is_lfn_entry_def FAT_ATTR_LFN_def FAT_ATTR_VOLUME_ID_def)
  moreover have "(e ! 11 AND 0x0F) AND 0x08 = e ! 11 AND 0x08" by (simp add: and.assoc)
  ultimately show False by simp
qed

definition entry_info :: "u8 list \<Rightarrow> u8 list \<Rightarrow> fat_file_info_t" where
  "entry_info e name = \<lparr>filename = name,
     first_cluster = push_bit 16 (ucast (read_le16 ((!) e) 20)) OR ucast (read_le16 ((!) e) 26),
     fi_file_size = read_le32 ((!) e) 28, attributes = e ! 11,
     is_directory = (e ! 11 AND FAT_ATTR_DIRECTORY \<noteq> 0)\<rparr>"

lemma process_sfn_file:
  "file_entry e \<Longrightarrow> entry_filename e ck lfn (filename info) = Some name \<Longrightarrow>
     process_sfn e ck lfn info = Some (Some FAT_SUCCESS, lfn\<lparr>lfn_parts_found := 0\<rparr>, entry_info e name)"
  by (simp add: process_sfn_def file_entry_def entry_info_def Let_def)

lemma cstr_terminate:
  "cstr name s \<Longrightarrow> length name = 256 \<Longrightarrow> length s < 256 \<Longrightarrow> cstr (name[255 := 0]) s"
  by (auto simp: cstr_def list_update_append split: nat.split)

text \<open>The entries of a file with a long name, read with the stack holding \<open>extra\<close> rows and a
  count of that many parts: the rows of the stack end up behind the name.\<close>

lemma scan_long_name:
  assumes "parts_ok (parts @ extra)" "parts \<noteq> []" "length (concat (parts @ extra)) < 256"
    and ck: "ck = fat_sfn_checksum (take 11 e)" "ck \<noteq> 0" and e: "file_entry e"
    and junk: "rows_hold (lfn_buffer junk) (parts @ extra) (length parts)"
      "lfn_parts_found junk = of_nat (length extra)"
    and info: "length (filename info) = 256"
  shows "\<exists>lfn' name. scan_entries (lfn_sequence ck parts @ e # es) ck0 junk info =
      Some (FAT_SUCCESS, Suc (length parts), 0, lfn', entry_info e name) \<and>
    cstr name (concat (parts @ extra)) \<and> length name = 256"
proof -
  let ?rows = "parts @ extra"
  have seq: "lfn_sequence ck parts =
      map (\<lambda>k. lfn_entry (lfn_order (length parts) k) ck (?rows ! k)) (rev [0..<length parts])"
    by (simp add: lfn_sequence_def nth_append)
  obtain buf' where b: "rows_hold buf' ?rows 0"
    "scan_entries (lfn_sequence ck parts @ e # es) ck0 junk info =
      map_option (\<lambda>(r, n, z). (r, length parts + n, z)) (scan_entries (e # es) ck
        \<lparr>lfn_buffer = buf', lfn_parts_found = lfn_parts_found junk + of_nat (length parts)\<rparr> info)"
    using scan_lfn_sequence [OF assms(1) _ order_refl ck(2) _ junk(1), of ck0 "e # es" info] assms(2)
    unfolding seq by (auto simp del: scan_entries.simps)
  let ?lfn = "\<lparr>lfn_buffer = buf', lfn_parts_found = lfn_parts_found junk + of_nat (length parts)\<rparr>"
  have "length ?rows \<le> 20" using assms(1) by (simp add: parts_ok_def)
  then have cnt: "unat (lfn_parts_found ?lfn) = length ?rows"
    using junk(2) by (simp add: unat_word_ariths unat_of_nat take_bit_nat_eq_self)
  have "cstr ((filename info)[0 := 0]) []" using info by (cases "filename info") auto
  then obtain name where name: "assemble_lfn buf' ((filename info)[0 := 0]) 0 (length ?rows) = Some name"
    "cstr name (concat ?rows)" "length name = 256"
    using assemble_lfn_parts [OF b(1) assms(1), of "(filename info)[0 := 0]" "[]" 0 "length ?rows"]
      assms(3) info by auto
  have "entry_filename e ck ?lfn (filename info) = Some (name[255 := 0])"
    using ck cnt name(1) by (simp add: entry_filename_def MAX_FILENAME_LEN_def)
  moreover have "cstr (name[255 := 0]) (concat ?rows)"
    by (rule cstr_terminate [OF name(2,3) assms(3)])
  ultimately show ?thesis
    using b(2) e file_entry_not_lfn [OF e] process_sfn_file [OF e, of ck ?lfn info] name(3)
    by (auto simp: file_entry_def)
qed

text \<open>The entry of a file without a long name.\<close>

lemma scan_short_name:
  assumes "file_entry e" "length (filename info) = 256" "length e = 32"
    "take 11 e = sfn_encode base ext"
    "length base \<le> 8" "length ext \<le> 3" "list_all name_char base" "list_all name_char ext"
  shows "\<exists>lfn' name. scan_entries (e # es) 0 junk info =
      Some (FAT_SUCCESS, 1, 0, lfn', entry_info e name) \<and>
    cstr name (sfn_display base ext) \<and> length name = 256"
proof -
  let ?s = "sfn_display base ext @ [0]"
  have "length ?s \<le> 13" using assms(5,6) by (simp add: sfn_display_def)
  then obtain name where name: "overwrite (filename info) 0 ?s = Some name" "length name = 256"
    using overwrite_Some [of 0 ?s "filename info"] assms(2) by auto
  have "0 \<notin> set (sfn_display base ext)"
    using assms(7,8) by (auto simp: sfn_display_def list_all_iff name_char_def split: if_splits)
  then have "cstr name (sfn_display base ext)"
    using name(1) by (auto simp: overwrite_def cstr_def split: if_splits)
  moreover have "entry_filename e 0 junk (filename info) = Some name"
    using name(1) assms(4) sfn_to_string_encode [OF assms(5-8)] by (simp add: entry_filename_def)
  ultimately show ?thesis
    using assms(1) file_entry_not_lfn [OF assms(1)] process_sfn_file [OF assms(1), of 0 junk info] name(2)
    by (auto simp: file_entry_def)
qed

end
