(* ===== verification/Fat_Read.thy ===== *)
theory Fat_Read
  imports Fat_File Block_Device
begin

unbundle bit_operations_syntax

text \<open>
  Reading through a handle refines reading from a byte sequence.  \<open>handle_at v d h cs\<close> says that
  the clusters \<open>cs\<close> hold the file of the handle \<open>h\<close> and that the three position fields of \<open>h\<close>
  (cluster, offset in the cluster, position in the file) agree.
\<close>

section \<open>Arithmetic\<close>

lemma sint_small: "unat (a :: u32) < 2147483648 \<Longrightarrow> sint a = int (unat a)"
proof -
  assume "unat a < 2147483648"
  then have "int (unat a) < 2147483648" by linarith
  moreover have u: "int (unat a) = uint a" by simp
  ultimately have "uint a < 2147483648" by (simp only:)
  then have "uint a < 2 ^ 31" "- (2 ^ 31) \<le> uint a"
    using order_trans [of "- (2 ^ 31)" 0 "uint a"] by simp_all
  then have "signed_take_bit 31 (uint a) = uint a" by (intro signed_take_bit_int_eq_self)
  then show ?thesis using u by (simp add: sint_uint)
qed

lemma unat_min_int:
  assumes "unat a < 2147483648" "unat b < 2147483648"
  shows "unat (min_int a b) = min (unat a) (unat b)"
proof -
  have "sint a < sint b \<longleftrightarrow> unat a < unat b"
    unfolding sint_small [OF assms(1)] sint_small [OF assms(2)] by (rule of_nat_less_iff)
  then show ?thesis by (simp add: min_int_def min_def)
qed

lemma store_bytes_append:
  "store_bytes m p (xs @ ys) = store_bytes (store_bytes m p xs) (p + of_nat (length xs)) ys"
  by (induction xs arbitrary: m p) (simp_all add: add.assoc)

lemma take_split: "take (a + b) xs = take a xs @ take b (drop a xs)"
  by (rule take_add)

section \<open>Positions\<close>

definition handle_at :: "fat32_volume_info_t \<Rightarrow> disk \<Rightarrow> file_handle_t \<Rightarrow> u32 list \<Rightarrow> bool" where
  "handle_at v d h cs \<longleftrightarrow>
     unat (fh_file_size h) < 2147483648 \<and> current_file_pos h \<le> fh_file_size h \<and>
     (fh_file_size h \<noteq> 0 \<longrightarrow>
        fat_chain v d cs \<and> list_all (readable v d) cs \<and> cluster_start h = hd cs \<and>
        unat (fh_file_size h) \<le> length cs * unat (bytes_per_cluster v) \<and>
        (\<exists>k < length cs. fh_current_cluster h = cs ! k \<and>
           unat (current_file_pos h) = k * unat (bytes_per_cluster v) + unat (current_offset h) \<and>
           (unat (current_offset h) < unat (bytes_per_cluster v) \<or>
            current_offset h = bytes_per_cluster v \<and> Suc k = length cs)))"

lemma fat_chain_nth:
  "fat_chain v d cs \<Longrightarrow> Suc k < length cs \<Longrightarrow>
     next_cluster v d (cs ! k) = (FAT_SUCCESS, Some (cs ! Suc k))"
  by (induction v d cs arbitrary: k rule: fat_chain.induct) (auto simp: nth_Cons split: nat.splits)

lemma fat_chain_last:
  "fat_chain v d cs \<Longrightarrow> Suc k = length cs \<Longrightarrow>
     next_cluster v d (cs ! k) = (FAT_ERROR_END_OF_CHAIN, Some 0)"
  by (induction v d cs arbitrary: k rule: fat_chain.induct) (auto simp: nth_Cons split: nat.splits)

lemma unat_bytes_per_cluster:
  "vol_ok v \<Longrightarrow> unat (bytes_per_cluster v) = unat (sectors_per_cluster v) * 512"
proof -
  have "512 * unat (sectors_per_cluster v) < 4294967296"
    using unat_u8_lt [of "sectors_per_cluster v"] by linarith
  moreover assume "vol_ok v"
  ultimately show ?thesis by (simp add: vol_ok_def unat_word_ariths)
qed

lemma bytes_per_cluster_bounds:
  assumes "vol_ok v"
  shows "512 \<le> unat (bytes_per_cluster v)" "unat (bytes_per_cluster v) < 131072"
proof -
  have "0 < unat (sectors_per_cluster v)" using assms by (simp add: vol_ok_def unat_gt_0)
  moreover have "unat (sectors_per_cluster v) < 256" by simp
  ultimately show "512 \<le> unat (bytes_per_cluster v)" "unat (bytes_per_cluster v) < 131072"
    using unat_bytes_per_cluster [OF assms] by simp_all
qed

text \<open>The number of bytes one round copies, for \<open>n\<close> bytes left to read.\<close>

definition round_bytes :: "file_handle_t \<Rightarrow> nat \<Rightarrow> nat" where
  "round_bytes h n = min n (512 - unat (current_offset h) mod 512)"

definition moved :: "file_handle_t \<Rightarrow> nat \<Rightarrow> file_handle_t" where
  "moved h m = h\<lparr>current_file_pos := current_file_pos h + of_nat m,
     current_offset := current_offset h + of_nat m\<rparr>"

lemma round_bytes_bounds:
  assumes "0 < n" shows "0 < round_bytes h n" "round_bytes h n \<le> n"
    "unat (current_offset h) mod 512 + round_bytes h n \<le> 512"
proof -
  have "unat (current_offset h) mod 512 < 512" by simp
  then show "0 < round_bytes h n" "round_bytes h n \<le> n"
    "unat (current_offset h) mod 512 + round_bytes h n \<le> 512"
    using assms by (auto simp: round_bytes_def min_def)
qed

text \<open>With bytes left to read, the position lies inside a cluster of the file.\<close>

lemma handle_at_inside:
  assumes "handle_at v d h cs" "unat (current_file_pos h) + n \<le> unat (fh_file_size h)" "0 < n"
  obtains k where "fat_chain v d cs" "list_all (readable v d) cs" "k < length cs"
    "fh_current_cluster h = cs ! k"
    "unat (current_file_pos h) = k * unat (bytes_per_cluster v) + unat (current_offset h)"
    "unat (current_offset h) < unat (bytes_per_cluster v)"
proof -
  have ne: "fh_file_size h \<noteq> 0" using assms(2,3) by auto
  then obtain k where k: "k < length cs" "fh_current_cluster h = cs ! k"
    "unat (current_file_pos h) = k * unat (bytes_per_cluster v) + unat (current_offset h)"
    "unat (current_offset h) < unat (bytes_per_cluster v) \<or>
      current_offset h = bytes_per_cluster v \<and> Suc k = length cs"
    and sz: "unat (fh_file_size h) \<le> length cs * unat (bytes_per_cluster v)"
    using assms(1) by (auto simp: handle_at_def)
  have "unat (current_offset h) < unat (bytes_per_cluster v)"
  proof (rule ccontr)
    assume "\<not> ?thesis"
    then have "current_offset h = bytes_per_cluster v" "Suc k = length cs" using k(4) by blast+
    moreover from this(1) have "unat (current_file_pos h) = Suc k * unat (bytes_per_cluster v)"
      using k(3) by simp
    ultimately have "unat (fh_file_size h) \<le> unat (current_file_pos h)" using sz by (simp only:)
    then show False using assms(2,3) by linarith
  qed
  then show thesis using that k assms(1) ne by (auto simp: handle_at_def)
qed

text \<open>How a handle moves: the identity of the file stays, the position advances.\<close>

definition advanced :: "file_handle_t \<Rightarrow> nat \<Rightarrow> file_handle_t \<Rightarrow> bool" where
  "advanced h m h' \<longleftrightarrow> cluster_start h' = cluster_start h \<and> fh_file_size h' = fh_file_size h \<and>
     is_free h' = is_free h \<and> mode h' = mode h \<and>
     unat (current_file_pos h') = unat (current_file_pos h) + m"

lemma advanced_trans: "advanced h m h' \<Longrightarrow> advanced h' n h'' \<Longrightarrow> advanced h (m + n) h''"
  by (simp add: advanced_def)

text \<open>The end of a round: either the position stays in the cluster, or the cluster is used up
  and there is a next one, or the whole file has been read.\<close>

lemma round_end:
  assumes vol: "vol_ok v" and at: "handle_at v d h cs"
    and n: "0 < n" "unat (current_file_pos h) + n \<le> unat (fh_file_size h)"
  defines "m \<equiv> round_bytes h n"
  obtains (inside) "current_offset (moved h m) < bytes_per_cluster v"
      "handle_at v d (moved h m) cs" "advanced h m (moved h m)"
  | (nextc) c where "bytes_per_cluster v \<le> current_offset (moved h m)"
      "next_cluster v d (fh_current_cluster h) = (FAT_SUCCESS, Some c)"
      "handle_at v d ((moved h m)\<lparr>fh_current_cluster := c, current_offset := 0\<rparr>) cs"
      "advanced h m ((moved h m)\<lparr>fh_current_cluster := c, current_offset := 0\<rparr>)"
  | (finish) "bytes_per_cluster v \<le> current_offset (moved h m)" "m = n"
      "next_cluster v d (fh_current_cluster h) = (FAT_ERROR_END_OF_CHAIN, Some 0)"
      "handle_at v d (moved h m) cs" "advanced h m (moved h m)"
proof -
  let ?B = "unat (bytes_per_cluster v)" and ?off = "unat (current_offset h)"
    and ?pos = "unat (current_file_pos h)"
  obtain k where k: "fat_chain v d cs" "list_all (readable v d) cs" "k < length cs"
    "fh_current_cluster h = cs ! k" "?pos = k * ?B + ?off" "?off < ?B"
    using handle_at_inside [OF at n(2,1)] .
  note mb = round_bytes_bounds [OF n(1), of h, folded m_def]
  have sz: "unat (fh_file_size h) < 2147483648" "fh_file_size h \<noteq> 0" "cluster_start h = hd cs"
    "unat (fh_file_size h) \<le> length cs * ?B" using at n by (auto simp: handle_at_def)
  have upos: "unat (current_file_pos (moved h m)) = ?pos + m"
    using sz n mb by (simp add: moved_def unat_add_u32)
  have uoff: "unat (current_offset (moved h m)) = ?off + m"
    using bytes_per_cluster_bounds(2) [OF vol] k(6) mb by (simp add: moved_def unat_add_u32)
  have adv: "advanced h m (moved h m)" using upos by (simp add: advanced_def moved_def)
  have "?off div 512 < unat (sectors_per_cluster v)"
    using k(6) unat_bytes_per_cluster [OF vol] by (simp add: less_mult_imp_div_less)
  then have "(?off div 512 + 1) * 512 \<le> ?B"
    unfolding unat_bytes_per_cluster [OF vol] by (intro mult_le_mono1) simp
  moreover have "(q + 1) * 512 \<le> b \<Longrightarrow> r + m \<le> 512 \<Longrightarrow> q * 512 + r = x \<Longrightarrow> x + m \<le> b"
    for q r b x :: nat by (simp add: distrib_right)
  ultimately have le: "?off + m \<le> ?B" using mb(3) div_mult_mod_eq [of ?off 512] by blast
  have le_size: "current_file_pos (moved h m) \<le> fh_file_size h"
    unfolding word_le_nat_alt upos using n mb by linarith
  have base: "handle_at v d h' cs"
    if "advanced h m h'" "k' < length cs" "fh_current_cluster h' = cs ! k'"
      "?pos + m = k' * ?B + unat (current_offset h')"
      "unat (current_offset h') < ?B \<or> current_offset h' = bytes_per_cluster v \<and> Suc k' = length cs"
    for h' k'
    using that k sz le_size upos unfolding handle_at_def advanced_def word_le_nat_alt
    by (simp only:) blast
  show thesis
  proof (cases "?off + m < ?B")
    case True
    then show thesis using inside adv base [OF adv k(3)] k uoff
      by (simp add: word_less_nat_alt moved_def)
  next
    case False
    then have eq: "?off + m = ?B" using le by simp
    then have ge: "bytes_per_cluster v \<le> current_offset (moved h m)"
      by (simp add: word_le_nat_alt uoff)
    show thesis
    proof (cases "Suc k < length cs")
      case True
      let ?h = "(moved h m)\<lparr>fh_current_cluster := cs ! Suc k, current_offset := 0\<rparr>"
      have "advanced h m ?h" using adv by (simp add: advanced_def)
      moreover from this have "handle_at v d ?h cs"
        using base [of ?h "Suc k"] True k(5) eq bytes_per_cluster_bounds(1) [OF vol] by simp
      ultimately show thesis using nextc [OF ge] fat_chain_nth [OF k(1) True] k(4) by simp
    next
      case False
      then have last: "Suc k = length cs" using k(3) by simp
      have "current_offset (moved h m) = bytes_per_cluster v"
        using eq uoff by (simp add: word_unat_eq_iff)
      then have "handle_at v d (moved h m) cs"
        using base [OF adv k(3)] last k eq by (simp add: moved_def)
      moreover have "?pos + m = length cs * ?B" using k(5) eq last [symmetric] by simp
      then have "m = n" using n sz(4) mb(2) by linarith
      ultimately show thesis
        using finish [OF ge] adv fat_chain_last [OF k(1) last] k(4) by simp
    qed
  qed
qed

context block_device
begin

text \<open>The transfer of one round: what is read from the device and how much.\<close>

lemma read_file_step_read:
  assumes rdy: "ready (sd s)" and vol: "vol_ok v" and v: "v = g_fat32_volume_info s"
    and h: "h = open_file_handles s ! fid" and at: "handle_at v (disk (sd s)) h cs"
    and n: "unat actual - unat tot = n" "0 < n" "unat (current_file_pos h) + n \<le> unat (fh_file_size h)"
    and act: "unat actual < 2147483648"
  obtains w' where
    "read_file_step dev fid buffer actual tot s =
       (let m = round_bytes h n; h' = moved h m;
            s' = s\<lparr>sd := w', ram := store_bytes (ram s) (buffer + tot)
                (take m (drop (unat (current_file_pos h)) (file_bytes v (disk (sd s)) cs))),
              open_file_handles := (open_file_handles s)[fid := h']\<rparr>
        in if bytes_per_cluster v \<le> current_offset h' then do {
             ((res, nxt), s'') \<leftarrow> getNextCluster dev (fh_current_cluster h) s';
             if res = FAT_ERROR_END_OF_CHAIN then Some (Some FAT_SUCCESS, tot + of_nat m, s'')
             else (case nxt of
                Some c \<Rightarrow> if res \<noteq> FAT_SUCCESS then Some (Some res, tot + of_nat m, s'')
                  else Some (None, tot + of_nat m, s''\<lparr>open_file_handles :=
                    (open_file_handles s'')[fid := h'\<lparr>fh_current_cluster := c, current_offset := 0\<rparr>]\<rparr>)
              | None \<Rightarrow> Some (Some res, tot + of_nat m, s''))
           } else Some (None, tot + of_nat m, s'))"
    "ready w'" "disk w' = disk (sd s)"
proof -
  let ?d = "disk (sd s)" and ?off = "unat (current_offset h)" and ?m = "round_bytes h n"
  obtain k where k: "list_all (readable v ?d) cs" "k < length cs" "fh_current_cluster h = cs ! k"
    "unat (current_file_pos h) = k * unat (bytes_per_cluster v) + ?off"
    "?off < unat (bytes_per_cluster v)"
    using handle_at_inside [OF at n(3,2)] .
  note m = round_bytes_bounds [OF n(2), of h]
  have bpc: "unat (bytes_per_cluster v) = unat (sectors_per_cluster v) * 512"
    by (rule unat_bytes_per_cluster [OF vol])
  obtain bs where bs: "?d (fatClusterToLba v (cs ! k) + of_nat (?off div 512)) = Some bs"
    "take ?m (drop (unat (current_file_pos h)) (file_bytes v ?d cs)) =
      take ?m (drop (?off mod 512) bs)"
    using file_slice [OF _ ready_sectors [OF rdy] k(2), of v ?off ?m] k m(3) bpc
    by (auto simp: list_all_iff)
  have dv: "current_offset h div 512 = of_nat (?off div 512)"
    by (rule word_eq_of_nat) (simp add: unat_div_u32)
  have md: "unat (current_offset h mod 512) = ?off mod 512" by (simp add: unat_mod_u32)
  have md16: "unat (ucast (current_offset h mod 512) :: u16) = ?off mod 512"
    using mod_less_divisor [of 512 ?off] by (subst unat_ucast_u32_u16) (simp_all add: md)
  define btc where "btc = min_int (actual - tot) (512 - current_offset h mod 512)"
  have "unat (actual - tot) = n" using n(1,2) by (intro trans [OF unat_sub_u32]) simp_all
  moreover have "unat (512 - current_offset h mod 512) = 512 - ?off mod 512"
    using mod_less_divisor [of 512 ?off] by (subst unat_sub_u32) (simp_all add: md)
  ultimately have ub: "unat btc = ?m"
    using n act unfolding btc_def round_bytes_def by (subst unat_min_int) simp_all
  then have btc: "btc = of_nat ?m" by (rule word_eq_of_nat)
  have ub16: "unat (ucast btc :: u16) = ?m" using m(3) ub by (subst unat_ucast_u32_u16) simp_all
  obtain w' where w': "dev_read_partial dev (fatClusterToLba v (cs ! k) + of_nat (?off div 512))
      (ucast (current_offset h mod 512)) (ucast btc) (sd s) =
      Some (Some (take ?m (drop (?off mod 512) bs)), w')" "ready w'" "disk w' = ?d"
    using partial_law [OF rdy, where off = "ucast (current_offset h mod 512)" and
        len = "ucast btc" and lba = "fatClusterToLba v (cs ! k) + of_nat (?off div 512)"]
      m(3) bs(1)
    unfolding md16 ub16 by auto
  have b512: "bytes_per_sector (g_fat32_volume_info s) = 512" using vol v by (simp add: vol_ok_def)
  note step = btc_def [unfolded btc, symmetric] w'(1) [unfolded btc]
  show thesis
    by (rule that [OF _ w'(2,3)], unfold read_file_step_def Let_def v [symmetric] h [symmetric])
      (simp add: v [symmetric] b512 [folded v] dv k(3) step bs(2) moved_def
        cong: option.case_cong if_cong)
qed

text \<open>A state that differs from \<open>s\<close> in the device, the bytes read and the moved handle.\<close>

definition read_result ::
  "'w fs \<Rightarrow> nat \<Rightarrow> u32 \<Rightarrow> u8 list \<Rightarrow> file_handle_t \<Rightarrow> 'w fs \<Rightarrow> bool" where
  "read_result s fid p bs h' s' \<longleftrightarrow>
     g_fat32_volume_info s' = g_fat32_volume_info s \<and>
     open_file_handles s' = (open_file_handles s)[fid := h'] \<and>
     ram s' = store_bytes (ram s) p bs \<and> ready (sd s') \<and> disk (sd s') = disk (sd s)"

lemma read_file_step_spec:
  assumes rdy: "ready (sd s)" and vol: "vol_ok v" and v: "v = g_fat32_volume_info s"
    and h: "h = open_file_handles s ! fid" and at: "handle_at v (disk (sd s)) h cs"
    and n: "unat actual - unat tot = n" "0 < n" "unat (current_file_pos h) + n \<le> unat (fh_file_size h)"
    and act: "unat actual < 2147483648"
  defines "m \<equiv> round_bytes h n"
  shows "\<exists>r s' h'. read_file_step dev fid buffer actual tot s = Some (r, tot + of_nat m, s') \<and>
    (r = None \<or> r = Some FAT_SUCCESS \<and> m = n) \<and>
    read_result s fid (buffer + tot)
      (take m (drop (unat (current_file_pos h)) (file_bytes v (disk (sd s)) cs))) h' s' \<and>
    handle_at v (disk (sd s)) h' cs \<and> advanced h m h'"
proof -
  let ?d = "disk (sd s)"
  let ?bs = "take m (drop (unat (current_file_pos h)) (file_bytes v ?d cs))"
  obtain w' where step: "read_file_step dev fid buffer actual tot s =
       (let h' = moved h m;
            s' = s\<lparr>sd := w', ram := store_bytes (ram s) (buffer + tot) ?bs,
              open_file_handles := (open_file_handles s)[fid := h']\<rparr>
        in if bytes_per_cluster v \<le> current_offset h' then do {
             ((res, nxt), s'') \<leftarrow> getNextCluster dev (fh_current_cluster h) s';
             if res = FAT_ERROR_END_OF_CHAIN then Some (Some FAT_SUCCESS, tot + of_nat m, s'')
             else (case nxt of
                Some c \<Rightarrow> if res \<noteq> FAT_SUCCESS then Some (Some res, tot + of_nat m, s'')
                  else Some (None, tot + of_nat m, s''\<lparr>open_file_handles :=
                    (open_file_handles s'')[fid := h'\<lparr>fh_current_cluster := c, current_offset := 0\<rparr>]\<rparr>)
              | None \<Rightarrow> Some (Some res, tot + of_nat m, s''))
           } else Some (None, tot + of_nat m, s'))"
    and w': "ready w'" "disk w' = ?d"
    using read_file_step_read [OF rdy vol v h at n act, of buffer] unfolding m_def Let_def by blast
  let ?s = "s\<lparr>sd := w', ram := store_bytes (ram s) (buffer + tot) ?bs,
    open_file_handles := (open_file_handles s)[fid := moved h m]\<rparr>"
  obtain w2 where nx: "getNextCluster dev (fh_current_cluster h) ?s =
      Some (next_cluster v ?d (fh_current_cluster h), ?s\<lparr>sd := w2\<rparr>)" "ready w2" "disk w2 = ?d"
    using getNextCluster_refines [of ?s "fh_current_cluster h"] w' vol v by auto
  from vol at n(2,3) show ?thesis
  proof (cases rule: round_end)
    case inside
    then show ?thesis unfolding step m_def [symmetric]
      by (intro exI [of _ None] exI [of _ ?s] exI [of _ "moved h m"])
        (auto simp: Let_def read_result_def w' not_le [symmetric])
  next
    case (nextc c)
    then show ?thesis unfolding step m_def [symmetric]
      by (intro exI [of _ None] exI [of _ "?s\<lparr>sd := w2, open_file_handles := (open_file_handles s)
            [fid := (moved h m)\<lparr>fh_current_cluster := c, current_offset := 0\<rparr>]\<rparr>"]
          exI [of _ "(moved h m)\<lparr>fh_current_cluster := c, current_offset := 0\<rparr>"])
        (auto simp: Let_def read_result_def nx)
  next
    case finish
    have "read_file_step dev fid buffer actual tot s =
        Some (Some FAT_SUCCESS, tot + of_nat m, ?s\<lparr>sd := w2\<rparr>)"
      using finish(1,3) unfolding step m_def [symmetric] by (simp add: Let_def nx)
    moreover have "read_result s fid (buffer + tot) ?bs (moved h m) (?s\<lparr>sd := w2\<rparr>)"
      using nx by (simp add: read_result_def)
    ultimately show ?thesis using finish(2,4,5) unfolding m_def [symmetric] by blast
  qed
qed

lemma read_result_trans:
  assumes "read_result s fid p bs h1 s1" "read_result s1 fid (p + of_nat (length bs)) bs' h2 s2"
  shows "read_result s fid p (bs @ bs') h2 s2"
  using assms by (auto simp: read_result_def store_bytes_append)

text \<open>The loop reads exactly the bytes asked for.\<close>

lemma read_file_loop_spec:
  assumes "ready (sd s)" "vol_ok (g_fat32_volume_info s)" "fid < length (open_file_handles s)"
    "h = open_file_handles s ! fid" "handle_at (g_fat32_volume_info s) (disk (sd s)) h cs"
    "unat tot + n = unat actual" "unat (current_file_pos h) + n \<le> unat (fh_file_size h)"
    "unat actual < 2147483648"
  shows "\<exists>s' h'. read_file_loop dev fid buffer actual tot s = Some (FAT_SUCCESS, s') \<and>
    read_result s fid (buffer + tot) (take n (drop (unat (current_file_pos h))
      (file_bytes (g_fat32_volume_info s) (disk (sd s)) cs))) h' s' \<and>
    handle_at (g_fat32_volume_info s) (disk (sd s)) h' cs \<and> advanced h n h'"
  using assms
proof (induction n arbitrary: s h tot rule: less_induct)
  case (less n)
  note prems = less.prems
  let ?v = "g_fat32_volume_info s" and ?d = "disk (sd s)"
  show ?case
  proof (cases "n = 0")
    case True
    then have "\<not> tot < actual" using prems(6) by (simp add: word_less_nat_alt)
    then show ?thesis using True prems
      by (subst read_file_loop.simps)
        (auto simp: read_result_def advanced_def intro!: exI [of _ h])
  next
    case False
    then have lt: "tot < actual" using prems(6) by (simp add: word_less_nat_alt)
    define m where "m = round_bytes h n"
    have m: "0 < m" "m \<le> n" using round_bytes_bounds [of n h] False by (simp_all add: m_def)
    let ?f = "file_bytes ?v ?d cs" and ?pos = "unat (current_file_pos h)"
    have left: "unat actual - unat tot = n" using prems(6) by simp
    obtain r s1 h1 where st: "read_file_step dev fid buffer actual tot s = Some (r, tot + of_nat m, s1)"
      "r = None \<or> r = Some FAT_SUCCESS \<and> m = n"
      "read_result s fid (buffer + tot) (take m (drop ?pos ?f)) h1 s1"
      "handle_at ?v ?d h1 cs" "advanced h m h1"
      using read_file_step_spec [OF prems(1,2) refl prems(4,5) left _ prems(7,8), of buffer] False
      unfolding m_def by auto
    have pos1: "unat (current_file_pos h1) = ?pos + m" "fh_file_size h1 = fh_file_size h"
      using st(5) by (simp_all add: advanced_def)
    show ?thesis
    proof (cases "r = None")
      case False
      then have "r = Some FAT_SUCCESS" "m = n" using st(2) by auto
      then show ?thesis using st lt by (subst read_file_loop.simps) auto
    next
      case True
      have same: "g_fat32_volume_info s1 = ?v" "disk (sd s1) = ?d" "ready (sd s1)"
        "length (open_file_handles s1) = length (open_file_handles s)"
        "h1 = open_file_handles s1 ! fid"
        using st(3) prems(3) by (auto simp: read_result_def)
      have tot1: "unat (tot + of_nat m) = unat tot + m"
      proof -
        have "unat tot + m < 4294967296" using prems(6,8) m(2) by linarith
        then show ?thesis by (subst unat_add_u32) simp_all
      qed
      have len: "length (take m (drop ?pos ?f)) = m"
      proof -
        have "fh_file_size h \<noteq> 0" using prems(7) \<open>n \<noteq> 0\<close> by auto
        then have "unat (fh_file_size h) \<le> length ?f"
          using prems(5) length_file_bytes [of cs ?v ?d] ready_sectors [OF prems(1)]
            unat_bytes_per_cluster [OF prems(2)] by (simp add: handle_at_def list_all_iff)
        then show ?thesis using prems(7) m(2) by simp
      qed
      have "\<exists>s' h'. read_file_loop dev fid buffer actual (tot + of_nat m) s1 = Some (FAT_SUCCESS, s') \<and>
        read_result s1 fid (buffer + (tot + of_nat m)) (take (n - m) (drop (?pos + m) ?f)) h' s' \<and>
        handle_at ?v ?d h' cs \<and> advanced h1 (n - m) h'"
        using less.IH [of "n - m" s1 h1 "tot + of_nat m"] same prems st(4) pos1 tot1 m by simp
      then obtain s2 h2 where
        ih: "read_file_loop dev fid buffer actual (tot + of_nat m) s1 = Some (FAT_SUCCESS, s2)"
          "read_result s1 fid (buffer + (tot + of_nat m)) (take (n - m) (drop (?pos + m) ?f)) h2 s2"
          "handle_at ?v ?d h2 cs" "advanced h1 (n - m) h2" by blast
      have "take n (drop ?pos ?f) = take m (drop ?pos ?f) @ take (n - m) (drop (?pos + m) ?f)"
        using take_split [of m "n - m" "drop ?pos ?f"] m(2) by (simp add: add.commute)
      then have "read_result s fid (buffer + tot) (take n (drop ?pos ?f)) h2 s2"
        using read_result_trans [OF st(3)] ih(2) by (simp only: len add.assoc)
      moreover have "advanced h n h2" using advanced_trans [OF st(5) ih(4)] m(2) by simp
      ultimately show ?thesis using st(1) True lt ih(1,3)
        by (subst read_file_loop.simps) auto
    qed
  qed
qed

end

end
