(* ===== verification/Fat_Path.thy ===== *)
theory Fat_Path
  imports Fat_File Fat_Names Fat_Read
begin

unbundle bit_operations_syntax

text \<open>
  Finding a file by its path.  A directory is a list of files (\<open>dfile\<close>: the names and the raw
  short-name entry), encoded on disk as \<open>df_entries\<close> lays out.  \<open>lookup\<close> searches one directory,
  \<open>resolve\<close> walks a path; \<open>find_entry\<close> and \<open>get_file\<close> are shown to compute them, for every content
  of the uninitialised stack that starts the count of name parts at zero (\<open>junk_ok\<close>).
\<close>

section \<open>Directories as lists of files\<close>

record dfile =
  df_parts :: "u8 list list"
  df_base :: "u8 list"
  df_ext :: "u8 list"
  df_entry :: "u8 list"

definition dfile_ok :: "dfile \<Rightarrow> bool" where
  "dfile_ok f \<longleftrightarrow> length (df_entry f) = 32 \<and> file_entry (df_entry f) \<and>
     (if df_parts f = [] then
        take 11 (df_entry f) = sfn_encode (df_base f) (df_ext f) \<and>
        length (df_base f) \<le> 8 \<and> length (df_ext f) \<le> 3 \<and>
        list_all name_char (df_base f) \<and> list_all name_char (df_ext f)
      else
        parts_ok (df_parts f) \<and> length (concat (df_parts f)) < 256 \<and>
        fat_sfn_checksum (take 11 (df_entry f)) \<noteq> 0)"

definition df_name :: "dfile \<Rightarrow> u8 list" where
  "df_name f = (if df_parts f = [] then sfn_display (df_base f) (df_ext f) else concat (df_parts f))"

definition df_entries :: "dfile \<Rightarrow> u8 list list" where
  "df_entries f =
     (if df_parts f = [] then []
      else lfn_sequence (fat_sfn_checksum (take 11 (df_entry f))) (df_parts f)) @ [df_entry f]"

definition df_cluster :: "dfile \<Rightarrow> u32" where
  "df_cluster f = push_bit 16 (ucast (read_le16 ((!) (df_entry f)) 20)) OR
     ucast (read_le16 ((!) (df_entry f)) 26)"

definition df_size :: "dfile \<Rightarrow> u32" where
  "df_size f = read_le32 ((!) (df_entry f)) 28"

definition df_is_dir :: "dfile \<Rightarrow> bool" where
  "df_is_dir f \<longleftrightarrow> df_entry f ! 11 AND FAT_ATTR_DIRECTORY \<noteq> 0"

text \<open>What follows the files: nothing, or an entry that marks the end.\<close>

definition dir_tail :: "u8 list list \<Rightarrow> bool" where
  "dir_tail es \<longleftrightarrow> es = [] \<or> hd es ! 0 = 0"

definition end_code :: "u8 list list \<Rightarrow> fat_error_t" where
  "end_code es = (if es = [] then FAT_ERROR_END_OF_CHAIN else FAT_ERROR_FILE_NOT_FOUND)"

definition junk_ok :: "lfn_locals \<Rightarrow> bool" where
  "junk_ok l \<longleftrightarrow> length (lfn_buffer l) = 800 \<and> lfn_parts_found l = 0"

lemma scan_dfile:
  assumes "dfile_ok f" "junk_ok junk" "length (filename info) = 256"
  shows "\<exists>lfn' name. scan_entries (df_entries f @ es) 0 junk info =
      Some (FAT_SUCCESS, length (df_entries f), 0, lfn', entry_info (df_entry f) name) \<and>
    cstr name (df_name f) \<and> length name = 256"
proof (cases "df_parts f = []")
  case True
  then show ?thesis
    using scan_short_name [of "df_entry f" info "df_base f" "df_ext f" es junk] assms
    by (simp add: dfile_ok_def df_entries_def df_name_def del: scan_entries.simps)
next
  case False
  let ?ck = "fat_sfn_checksum (take 11 (df_entry f))"
  have "length (lfn_sequence ?ck (df_parts f)) = length (df_parts f)" by (simp add: lfn_sequence_def)
  moreover have "rows_hold (lfn_buffer junk) (df_parts f @ []) (length (df_parts f))"
    "lfn_parts_found junk = of_nat (length ([] :: u8 list list))"
    using assms(2) by (simp_all add: junk_ok_def rows_hold_def)
  ultimately show ?thesis
    using scan_long_name [of "df_parts f" "[]" ?ck "df_entry f" junk info es 0] assms False
    by (simp add: dfile_ok_def df_entries_def df_name_def del: scan_entries.simps)
qed

lemma scan_tail:
  "dir_tail es \<Longrightarrow> \<exists>n. scan_entries es ck lfn info =
     Some (if es = [] then FAT_ERROR_END_OF_CHAIN else FAT_ERROR_NO_MORE_ENTRIES, n, ck, lfn, info)"
  by (cases es) (auto simp: dir_tail_def)

section \<open>Searching a directory\<close>

datatype lookup_result = Missing | File dfile | Enter u32

fun lookup :: "u8 list \<Rightarrow> bool \<Rightarrow> dfile list \<Rightarrow> lookup_result" where
  "lookup name final [] = Missing"
| "lookup name final (f # fs) =
     (if df_name f = name then
        (if df_is_dir f \<and> \<not> final then Enter (df_cluster f)
         else if final \<and> \<not> df_is_dir f then File f
         else if final then Missing
         else lookup name final fs)
      else lookup name final fs)"

text \<open>The iterator \<open>fat_init_root_dir_iterator\<close> sets up.\<close>

definition fresh_iter :: "u32 \<Rightarrow> fat_directory_iterator_t" where
  "fresh_iter c = \<lparr>it_current_cluster = c, current_sector_in_cluster = - 1,
     current_entry_in_sector = 0, sector_buffer = replicate SD_BLOCK_SIZE 0,
     sector_buffer_valid = False, lfn_checksum = 0\<rparr>"

lemma init_iterator:
  "is_initialized v \<Longrightarrow> fat_init_root_dir_iterator v (Some it) c = (FAT_SUCCESS, Some (fresh_iter c))"
  by (simp add: fat_init_root_dir_iterator_def fresh_iter_def)

lemma fresh_iter_at:
  "fat_chain v d cs \<Longrightarrow> list_all (readable v d) cs \<Longrightarrow> c = hd cs \<Longrightarrow> iter_at v d cs (fresh_iter c) 0"
  by (simp add: iter_at_def fresh_iter_def)

context block_device
begin

lemma read_next_entry:
  assumes "ready (sd s)" "v = g_fat32_volume_info s" "vol_ok v" "d = disk (sd s)"
    "iter_at v d cs it p"
    "scan_entries (drop p (dir_entries v d cs)) (lfn_checksum it) junk info = Some (e, n, ck, lfn, info')"
  obtains it' s' where "fat_read_next_dir_entry dev junk (Some it) (Some info) s =
      Some (e, Some it', Some info', s')" "fs_same s s'" "lfn_checksum it' = ck"
    "e \<noteq> FAT_ERROR_END_OF_CHAIN \<Longrightarrow> iter_at v d cs it' (p + n)"
proof -
  let ?st = "\<lparr>d_iter = it, d_info = info, d_lfn = junk, d_fs = s\<rparr>"
  have "dir_result v cs p ?st (scan_entries (drop p (dir_entries v d cs)) (lfn_checksum (d_iter ?st))
      (d_lfn ?st) (d_info ?st)) (dir_loop dev ?st)"
    by (rule dir_loop_refines) (use assms in simp_all)
  then obtain st' where "dir_loop dev ?st = Some (e, st')" "d_info st' = info'"
    "lfn_checksum (d_iter st') = ck" "fs_same s (d_fs st')"
    "e \<noteq> FAT_ERROR_END_OF_CHAIN \<longrightarrow> iter_at v d cs (d_iter st') (p + n)"
    using assms(4,6) by (auto simp: dir_result_def)
  then show thesis
    using that [of "d_iter st'" "d_fs st'"] assms(2,3)
    by (auto simp: fat_read_next_dir_entry_def vol_ok_def)
qed

definition lookup_outcome :: "u8 list list \<Rightarrow> lookup_result \<Rightarrow> fat_error_t option \<Rightarrow> 'w search \<Rightarrow> bool" where
  "lookup_outcome tail l r st \<longleftrightarrow>
     (case l of
        Missing \<Rightarrow> r = Some (end_code tail) \<or> r = Some FAT_ERROR_FILE_NOT_FOUND
      | File f \<Rightarrow> r = Some FAT_SUCCESS \<and> first_cluster (current_entry st) = df_cluster f \<and>
          fi_file_size (current_entry st) = df_size f
      | Enter c \<Rightarrow> r = None \<and> dir_iter st = fresh_iter c)"

lemma find_entry_spec:
  assumes "ready (sd (s_fs st))" "v = g_fat32_volume_info (s_fs st)" "vol_ok v"
    "d = disk (sd (s_fs st))" "iter_at v d cs (dir_iter st) p" "lfn_checksum (dir_iter st) = 0"
    "drop p (dir_entries v d cs) = concat (map df_entries fs) @ tail" "dir_tail tail"
    "list_all dfile_ok fs" "\<forall>n. junk_ok (junk n)" "length (filename (current_entry st)) = 256"
    "cstr nb name"
  shows "\<exists>r st'. find_entry dev junk nb final st = Some (r, st') \<and> fs_same (s_fs st) (s_fs st') \<and>
    length (filename (current_entry st')) = 256 \<and> lookup_outcome tail (lookup name final fs) r st'"
  using assms
proof (induction fs arbitrary: st p)
  case Nil
  note prems = Nil.prems
  obtain n where sc: "scan_entries tail 0 (junk (calls st)) (current_entry st) =
      Some (if tail = [] then FAT_ERROR_END_OF_CHAIN else FAT_ERROR_NO_MORE_ENTRIES, n, 0,
        junk (calls st), current_entry st)" using scan_tail [OF prems(8)] by blast
  obtain it' s' where "fat_read_next_dir_entry dev (junk (calls st)) (Some (dir_iter st))
      (Some (current_entry st)) (s_fs st) =
      Some (if tail = [] then FAT_ERROR_END_OF_CHAIN else FAT_ERROR_NO_MORE_ENTRIES, Some it',
        Some (current_entry st), s')" "fs_same (s_fs st) s'"
    by (rule read_next_entry [OF prems(1-5), where junk = "junk (calls st)" and
        info = "current_entry st"]) (use sc prems(6,7) in auto)
  then show ?case using prems(11)
    by (subst find_entry.simps) (auto simp: lookup_outcome_def end_code_def)
next
  case (Cons f fs)
  note prems = Cons.prems
  let ?es = "concat (map df_entries fs) @ tail"
  obtain lfn' fname where sc: "scan_entries (df_entries f @ ?es) 0 (junk (calls st)) (current_entry st) =
      Some (FAT_SUCCESS, length (df_entries f), 0, lfn', entry_info (df_entry f) fname)"
    "cstr fname (df_name f)" "length fname = 256"
    using scan_dfile [of f "junk (calls st)" "current_entry st" ?es] prems(9-11) by auto
  let ?info = "entry_info (df_entry f) fname"
  obtain it' s' where rd: "fat_read_next_dir_entry dev (junk (calls st)) (Some (dir_iter st))
      (Some (current_entry st)) (s_fs st) = Some (FAT_SUCCESS, Some it', Some ?info, s')"
    "fs_same (s_fs st) s'" "lfn_checksum it' = 0" "iter_at v d cs it' (p + length (df_entries f))"
    by (rule read_next_entry [OF prems(1-5), where junk = "junk (calls st)" and
        info = "current_entry st"]) (use sc prems(6,7) in auto)
  let ?st = "\<lparr>dir_iter = it', current_entry = ?info, calls = Suc (calls st), s_fs = s'\<rparr>"
  have fields: "filename ?info = fname" "first_cluster ?info = df_cluster f"
    "fi_file_size ?info = df_size f" "is_directory ?info = df_is_dir f"
    by (simp_all add: entry_info_def df_cluster_def df_size_def df_is_dir_def)
  have init: "is_initialized (g_fat32_volume_info s')"
    using rd(2) prems(2,3) by (simp add: fs_same_def vol_ok_def)
  have "drop (p + length (df_entries f)) (dir_entries v d cs) = ?es"
    using arg_cong [OF prems(7), of "drop (length (df_entries f))"] by (simp add: add.commute)
  then have rest: "\<exists>r st'. find_entry dev junk nb final ?st = Some (r, st') \<and> fs_same s' (s_fs st') \<and>
      length (filename (current_entry st')) = 256 \<and> lookup_outcome tail (lookup name final fs) r st'"
    using Cons.IH [of ?st "p + length (df_entries f)"] rd(2-4) prems fields sc(3)
    by (simp add: fs_same_def)
  obtain c where cmp: "strcmp nb fname = Some c" "c = 0 \<longleftrightarrow> name = df_name f"
    using strcmp_cstr [OF prems(12) sc(2)] by auto
  have step: "find_entry dev junk nb final st =
      (if name = df_name f then
         (if df_is_dir f \<and> \<not> final then Some (None, ?st\<lparr>dir_iter := fresh_iter (df_cluster f)\<rparr>)
          else if final \<and> \<not> df_is_dir f then Some (Some FAT_SUCCESS, ?st)
          else if final then Some (Some FAT_ERROR_FILE_NOT_FOUND, ?st)
          else find_entry dev junk nb final ?st)
       else find_entry dev junk nb final ?st)"
    by (subst find_entry.simps)
      (simp add: rd(1) fields cmp Let_def init_iterator [OF init])
  have stay: "fs_same (s_fs st) s'" "length (filename ?info) = 256" using rd(2) fields sc(3) by simp_all
  show ?case
  proof (cases "name = df_name f \<and> (final \<or> df_is_dir f)")
    case True
    then show ?thesis using stay fields unfolding step by (auto simp: lookup_outcome_def)
  next
    case False
    then have "find_entry dev junk nb final st = find_entry dev junk nb final ?st"
      "lookup name final (f # fs) = lookup name final fs"
      unfolding step by auto
    then show ?thesis using rest fs_same_trans [OF rd(2)] by auto
  qed
qed

end

section \<open>Walking a path\<close>

fun path_bytes :: "u8 list list \<Rightarrow> u8 list" where
  "path_bytes [] = [0]"
| "path_bytes [c] = c @ [0]"
| "path_bytes (c # cs) = c @ 0x2F # path_bytes cs"

definition component_ok :: "u8 list \<Rightarrow> bool" where
  "component_ok c \<longleftrightarrow> length c < 256 \<and> 0 \<notin> set c \<and> 0x2F \<notin> set c"

text \<open>\<open>dirs c\<close> is the directory that starts at cluster \<open>c\<close>, when there is one.  Empty components
  before the last are skipped.\<close>

fun resolve :: "(u32 \<Rightarrow> dfile list option) \<Rightarrow> u32 \<Rightarrow> u8 list list \<Rightarrow> lookup_result option" where
  "resolve dirs c [] = None"
| "resolve dirs c [n] = map_option (lookup n True) (dirs c)"
| "resolve dirs c (n # n' # ns) =
     (if n = [] then resolve dirs c (n' # ns)
      else case dirs c of
        None \<Rightarrow> None
      | Some fs \<Rightarrow>
          (case lookup n False fs of Enter c' \<Rightarrow> resolve dirs c' (n' # ns) | _ \<Rightarrow> Some Missing))"

text \<open>The directories as they lie on the disk.\<close>

definition dir_on_disk :: "fat32_volume_info_t \<Rightarrow> disk \<Rightarrow> u32 \<Rightarrow> dfile list \<Rightarrow> bool" where
  "dir_on_disk v d c fs \<longleftrightarrow> list_all dfile_ok fs \<and>
     (\<exists>cs tail. fat_chain v d cs \<and> list_all (readable v d) cs \<and> hd cs = c \<and>
        dir_entries v d cs = concat (map df_entries fs) @ tail \<and> dir_tail tail)"

definition dirs_on_disk :: "fat32_volume_info_t \<Rightarrow> disk \<Rightarrow> (u32 \<Rightarrow> dfile list option) \<Rightarrow> bool" where
  "dirs_on_disk v d dirs \<longleftrightarrow> (\<forall>c fs. dirs c = Some fs \<longrightarrow> dir_on_disk v d c fs)"

lemma path_component_app:
  assumes "0 \<notin> set c" "0x2F \<notin> set c" "length name + length c < 256" "x = 0 \<or> x = 0x2F"
  shows "path_component (c @ x # rest) name = Some (name @ c, x # rest)"
  using assms(1-3)
proof (induction c arbitrary: name)
  case Nil
  then show ?case using assms(4) by auto
next
  case (Cons a c)
  then show ?case by (auto simp: MAX_FILENAME_LEN_def)
qed

lemma resolve_not_Enter: "resolve dirs c ns \<noteq> Some (Enter c')"
proof (induction dirs c ns arbitrary: c' rule: resolve.induct)
  case (2 dirs c n)
  have "lookup n True fs \<noteq> Enter c'" for fs by (induction fs) auto
  then show ?case by auto
qed (auto split: option.splits lookup_result.splits)

context block_device
begin

definition get_file_outcome :: "lookup_result \<Rightarrow> fat_error_t \<Rightarrow> 'w search \<Rightarrow> bool" where
  "get_file_outcome l e st \<longleftrightarrow>
     (case l of
        File f \<Rightarrow> e = FAT_SUCCESS \<and> first_cluster (current_entry st) = df_cluster f \<and>
          fi_file_size (current_entry st) = df_size f
      | _ \<Rightarrow> e = FAT_ERROR_FILE_NOT_FOUND \<or> e = FAT_ERROR_END_OF_CHAIN)"

lemma find_in_dir:
  assumes "ready (sd (s_fs st))" "v = g_fat32_volume_info (s_fs st)" "vol_ok v"
    "d = disk (sd (s_fs st))" "dir_on_disk v d c fs" "dir_iter st = fresh_iter c"
    "\<forall>n. junk_ok (junk n)" "length (filename (current_entry st)) = 256" "component_ok name"
  shows "\<exists>tail r st'. find_entry dev junk (name @ [0]) final st = Some (r, st') \<and>
    fs_same (s_fs st) (s_fs st') \<and> length (filename (current_entry st')) = 256 \<and>
    lookup_outcome tail (lookup name final fs) r st'"
proof -
  obtain cs tail where cs: "fat_chain v d cs" "list_all (readable v d) cs" "hd cs = c"
    "dir_entries v d cs = concat (map df_entries fs) @ tail" "dir_tail tail" "list_all dfile_ok fs"
    using assms(5) by (auto simp: dir_on_disk_def)
  have at: "iter_at v d cs (dir_iter st) 0" using fresh_iter_at [OF cs(1,2)] cs(3) assms(6) by simp
  have ck: "lfn_checksum (dir_iter st) = 0" by (simp add: assms(6) fresh_iter_def)
  have nm: "cstr (name @ [0]) name" using assms(9) by (simp add: component_ok_def cstr_def)
  have "drop 0 (dir_entries v d cs) = concat (map df_entries fs) @ tail" using cs(4) by simp
  from find_entry_spec [OF assms(1-4) at ck this cs(5,6) assms(7,8) nm]
  show ?thesis by (rule exI)
qed

lemma get_file_loop_spec:
  assumes "ready (sd (s_fs st))" "v = g_fat32_volume_info (s_fs st)" "vol_ok v"
    "d = disk (sd (s_fs st))" "dirs_on_disk v d dirs" "dir_iter st = fresh_iter c"
    "\<forall>n. junk_ok (junk n)" "length (filename (current_entry st)) = 256" "list_all component_ok ns"
    "resolve dirs c ns = Some l"
  shows "\<exists>e st'. get_file_loop dev junk (path_bytes ns @ rest) st = Some (e, st') \<and>
    fs_same (s_fs st) (s_fs st') \<and> get_file_outcome l e st'"
  using assms
proof (induction dirs c ns arbitrary: st rule: resolve.induct)
  case (1 dirs c)
  then show ?case by simp
next
  case (2 dirs c n)
  note prems = "2.prems"
  obtain fs where fs: "dirs c = Some fs" "l = lookup n True fs" using prems(10) by auto
  have n: "component_ok n" using prems(9) by simp
  have dd: "dir_on_disk v d c fs" using prems(5) fs(1) by (simp add: dirs_on_disk_def)
  obtain r st' tail where r: "find_entry dev junk (n @ [0]) True st = Some (r, st')"
    "fs_same (s_fs st) (s_fs st')" "lookup_outcome tail (lookup n True fs) r st'"
    using find_in_dir [OF prems(1-4) dd prems(6-8) n, where final = True] by blast
  have nE: "lookup n True fs \<noteq> Enter c'" for c' by (induction fs) auto
  have pc: "path_component (n @ 0 # rest) [] = Some (n, 0 # rest)"
    using path_component_app [of n "[]" 0 rest] n by (simp add: component_ok_def)
  have "get_file_loop dev junk (path_bytes [n] @ rest) st =
      (case r of Some e \<Rightarrow> Some (e, st') | None \<Rightarrow> get_file_loop dev junk (0 # rest) st')"
    using r(1) by (subst get_file_loop.simps) (simp add: pc)
  then show ?case using r(2,3) fs(2) nE
    by (auto simp: lookup_outcome_def get_file_outcome_def end_code_def split: lookup_result.splits
      if_splits)
next
  case (3 dirs c n n' ns)
  note prems = "3.prems"
  let ?path = "path_bytes (n' # ns) @ rest"
  have n: "component_ok n" "list_all component_ok (n' # ns)" using prems(9) by simp_all
  have pc: "path_component (n @ 0x2F # path_bytes (n' # ns) @ rest) [] = Some (n, 0x2F # ?path)"
    using path_component_app [of n "[]" "0x2F" ?path] n by (simp add: component_ok_def)
  show ?case
  proof (cases "n = []")
    case True
    have "\<exists>e st'. get_file_loop dev junk ?path st = Some (e, st') \<and>
        fs_same (s_fs st) (s_fs st') \<and> get_file_outcome l e st'"
      using "3.IH"(1) [OF True prems(1-6) _ prems(8) n(2)] prems(7,10) True by simp
    then show ?thesis using True by (subst get_file_loop.simps) (simp add: pc)
  next
    case False
    then obtain fs where fs: "dirs c = Some fs" using prems(10) by (auto split: option.splits)
    have dd: "dir_on_disk v d c fs" using prems(5) fs by (simp add: dirs_on_disk_def)
    obtain r st' tail where r: "find_entry dev junk (n @ [0]) False st = Some (r, st')"
      "fs_same (s_fs st) (s_fs st')" "length (filename (current_entry st')) = 256"
      "lookup_outcome tail (lookup n False fs) r st'"
      using find_in_dir [OF prems(1-4) dd prems(6-8) n(1), where final = False] by blast
    have loop: "get_file_loop dev junk (path_bytes (n # n' # ns) @ rest) st =
        (case r of Some e \<Rightarrow> Some (e, st') | None \<Rightarrow> get_file_loop dev junk ?path st')"
      using False r(1) by (subst get_file_loop.simps) (simp add: pc split: option.split)
    show ?thesis
    proof (cases "lookup n False fs")
      case (Enter c')
      then have e: "r = None" "dir_iter st' = fresh_iter c'" using r(4) by (simp_all add: lookup_outcome_def)
      have "\<exists>e st2. get_file_loop dev junk ?path st' = Some (e, st2) \<and>
          fs_same (s_fs st') (s_fs st2) \<and> get_file_outcome l e st2"
        using "3.IH"(2) [OF False fs Enter, of st'] prems r(2,3) e(2) n(2) fs False Enter
        by (simp add: fs_same_def)
      then show ?thesis using e(1) fs_same_trans [OF r(2)] unfolding loop by auto
    next
      case Missing
      then have "l = Missing" using prems(10) fs False by simp
      then show ?thesis using Missing r(2,4) unfolding loop
        by (auto simp: lookup_outcome_def get_file_outcome_def end_code_def split: if_splits)
    next
      case (File f)
      moreover have "lookup n False fs \<noteq> File f" by (induction fs) auto
      ultimately show ?thesis by simp
    qed
  qed
qed

lemma get_file_spec:
  assumes "ready (sd s)" "v = g_fat32_volume_info s" "vol_ok v" "dirs_on_disk v (disk (sd s)) dirs"
    "\<forall>n. junk_ok (junk n)" "length (filename entry0) = 256" "list_all component_ok ns"
    "resolve dirs (root_dir_cluster v) ns = Some l"
  shows "\<exists>e file' s'. get_file dev junk entry0 (Some (x # path_bytes ns @ rest)) (Some file0) s =
      Some (e, file', s') \<and> fs_same s s' \<and>
    (case l of
       File f \<Rightarrow> e = FAT_SUCCESS \<and> (\<exists>i. file' = Some i \<and> first_cluster i = df_cluster f \<and>
         fi_file_size i = df_size f)
     | _ \<Rightarrow> e = FAT_ERROR_FILE_NOT_FOUND \<or> e = FAT_ERROR_END_OF_CHAIN)"
proof -
  let ?st = "\<lparr>dir_iter = fresh_iter (root_dir_cluster v), current_entry = entry0, calls = 0, s_fs = s\<rparr>"
  obtain e st' where "get_file_loop dev junk (path_bytes ns @ rest) ?st = Some (e, st')"
    "fs_same s (s_fs st')" "get_file_outcome l e st'"
    using get_file_loop_spec [of ?st v "disk (sd s)" dirs "root_dir_cluster v" junk ns l rest] assms
    by auto
  then show ?thesis using assms(2,3)
    by (auto simp: get_file_def Let_def init_iterator vol_ok_def get_file_outcome_def
      split: lookup_result.splits)
qed

end

end
