(* ===== verification/Fat_Mount.thy ===== *)
theory Fat_Mount
  imports Fat_Path
begin

unbundle bit_operations_syntax

text \<open>
  Mounting: \<open>fat32_init\<close> stores exactly the fields of the partition table and of the boot sector,
  read at their places in the whole sectors.  The driver reads only the parts of the sectors it
  needs and so works with shifted offsets; \<open>geometry\<close> is the specification with the offsets of the
  on-disk format.
\<close>

section \<open>The fields on the disk\<close>

definition le32_at :: "u8 list \<Rightarrow> nat \<Rightarrow> u32" where
  "le32_at bs i = read_le32 ((!) bs) (of_nat i)"

definition le16_at :: "u8 list \<Rightarrow> nat \<Rightarrow> u16" where
  "le16_at bs i = read_le16 ((!) bs) (of_nat i)"

text \<open>Entry \<open>i\<close> of the partition table is an active FAT32 partition.\<close>

definition fat_partition :: "u8 list \<Rightarrow> nat \<Rightarrow> bool" where
  "fat_partition mbr i \<longleftrightarrow> mbr ! (446 + 16 * i) AND 0x80 \<noteq> 0 \<and>
     (mbr ! (450 + 16 * i) = 0x0B \<or> mbr ! (450 + 16 * i) = 0x0C)"

definition geometry :: "u8 list \<Rightarrow> nat \<Rightarrow> u8 list \<Rightarrow> fat32_volume_info_t" where
  "geometry mbr i bpb =
     (let start = le32_at mbr (454 + 16 * i); total = le32_at mbr (458 + 16 * i);
          spc = bpb ! 0x0D; reserved = ucast (le16_at bpb 0x0E) :: u32;
          fats = ucast (bpb ! 0x10) * le32_at bpb 0x24
      in \<lparr>volume_start_lba = start, bytes_per_sector = le16_at bpb 0x0B, sectors_per_cluster = spc,
          reserved_sector_count = le16_at bpb 0x0E, num_fats = bpb ! 0x10,
          fat_size_sectors = le32_at bpb 0x24, root_dir_cluster = le32_at bpb 0x2C,
          total_sectors = total,
          total_clusters = (total - (reserved + fats)) div ucast spc,
          first_fat_lba = start + reserved, data_start_lba = start + reserved + fats,
          is_initialized = True, fsinfo_sector_lba = le16_at bpb 0x30,
          backup_boot_sector_lba = le16_at bpb 0x32,
          bytes_per_cluster = ucast spc * ucast (le16_at bpb 0x0B)\<rparr>)"

section \<open>Partial reads see the same fields\<close>

lemma read_le32_slice:
  assumes "unat o' + 4 \<le> n" "k + n \<le> length bs" "unat i = k + unat o'"
  shows "read_le32 ((!) (take n (drop k bs))) o' = read_le32 ((!) bs) i"
  using assms by (intro read_le32_cong) (simp add: add.assoc)

lemma read_le16_cong:
  assumes "\<And>i. i < 2 \<Longrightarrow> f (unat off + i) = g (unat off' + i)"
  shows "read_le16 f off = read_le16 g off'"
  using assms [of 0] assms [of 1] by (simp add: read_le16_def Let_def)

lemma read_le16_slice:
  assumes "unat o' + 2 \<le> n" "k + n \<le> length bs" "unat i = k + unat o'"
  shows "read_le16 ((!) (take n (drop k bs))) o' = read_le16 ((!) bs) i"
  using assms by (intro read_le16_cong) (simp add: add.assoc)

lemma bpb_fields_geometry:
  assumes "length bpb = 512" "volume_start_lba v = le32_at mbr (454 + 16 * i)"
    "total_sectors v = le32_at mbr (458 + 16 * i)"
  shows "(let w = bpb_fields v (take 41 (drop 11 bpb)) in
    w\<lparr>total_clusters := (total_sectors w -
        (ucast (reserved_sector_count w) + ucast (num_fats w) * fat_size_sectors w)) div
        ucast (sectors_per_cluster w), is_initialized := True\<rparr>) = geometry mbr i bpb"
proof -
  have "read_le16 ((!) (take 41 (drop 11 bpb))) 0 = le16_at bpb 11"
    "read_le16 ((!) (take 41 (drop 11 bpb))) 3 = le16_at bpb 14"
    "read_le16 ((!) (take 41 (drop 11 bpb))) 37 = le16_at bpb 48"
    "read_le16 ((!) (take 41 (drop 11 bpb))) 39 = le16_at bpb 50"
    unfolding le16_at_def by (rule read_le16_slice; simp add: assms(1))+
  moreover have "read_le32 ((!) (take 41 (drop 11 bpb))) 25 = le32_at bpb 36"
    "read_le32 ((!) (take 41 (drop 11 bpb))) 33 = le32_at bpb 44"
    unfolding le32_at_def by (rule read_le32_slice; simp add: assms(1))+
  moreover have "take 41 (drop 11 bpb) ! 2 = bpb ! 13" "take 41 (drop 11 bpb) ! 5 = bpb ! 16"
    using assms(1) by simp_all
  ultimately show ?thesis
    using assms(2,3) by (cases v) (simp add: bpb_fields_def geometry_def Let_def)
qed

section \<open>The parsers\<close>

lemma mbr_entry:
  assumes "length mbr = 512" "i < 4"
  shows "take 66 (drop 446 mbr) ! unat (of_nat i * 16 :: u16) = mbr ! (446 + 16 * i)"
    "take 66 (drop 446 mbr) ! unat (of_nat i * 16 + 4 :: u16) = mbr ! (450 + 16 * i)"
    "read_le32 ((!) (take 66 (drop 446 mbr))) (of_nat i * 16 + 12) = le32_at mbr (458 + 16 * i)"
    "read_le32 ((!) (take 66 (drop 446 mbr))) (of_nat i * 16 + 8) = le32_at mbr (454 + 16 * i)"
proof -
  have i: "i \<in> {0, 1, 2, 3}" using assms(2) by auto
  show "take 66 (drop 446 mbr) ! unat (of_nat i * 16 :: u16) = mbr ! (446 + 16 * i)"
    "take 66 (drop 446 mbr) ! unat (of_nat i * 16 + 4 :: u16) = mbr ! (450 + 16 * i)"
    using i assms(1) by auto
  show "read_le32 ((!) (take 66 (drop 446 mbr))) (of_nat i * 16 + 12) = le32_at mbr (458 + 16 * i)"
    "read_le32 ((!) (take 66 (drop 446 mbr))) (of_nat i * 16 + 8) = le32_at mbr (454 + 16 * i)"
    unfolding le32_at_def by (rule read_le32_slice; use i assms(1) in auto)+
qed

lemma find_SomeD:
  assumes "find P xs = Some x" shows "x \<in> set xs" "P x"
  using assms by (induction xs) (auto split: if_splits)

lemma find_partition:
  assumes "length mbr = 512"
  shows "find (\<lambda>offset. take 66 (drop 446 mbr) ! unat offset AND 0x80 \<noteq> 0 \<and>
        (take 66 (drop 446 mbr) ! unat (offset + 4) = 0x0B \<or>
         take 66 (drop 446 mbr) ! unat (offset + 4) = 0x0C))
      (map (\<lambda>i :: u16. i * 16) [0, 1, 2, 3]) =
    map_option (\<lambda>i. of_nat i * 16) (find (fat_partition mbr) [0, 1, 2, 3])"
proof -
  define b where "b = take 66 (drop 446 mbr)"
  note e = mbr_entry(1,2) [OF assms, folded b_def]
  show ?thesis unfolding b_def [symmetric]
    using e [of 0] e [of 1] e [of 2] e [of 3] by (simp add: fat_partition_def)
qed

context block_device
begin

lemma parseMBR_spec:
  assumes "ready (sd s)" "disk (sd s) 0 = Some mbr"
  obtains w where "ready w" "disk w = disk (sd s)"
    "parseMBR dev s =
      (if le16_at mbr 510 \<noteq> 0xAA55 then Some (False, s\<lparr>sd := w\<rparr>)
       else case find (fat_partition mbr) [0, 1, 2, 3] of
         None \<Rightarrow> Some (False, s\<lparr>sd := w\<rparr>)
       | Some i \<Rightarrow> Some (True, s\<lparr>sd := w, g_fat32_volume_info := (g_fat32_volume_info s)
           \<lparr>total_sectors := le32_at mbr (458 + 16 * i),
            volume_start_lba := le32_at mbr (454 + 16 * i)\<rparr>\<rparr>))"
proof -
  have len: "length mbr = 512" by (rule sector_length [OF assms])
  define b where "b = take 66 (drop 446 mbr)"
  obtain w where w: "dev_read_partial dev 0 446 66 (sd s) = Some (Some b, w)"
    "ready w" "disk w = disk (sd s)"
    using partial_law [OF assms(1), of 446 66 0] assms(2) by (auto simp: b_def)
  have sig: "read_le16 ((!) b) 64 = le16_at mbr 510"
    unfolding le16_at_def b_def by (rule read_le16_slice) (simp_all add: len)
  note fp = find_partition [OF len, folded b_def]
  have entry: "read_le32 ((!) b) (of_nat i * 16 + 12) = le32_at mbr (458 + 16 * i)"
    "read_le32 ((!) b) (of_nat i * 16 + 8) = le32_at mbr (454 + 16 * i)"
    if "find (fat_partition mbr) [0, 1, 2, 3] = Some i" for i
    using mbr_entry(3,4) [OF len, of i, folded b_def] find_SomeD(1) [OF that] by fastforce+
  have "parseMBR dev s =
      (if le16_at mbr 510 \<noteq> 0xAA55 then Some (False, s\<lparr>sd := w\<rparr>)
       else case map_option (\<lambda>i. of_nat i * 16) (find (fat_partition mbr) [0, 1, 2, 3]) of
         None \<Rightarrow> Some (False, s\<lparr>sd := w\<rparr>)
       | Some off \<Rightarrow> Some (True, s\<lparr>sd := w, g_fat32_volume_info := (g_fat32_volume_info s)
           \<lparr>total_sectors := read_le32 ((!) b) (off + 12),
            volume_start_lba := read_le32 ((!) b) (off + 8)\<rparr>\<rparr>))"
    unfolding parseMBR_def w(1) fp [symmetric] by (simp only: sig bind.simps Let_def prod.case option.case)
      simp
  then show thesis
    using that [OF w(2,3)] entry by (cases "find (fat_partition mbr) [0, 1, 2, 3]") simp_all
qed

lemma fat32_init_spec:
  assumes "ready (sd s)" "disk (sd s) 0 = Some mbr" "le16_at mbr 510 = 0xAA55"
    "find (fat_partition mbr) [0, 1, 2, 3] = Some i"
    "disk (sd s) (le32_at mbr (454 + 16 * i)) = Some bpb" "bpb ! 0x0D \<noteq> 0"
  obtains w where "ready w" "disk w = disk (sd s)"
    "fat32_init dev s = Some (True, s\<lparr>sd := w, g_fat32_volume_info := geometry mbr i bpb,
      open_file_handles := map (\<lambda>h. h\<lparr>is_free := True\<rparr>) (open_file_handles s)\<rparr>)"
proof -
  let ?v = "(g_fat32_volume_info s)\<lparr>total_sectors := le32_at mbr (458 + 16 * i),
    volume_start_lba := le32_at mbr (454 + 16 * i)\<rparr>"
  obtain w1 where w1: "ready w1" "disk w1 = disk (sd s)"
    "parseMBR dev s = Some (True, s\<lparr>sd := w1, g_fat32_volume_info := ?v\<rparr>)"
    using parseMBR_spec [OF assms(1,2)] assms(3,4) by auto
  obtain w2 where w2: "dev_read_partial dev (le32_at mbr (454 + 16 * i)) 0x0B 41 w1 =
      Some (Some (take 41 (drop 11 bpb)), w2)" "ready w2" "disk w2 = disk (sd s)"
    using partial_law [OF w1(1), of "0x0B" 41 "le32_at mbr (454 + 16 * i)"] assms(5) w1(2) by auto
  have len: "length bpb = 512" by (rule sector_length [OF assms(1,5)])
  have "sectors_per_cluster (bpb_fields ?v (take 41 (drop 11 bpb))) = bpb ! 13"
    using len by (simp add: bpb_fields_def Let_def)
  then have "parseBPB dev (s\<lparr>sd := w1, g_fat32_volume_info := ?v\<rparr>) =
      Some (True, s\<lparr>sd := w2, g_fat32_volume_info := geometry mbr i bpb\<rparr>)"
    using bpb_fields_geometry [OF len, of ?v mbr i] w2(1) assms(6)
    by (simp add: parseBPB_def Let_def)
  then have "fat32_init dev s = Some (True, s\<lparr>sd := w2, g_fat32_volume_info := geometry mbr i bpb,
      open_file_handles := map (\<lambda>h. h\<lparr>is_free := True\<rparr>) (open_file_handles s)\<rparr>)"
    using w1(3) by (simp add: fat32_init_def)
  then show thesis using that w2(2,3) by blast
qed

end

end
