(* ===== verification/Fat_Example.thy ===== *)
theory Fat_Example
  imports Fat_Mount
begin

unbundle bit_operations_syntax

text \<open>
  A small volume in memory, for the properties to be applied to: a partition table in sector 0, a
  boot sector in sector 1, one table sector, the root directory in cluster 2 and the file
  \<open>HELLO.TXT\<close> of 600 bytes in the clusters 3 and 4, one sector each.
\<close>

section \<open>A device in memory\<close>

definition ram_dev :: "disk blockdev" where
  "ram_dev = \<lparr>dev_read = \<lambda>lba w. Some (w lba, w),
     dev_read_partial = \<lambda>lba off len w.
       Some (map_option (\<lambda>bs. take (unat len) (drop (unat off) bs)) (w lba), w),
     dev_write = \<lambda>lba bs w. Some (True, w(lba \<mapsto> bs))\<rparr>"

interpretation ramdisk: block_device ram_dev sectors_512 "\<lambda>w. w"
  by unfold_locales (auto simp: ram_dev_def sectors_512_def)

section \<open>The volume\<close>

definition sector :: "u8 list \<Rightarrow> u8 list" where
  "sector bs = take 512 (bs @ replicate 512 0)"

lemma length_sector [simp]: "length (sector bs) = 512"
  by (simp add: sector_def)

lemma nth_sector: "i < 512 \<Longrightarrow> sector bs ! i = (if i < length bs then bs ! i else 0)"
  by (auto simp: sector_def nth_append)

definition mbr1 :: "u8 list" where
  "mbr1 = sector (replicate 446 0 @ [0x80, 0, 0, 0, 0x0C, 0, 0, 0, 1, 0, 0, 0, 11, 0, 0, 0] @
     replicate 48 0 @ [0x55, 0xAA])"

definition bpb1 :: "u8 list" where
  "bpb1 = sector (replicate 11 0 @ [0, 2, 1, 1, 0, 1] @ replicate 19 0 @ [1, 0, 0, 0] @
     [0, 0, 0, 0] @ [2, 0, 0, 0] @ [1, 0] @ [6, 0])"

definition fat1 :: "u8 list" where
  "fat1 = sector [0xF8, 0xFF, 0xFF, 0x0F, 0xFF, 0xFF, 0xFF, 0x0F,
     0xFF, 0xFF, 0xFF, 0x0F, 4, 0, 0, 0, 0xFF, 0xFF, 0xFF, 0x0F]"

definition hello_entry :: "u8 list" where
  "hello_entry = [0x48, 0x45, 0x4C, 0x4C, 0x4F, 0x20, 0x20, 0x20, 0x54, 0x58, 0x54, 0x20] @
     replicate 14 0 @ [3, 0, 0x58, 2, 0, 0]"

definition hello :: dfile where
  "hello = \<lparr>df_parts = [], df_base = [0x48, 0x45, 0x4C, 0x4C, 0x4F], df_ext = [0x54, 0x58, 0x54],
     df_entry = hello_entry\<rparr>"

text \<open>The content of the file's first sector is a parameter.\<close>

definition disk_of :: "u8 list \<Rightarrow> disk" where
  "disk_of a = Map.empty(0 \<mapsto> mbr1, 1 \<mapsto> bpb1, 2 \<mapsto> fat1, 3 \<mapsto> sector hello_entry,
     4 \<mapsto> a, 5 \<mapsto> replicate 512 0x42)"

definition disk1 :: disk where
  "disk1 = disk_of (replicate 512 0x41)"

definition vol1 :: fat32_volume_info_t where
  "vol1 = \<lparr>volume_start_lba = 1, bytes_per_sector = 512, sectors_per_cluster = 1,
     reserved_sector_count = 1, num_fats = 1, fat_size_sectors = 1, root_dir_cluster = 2,
     total_sectors = 11, total_clusters = 9, first_fat_lba = 2, data_start_lba = 3,
     is_initialized = True, fsinfo_sector_lba = 1, backup_boot_sector_lba = 6,
     bytes_per_cluster = 512\<rparr>"

lemma sectors_disk_of: "length a = 512 \<Longrightarrow> sectors_512 (disk_of a)"
  by (auto simp: sectors_512_def disk_of_def mbr1_def bpb1_def fat1_def split: if_splits)

lemma sectors_disk1: "sectors_512 disk1"
  by (simp add: disk1_def sectors_disk_of)

lemma vol1_ok: "vol_ok vol1"
  by (simp add: vol_ok_def vol1_def)

lemma vol1_geometry: "geometry mbr1 0 bpb1 = vol1"
proof -
  have "le32_at mbr1 454 = 1" "le32_at mbr1 458 = 11"
    by (simp_all add: le32_at_def read_le32_def mbr1_def nth_sector nth_append)
  moreover have "le16_at bpb1 11 = 512" "le16_at bpb1 14 = 1" "le16_at bpb1 48 = 1" "le16_at bpb1 50 = 6"
    by (simp_all add: le16_at_def read_le16_def bpb1_def nth_sector nth_append)
  moreover have "le32_at bpb1 36 = 1" "le32_at bpb1 44 = 2"
    by (simp_all add: le32_at_def read_le32_def bpb1_def nth_sector nth_append)
  moreover have "bpb1 ! 13 = 1" "bpb1 ! 16 = 1"
    by (simp_all add: bpb1_def nth_sector nth_append)
  ultimately show ?thesis by (simp add: geometry_def vol1_def)
qed

lemma mount1:
  "le16_at mbr1 510 = 0xAA55" "find (fat_partition mbr1) [0, 1, 2, 3] = Some 0"
  "disk1 0 = Some mbr1" "disk1 (le32_at mbr1 454) = Some bpb1" "bpb1 ! 13 \<noteq> 0"
proof -
  have "le32_at mbr1 454 = 1" by (simp add: le32_at_def read_le32_def mbr1_def nth_sector nth_append)
  then show "disk1 (le32_at mbr1 454) = Some bpb1" by (simp add: disk1_def disk_of_def)
  show "le16_at mbr1 510 = 0xAA55" "find (fat_partition mbr1) [0, 1, 2, 3] = Some 0"
    by (simp_all add: le16_at_def read_le16_def mbr1_def nth_sector nth_append fat_partition_def)
  show "disk1 0 = Some mbr1" "bpb1 ! 13 \<noteq> 0"
    by (simp_all add: disk1_def disk_of_def bpb1_def nth_sector nth_append)
qed

section \<open>The chains and the directory\<close>

lemma fat_entries_of:
  "fat_entry vol1 (disk_of a) 2 = Some 0x0FFFFFFF" "fat_entry vol1 (disk_of a) 3 = Some 4"
  "fat_entry vol1 (disk_of a) 4 = Some 0x0FFFFFFF"
  by (simp_all add: fat_entry_def vol1_def disk_of_def fat1_def read_le32_def nth_sector)

lemma chains_of: "fat_chain vol1 (disk_of a) [2]" "fat_chain vol1 (disk_of a) [3, 4]"
proof -
  have "total_clusters vol1 = 9" by (simp add: vol1_def)
  then show "fat_chain vol1 (disk_of a) [2]" "fat_chain vol1 (disk_of a) [3, 4]"
    by (simp_all add: next_cluster_def fat_entries_of)
qed

lemma lba1: "fatClusterToLba vol1 2 = 3" "fatClusterToLba vol1 3 = 4" "fatClusterToLba vol1 4 = 5"
  by (simp_all add: fatClusterToLba_def vol1_def)

lemma clusters_of:
  "cluster_sectors vol1 (disk_of a) 2 = [Some (sector hello_entry)]"
  "cluster_sectors vol1 (disk_of a) 3 = [Some a]"
  "cluster_sectors vol1 (disk_of a) 4 = [Some (replicate 512 0x42)]"
  by (simp_all add: cluster_sectors_def lba1) (simp_all add: vol1_def disk_of_def)

lemma readable_of: "list_all (readable vol1 (disk_of a)) [2]" "list_all (readable vol1 (disk_of a)) [3, 4]"
  by (simp_all add: readable_def clusters_of)

lemma file_bytes_of:
  "file_bytes vol1 (disk_of a) [2] = sector hello_entry"
  "file_bytes vol1 (disk_of a) [3, 4] = a @ replicate 512 0x42"
  by (simp_all add: file_bytes_def cluster_bytes_def clusters_of)

lemma hello_ok: "dfile_ok hello"
  by code_simp

lemma hello_fields: "df_cluster hello = 3" "df_size hello = 600" "\<not> df_is_dir hello"
  "df_name hello = [0x48, 0x45, 0x4C, 0x4C, 0x4F, 0x2E, 0x54, 0x58, 0x54]"
  by (simp_all add: hello_def hello_entry_def df_cluster_def df_size_def df_is_dir_def df_name_def
    read_le16_def read_le32_def FAT_ATTR_DIRECTORY_def sfn_display_def nth_append)

lemma root_entries_of:
  obtains tail where "dir_entries vol1 (disk_of a) [2] = df_entries hello @ tail" "dir_tail tail"
proof -
  let ?es = "dir_entries vol1 (disk_of a) [2]"
  have len: "length ?es = 16" by (simp add: dir_entries_def vol1_def)
  have nth: "?es ! i = entry_at (sector hello_entry) i" if "i < 16" for i
    using that by (simp add: dir_entries_def file_bytes_of) (simp add: vol1_def)
  have hl: "length hello_entry = 32" by (simp add: hello_entry_def)
  have "?es ! 0 = hello_entry" using nth [of 0] hl by (simp add: entry_at_def sector_def)
  moreover have "?es ! 1 ! 0 = 0" using nth [of 1] hl by (simp add: entry_at_def nth_sector)
  ultimately have "?es = df_entries hello @ tl ?es" "dir_tail (tl ?es)"
    using len by (cases ?es; cases "tl ?es"; simp add: df_entries_def hello_def dir_tail_def)+
  then show thesis by (rule that)
qed

lemma root_dir_of: "dir_on_disk vol1 (disk_of a) 2 [hello]"
proof -
  obtain tail where "dir_entries vol1 (disk_of a) [2] = df_entries hello @ tail" "dir_tail tail"
    by (rule root_entries_of)
  then show ?thesis
    using chains_of(1) readable_of(1) hello_ok unfolding dir_on_disk_def
    by (intro conjI exI [of _ "[2]"] exI [of _ tail]) simp_all
qed

definition dirs1 :: "u32 \<Rightarrow> dfile list option" where
  "dirs1 = [2 \<mapsto> [hello]]"

lemma dirs1_on_disk_of: "dirs_on_disk vol1 (disk_of a) dirs1"
  using root_dir_of by (auto simp: dirs_on_disk_def dirs1_def split: if_splits)

lemmas chains1 = chains_of [of "replicate 512 0x41", folded disk1_def]
lemmas readable1 = readable_of [of "replicate 512 0x41", folded disk1_def]
lemmas file_bytes1 = file_bytes_of [of "replicate 512 0x41", folded disk1_def]
lemmas root_entries1 = root_entries_of [of "replicate 512 0x41", folded disk1_def]
lemmas dirs1_on_disk = dirs1_on_disk_of [of "replicate 512 0x41", folded disk1_def]

text \<open>The file system after mounting, and the stack contents the calls start with.\<close>

definition free_handle :: file_handle_t where
  "free_handle = \<lparr>cluster_start = 0, fh_current_cluster = 0, current_offset = 0, fh_file_size = 0,
     current_file_pos = 0, is_free = True, mode = 0\<rparr>"

definition fs1 :: "disk fs" where
  "fs1 = \<lparr>g_fat32_volume_info = vol1, open_file_handles = replicate 16 free_handle,
     ram = (\<lambda>_. 0), sd = disk1\<rparr>"

definition junk1 :: lfn_locals where
  "junk1 = \<lparr>lfn_buffer = replicate 800 0, lfn_parts_found = 0\<rparr>"

definition info1 :: fat_file_info_t where
  "info1 = \<lparr>filename = replicate 256 0, first_cluster = 0, fi_file_size = 0, attributes = 0,
     is_directory = False\<rparr>"

definition hello_handle :: file_handle_t where
  "hello_handle = \<lparr>cluster_start = 3, fh_current_cluster = 3, current_offset = 0,
     fh_file_size = 600, current_file_pos = 0, is_free = False, mode = 0\<rparr>"

lemma hello_handle_at: "handle_at vol1 disk1 hello_handle [3, 4]"
  using chains1(2) readable1(2)
  by (auto simp: handle_at_def hello_handle_def vol1_def intro!: exI [of _ 0])

lemma junk1_ok: "junk_ok junk1"
  by (simp add: junk_ok_def junk1_def)

end
