(* ===== verification/Fat_Props.thy ===== *)
theory Fat_Props
  imports Fat_Mount Fat_Example
begin

unbundle bit_operations_syntax

text \<open>
  The properties of the FAT driver, for every device that keeps the contract \<open>block_device\<close>, and
  a small volume to apply them to: one directory with one file of two clusters.
\<close>

section \<open>Opening and reading\<close>

definition first_free :: "file_handle_t list \<Rightarrow> nat option" where
  "first_free hs = find (\<lambda>i. is_free (hs ! i)) [0..<MAX_OPEN_FILES]"

lemma first_freeD: "first_free hs = Some i \<Longrightarrow> i < 16 \<and> is_free (hs ! i)"
  using find_SomeD [of _ "[0..<MAX_OPEN_FILES]" i] by (auto simp: first_free_def MAX_OPEN_FILES_def)

definition opened :: "dfile \<Rightarrow> u8 \<Rightarrow> file_handle_t" where
  "opened f md = \<lparr>cluster_start = df_cluster f, fh_current_cluster = df_cluster f,
     current_offset = 0, fh_file_size = df_size f, current_file_pos = 0, is_free = False, mode = md\<rparr>"

lemma opened_at:
  assumes "vol_ok v" "fat_chain v d cs" "list_all (readable v d) cs" "hd cs = df_cluster f"
    "unat (df_size f) < 2147483648" "unat (df_size f) \<le> length cs * unat (bytes_per_cluster v)"
  shows "handle_at v d (opened f md) cs"
proof -
  have "cs \<noteq> []" using assms(2) by auto
  then have "0 < length cs" "cs ! 0 = df_cluster f" using assms(4) by (simp_all add: hd_conv_nth)
  then show ?thesis
    using assms bytes_per_cluster_bounds(1) [OF assms(1)]
    by (auto simp: handle_at_def opened_def intro!: exI [of _ 0])
qed

context block_device
begin

lemma fat32_read_spec:
  assumes "ready (sd s)" "v = g_fat32_volume_info s" "vol_ok v" "d = disk (sd s)"
    "unat fid < 16" "length (open_file_handles s) = 16" "h = open_file_handles s ! unat fid"
    "\<not> is_free h" "handle_at v d h cs" "buffer \<noteq> 0" "unat n < 2147483648"
  shows "\<exists>s' h'. fat32_read dev fid buffer n s = Some (True, s') \<and>
    ram s' = store_bytes (ram s) buffer (take (unat n) (drop (unat (current_file_pos h))
      (take (unat (fh_file_size h)) (file_bytes v d cs)))) \<and>
    open_file_handles s' = (open_file_handles s)[unat fid := h'] \<and> handle_at v d h' cs \<and>
    advanced h (min (unat n) (unat (fh_file_size h) - unat (current_file_pos h))) h' \<and>
    g_fat32_volume_info s' = v \<and> ready (sd s') \<and> disk (sd s') = d"
proof -
  let ?pos = "unat (current_file_pos h)" and ?size = "unat (fh_file_size h)"
  let ?k = "min (unat n) (?size - ?pos)"
  have sz: "?size < 2147483648" "?pos \<le> ?size"
    using assms(9) by (simp_all add: handle_at_def word_le_nat_alt)
  have sub: "unat (fh_file_size h - current_file_pos h) = ?size - ?pos"
    using sz(2) by (rule unat_sub_u32)
  then have k: "unat (min_int n (fh_file_size h - current_file_pos h)) = ?k"
    using assms(11) sz by (subst unat_min_int) simp_all
  have same: "take (unat n) (drop ?pos (take ?size (file_bytes v d cs))) =
      take ?k (drop ?pos (file_bytes v d cs))"
    by (simp add: drop_take take_take)
  have init: "is_initialized v" using assms(3) by (simp add: vol_ok_def)
  let ?a = "min_int n (fh_file_size h - current_file_pos h)"
  have rd: "fat32_read dev fid buffer n s =
      (if ?a = 0 then Some (True, s)
       else map_option (\<lambda>(e, s). (e = FAT_SUCCESS, s)) (read_file_loop dev (unat fid) buffer ?a 0 s))"
    using assms(2,5,7,8,10) init
    by (auto simp: fat32_read_def fat_read_file_def Let_def MAX_OPEN_FILES_def map_option_case
      split: option.split)
  have pre: "unat (0 :: u32) + ?k = unat ?a" "?pos + ?k \<le> ?size" "unat ?a < 2147483648"
    "unat fid < length (open_file_handles s)"
    using k sz assms(5,6,11) by auto
  have "\<exists>s' h'. read_file_loop dev (unat fid) buffer ?a 0 s = Some (FAT_SUCCESS, s') \<and>
      read_result s (unat fid) (buffer + 0) (take ?k (drop ?pos (file_bytes v d cs))) h' s' \<and>
      handle_at v d h' cs \<and> advanced h ?k h'"
    using read_file_loop_spec [OF assms(1) _ pre(4) assms(7) _ pre(1,2,3), of cs buffer]
      assms(2,3,4,9) by simp
  then obtain s' h' where r: "read_file_loop dev (unat fid) buffer ?a 0 s = Some (FAT_SUCCESS, s')"
    "read_result s (unat fid) (buffer + 0) (take ?k (drop ?pos (file_bytes v d cs))) h' s'"
    "handle_at v d h' cs" "advanced h ?k h'" by blast
  show ?thesis
  proof (cases "?a = 0")
    case True
    then have "?k = 0" using k by simp
    then show ?thesis unfolding same
      using True rd assms by (intro exI [of _ s] exI [of _ h]) (auto simp: advanced_def)
  next
    case False
    then show ?thesis unfolding same using rd r assms(2,4) by (auto simp: read_result_def)
  qed
qed

lemma fat32_open_spec:
  assumes "ready (sd s)" "v = g_fat32_volume_info s" "vol_ok v" "d = disk (sd s)"
    "dirs_on_disk v d dirs" "\<forall>n. junk_ok (junk n)" "length (filename entry0) = 256"
    "list_all component_ok ns" "resolve dirs (root_dir_cluster v) ns = Some l"
  shows "\<exists>s'. fs_same s s' \<and>
    fat32_open dev junk entry0 file0 (Some (x # path_bytes ns @ rest)) md s =
      (case (l, first_free (open_file_handles s)) of
         (File f, Some i) \<Rightarrow> Some (of_nat i, s'\<lparr>open_file_handles :=
           (open_file_handles s)[i := opened f md]\<rparr>)
       | _ \<Rightarrow> Some (- 1, s'))"
proof -
  obtain e file' s' where g: "get_file dev junk entry0 (Some (x # path_bytes ns @ rest)) (Some file0) s =
      Some (e, file', s')" "fs_same s s'"
    "case l of
       File f \<Rightarrow> e = FAT_SUCCESS \<and> (\<exists>i. file' = Some i \<and> first_cluster i = df_cluster f \<and>
         fi_file_size i = df_size f)
     | _ \<Rightarrow> e = FAT_ERROR_FILE_NOT_FOUND \<or> e = FAT_ERROR_END_OF_CHAIN"
    using get_file_spec [OF assms(1-3) assms(5) [unfolded assms(4)] assms(6-9), of x rest file0] by blast
  have hs: "open_file_handles s' = open_file_handles s" using g(2) by (simp add: fs_same_def)
  show ?thesis
  proof (cases l)
    case (File f)
    then obtain i where "e = FAT_SUCCESS" "file' = Some i" "first_cluster i = df_cluster f"
      "fi_file_size i = df_size f" using g(3) by auto
    then show ?thesis using File g(1,2) hs
      by (intro exI [of _ s'] conjI)
        (auto simp: fat32_open_def first_free_def handle_of_def opened_def split: option.split)
  next
    case Missing
    then have "e \<noteq> FAT_SUCCESS" using g(3) by auto
    then show ?thesis using g Missing by (auto simp: fat32_open_def)
  next
    case (Enter c)
    then show ?thesis using assms(9) resolve_not_Enter by simp
  qed
qed

text \<open>What a successful \<open>fat32_open\<close> leaves: a handle at the start of the file.\<close>

lemma open_handle_spec:
  assumes "ready (sd s)" "vol_ok (g_fat32_volume_info s)"
    "dirs_on_disk (g_fat32_volume_info s) (disk (sd s)) dirs" "\<forall>n. junk_ok (junk n)"
    "length (filename entry0) = 256" "list_all component_ok ns"
    "resolve dirs (root_dir_cluster (g_fat32_volume_info s)) ns = Some (File f)"
    "length (open_file_handles s) = 16" "first_free (open_file_handles s) = Some i"
  obtains s1 where "fat32_open dev junk entry0 file0 (Some (0x2F # path_bytes ns)) md s = Some (of_nat i, s1)"
    "i < 16" "unat (of_nat i :: u32) = i" "fat32_get_size (of_nat i) s1 = df_size f"
    "g_fat32_volume_info s1 = g_fat32_volume_info s" "disk (sd s1) = disk (sd s)" "ready (sd s1)"
    "ram s1 = ram s" "length (open_file_handles s1) = 16" "open_file_handles s1 ! i = opened f md"
proof -
  have i: "i < 16" using first_freeD [OF assms(9)] by simp
  obtain s' where "fs_same s s'" and op:
    "fat32_open dev junk entry0 file0 (Some (0x2F # path_bytes ns @ [])) md s =
      Some (of_nat i, s'\<lparr>open_file_handles := (open_file_handles s)[i := opened f md]\<rparr>)"
    using fat32_open_spec [OF assms(1) refl assms(2) refl assms(3-7), where x = "0x2F"
        and rest = "[]" and ?file0.0 = file0 and md = md] assms(9) by auto
  then show thesis
    using i assms(8) by (intro that [of "s'\<lparr>open_file_handles := (open_file_handles s)[i := opened f md]\<rparr>"])
      (simp_all add: fs_same_def fat32_get_size_def MAX_OPEN_FILES_def opened_def)
qed

text \<open>Opening a file and reading its first bytes.\<close>

lemma open_read_spec:
  assumes "ready (sd s)" "vol_ok (g_fat32_volume_info s)"
    "dirs_on_disk (g_fat32_volume_info s) (disk (sd s)) dirs" "\<forall>n. junk_ok (junk n)"
    "length (filename entry0) = 256" "list_all component_ok ns"
    "resolve dirs (root_dir_cluster (g_fat32_volume_info s)) ns = Some (File f)"
    "length (open_file_handles s) = 16" "first_free (open_file_handles s) = Some i"
    "fat_chain (g_fat32_volume_info s) (disk (sd s)) cs"
    "list_all (readable (g_fat32_volume_info s) (disk (sd s))) cs" "hd cs = df_cluster f"
    "unat (df_size f) < 2147483648"
    "unat (df_size f) \<le> length cs * unat (bytes_per_cluster (g_fat32_volume_info s))"
    "buffer \<noteq> 0" "unat n < 2147483648"
  shows "\<exists>fid s1 s2. fat32_open dev junk entry0 file0 (Some (0x2F # path_bytes ns)) md s = Some (fid, s1) \<and>
    fat32_get_size fid s1 = df_size f \<and> fat32_read dev fid buffer n s1 = Some (True, s2) \<and>
    ram s2 = store_bytes (ram s) buffer (take (unat n) (take (unat (df_size f))
      (file_bytes (g_fat32_volume_info s) (disk (sd s)) cs)))"
proof -
  let ?v = "g_fat32_volume_info s" and ?d = "disk (sd s)"
  obtain s1 where op: "fat32_open dev junk entry0 file0 (Some (0x2F # path_bytes ns)) md s = Some (of_nat i, s1)"
    "i < 16" "unat (of_nat i :: u32) = i" "fat32_get_size (of_nat i) s1 = df_size f" and s1:
    "g_fat32_volume_info s1 = ?v" "disk (sd s1) = ?d" "ready (sd s1)" "ram s1 = ram s"
    "length (open_file_handles s1) = 16" "open_file_handles s1 ! i = opened f md"
    by (rule open_handle_spec [OF assms(1-9)])
  have at: "handle_at ?v ?d (opened f md) cs" by (rule opened_at [OF assms(2,10-14)])
  have "\<exists>s2. fat32_read dev (of_nat i) buffer n s1 = Some (True, s2) \<and>
      ram s2 = store_bytes (ram s) buffer (take (unat n) (take (unat (df_size f)) (file_bytes ?v ?d cs)))"
    using fat32_read_spec [OF s1(3), of ?v ?d "of_nat i" "opened f md" cs buffer n]
      s1 op(2,3) at assms(2,15,16) by (auto simp: opened_def)
  then show ?thesis using op by auto
qed

end

section \<open>Properties\<close>

lemmas ram_block_device = ramdisk.block_device_axioms

text \<open>C5. \<open>fat32_read\<close> refines reading from a byte sequence: on every device that keeps the
  contract, through a handle whose position fields agree with the file's cluster chain, it
  returns true, stores at the buffer exactly the next bytes of the file (at most as many as
  asked for, none beyond the file size), moves the position by that number, keeps the handle
  consistent and every other handle and the disk content unchanged.\<close>

theorem fat32_read_refines:
  assumes "block_device dev ready disk" "ready (sd s)" "vol_ok (g_fat32_volume_info s)"
    "unat fid < 16" "length (open_file_handles s) = 16" "h = open_file_handles s ! unat fid"
    "\<not> is_free h" "handle_at (g_fat32_volume_info s) (disk (sd s)) h cs" "buffer \<noteq> 0"
    "unat n < 2147483648"
  shows "\<exists>s' h'. fat32_read dev fid buffer n s = Some (True, s') \<and>
    ram s' = store_bytes (ram s) buffer (take (unat n) (drop (unat (current_file_pos h))
      (take (unat (fh_file_size h)) (file_bytes (g_fat32_volume_info s) (disk (sd s)) cs)))) \<and>
    open_file_handles s' = (open_file_handles s)[unat fid := h'] \<and>
    handle_at (g_fat32_volume_info s) (disk (sd s)) h' cs \<and>
    advanced h (min (unat n) (unat (fh_file_size h) - unat (current_file_pos h))) h' \<and>
    g_fat32_volume_info s' = g_fat32_volume_info s \<and> ready (sd s') \<and> disk (sd s') = disk (sd s)"
  using block_device.fat32_read_spec [OF assms(1,2) refl assms(3) refl assms(4-10)] .

definition fs1_open :: "disk fs" where
  "fs1_open = fs1\<lparr>open_file_handles := hello_handle # replicate 15 free_handle\<rparr>"

theorem fat32_read_refines_witness:
  "\<exists>s'. fat32_read ram_dev 0 0x20002000 1000 fs1_open = Some (True, s') \<and>
     ram s' = store_bytes (\<lambda>_. 0) 0x20002000 (replicate 512 0x41 @ replicate 88 0x42)"
proof -
  have "\<exists>s' h'. fat32_read ram_dev 0 0x20002000 1000 fs1_open = Some (True, s') \<and>
      ram s' = store_bytes (\<lambda>_. 0) 0x20002000 (take 1000 (drop 0 (take 600
        (file_bytes vol1 disk1 [3, 4]))))"
    using fat32_read_refines [OF ram_block_device, of fs1_open 0 hello_handle "[3, 4]" "0x20002000" 1000]
      sectors_disk1 vol1_ok hello_handle_at
    by (auto simp: fs1_open_def fs1_def hello_handle_def)
  then show ?thesis by (simp add: file_bytes1)
qed

text \<open>C6. \<open>fat32_open\<close> refines the walk of a path through the directories of the volume: if the
  path names a file and a handle is free, the first free handle is set up for that file's first
  cluster and size, at position zero, and its index is returned; if the path names no file, or
  no handle is free, the result is \<open>-1\<close>.  Nothing else changes.  The stack is assumed to hold
  zero in the uninitialised count of name parts.\<close>

theorem fat32_open_refines:
  assumes "block_device dev ready disk" "ready (sd s)" "vol_ok (g_fat32_volume_info s)"
    "dirs_on_disk (g_fat32_volume_info s) (disk (sd s)) dirs" "\<forall>n. junk_ok (junk n)"
    "length (filename entry0) = 256" "list_all component_ok ns"
    "resolve dirs (root_dir_cluster (g_fat32_volume_info s)) ns = Some l"
  shows "\<exists>r s'. fat32_open dev junk entry0 file0 (Some (0x2F # path_bytes ns)) md s = Some (r, s') \<and>
    (case (l, first_free (open_file_handles s)) of
       (File f, Some i) \<Rightarrow> r = of_nat i \<and>
         open_file_handles s' = (open_file_handles s)[i := opened f md]
     | _ \<Rightarrow> r = - 1 \<and> open_file_handles s' = open_file_handles s) \<and>
    g_fat32_volume_info s' = g_fat32_volume_info s \<and> ram s' = ram s \<and>
    ready (sd s') \<and> disk (sd s') = disk (sd s)"
proof -
  obtain s' where "block_device.fs_same ready disk s s'"
    "fat32_open dev junk entry0 file0 (Some (0x2F # path_bytes ns @ [])) md s =
      (case (l, first_free (open_file_handles s)) of
         (File f, Some i) \<Rightarrow> Some (of_nat i, s'\<lparr>open_file_handles :=
           (open_file_handles s)[i := opened f md]\<rparr>)
       | _ \<Rightarrow> Some (- 1, s'))"
    using block_device.fat32_open_spec [OF assms(1,2) refl assms(3) refl assms(4-8)] by blast
  then show ?thesis
    by (auto simp: block_device.fs_same_def [OF assms(1)] split: lookup_result.splits option.splits)
qed

theorem fat32_open_refines_witness:
  "\<exists>s'. fat32_open ram_dev (\<lambda>_. junk1) info1 info1
       (Some (0x2F # path_bytes [[0x48, 0x45, 0x4C, 0x4C, 0x4F, 0x2E, 0x54, 0x58, 0x54]])) 0 fs1 =
     Some (0, s') \<and> open_file_handles s' ! 0 = hello_handle"
proof -
  let ?n = "[0x48, 0x45, 0x4C, 0x4C, 0x4F, 0x2E, 0x54, 0x58, 0x54] :: u8 list"
  have rs: "resolve dirs1 (root_dir_cluster (g_fat32_volume_info fs1)) [?n] = Some (File hello)"
    by (simp add: fs1_def vol1_def dirs1_def hello_fields)
  have ff: "first_free (open_file_handles fs1) = Some 0"
    by (simp add: first_free_def fs1_def free_handle_def MAX_OPEN_FILES_def upt_rec)
  have op: "opened hello 0 = hello_handle" by (simp add: opened_def hello_fields hello_handle_def)
  have ok: "list_all component_ok [?n]" by (simp add: component_ok_def)
  show ?thesis
    using fat32_open_refines [OF ram_block_device, of fs1 dirs1 "\<lambda>_. junk1" info1 "[?n]" "File hello"
        info1 0] sectors_disk1 vol1_ok dirs1_on_disk junk1_ok rs ff op ok
    by (auto simp: fs1_def info1_def)
qed

text \<open>Open, then read: on a mounted volume, opening the path of a file and reading through the
  returned handle stores the first bytes of that file's data at the buffer.\<close>

lemma open_then_read:
  assumes "block_device dev ready disk" "ready (sd s)" "vol_ok (g_fat32_volume_info s)"
    "dirs_on_disk (g_fat32_volume_info s) (disk (sd s)) dirs" "\<forall>n. junk_ok (junk n)"
    "length (filename entry0) = 256" "list_all component_ok ns"
    "resolve dirs (root_dir_cluster (g_fat32_volume_info s)) ns = Some (File f)"
    "length (open_file_handles s) = 16" "first_free (open_file_handles s) = Some i"
    "fat_chain (g_fat32_volume_info s) (disk (sd s)) cs"
    "list_all (readable (g_fat32_volume_info s) (disk (sd s))) cs" "hd cs = df_cluster f"
    "unat (df_size f) < 2147483648"
    "unat (df_size f) \<le> length cs * unat (bytes_per_cluster (g_fat32_volume_info s))"
    "buffer \<noteq> 0" "unat n < 2147483648"
  shows "\<exists>fid s1 s2. fat32_open dev junk entry0 file0 (Some (0x2F # path_bytes ns)) md s = Some (fid, s1) \<and>
    fat32_get_size fid s1 = df_size f \<and> fat32_read dev fid buffer n s1 = Some (True, s2) \<and>
    ram s2 = store_bytes (ram s) buffer (take (unat n) (take (unat (df_size f))
      (file_bytes (g_fat32_volume_info s) (disk (sd s)) cs)))"
  using block_device.open_read_spec [OF assms] .

lemma open_then_read_witness:
  "\<exists>fid s1 s2. fat32_open ram_dev (\<lambda>_. junk1) info1 info1
       (Some (0x2F # path_bytes [[0x48, 0x45, 0x4C, 0x4C, 0x4F, 0x2E, 0x54, 0x58, 0x54]])) 0 fs1 =
     Some (fid, s1) \<and> fat32_read ram_dev fid 0x20002000 4 s1 = Some (True, s2) \<and>
     ram s2 = store_bytes (\<lambda>_. 0) 0x20002000 (replicate 4 0x41)"
proof -
  let ?n = "[0x48, 0x45, 0x4C, 0x4C, 0x4F, 0x2E, 0x54, 0x58, 0x54] :: u8 list"
  have rs: "resolve dirs1 (root_dir_cluster vol1) [?n] = Some (File hello)"
    by (simp add: vol1_def dirs1_def hello_fields)
  have ff: "first_free (replicate 16 free_handle) = Some 0"
    by (simp add: first_free_def free_handle_def MAX_OPEN_FILES_def upt_rec)
  have ok: "list_all component_ok [?n]" by (simp add: component_ok_def)
  have bpc: "bytes_per_cluster vol1 = 512" by (simp add: vol1_def)
  show ?thesis
    using open_then_read [OF ram_block_device, of fs1 dirs1 "\<lambda>_. junk1" info1 "[?n]" hello 0 "[3, 4]"
        "0x20002000" 4 info1 0] sectors_disk1 vol1_ok dirs1_on_disk junk1_ok rs ff ok bpc
      chains1(2) readable1(2)
    by (auto simp: fs1_def info1_def hello_fields file_bytes1)
qed

text \<open>C10. \<open>fat_read_next_dir_entry\<close> refines a scan of the list of 32-byte entries of the
  directory: sectors and clusters disappear.  In particular it returns on every directory whose
  cluster chain ends, with the code, the file information and the iterator position the scan
  describes.\<close>

theorem read_next_dir_entry_refines:
  assumes "block_device dev ready disk" "ready (sd s)" "vol_ok (g_fat32_volume_info s)"
    "iter_at (g_fat32_volume_info s) (disk (sd s)) cs it p"
    "scan_entries (drop p (dir_entries (g_fat32_volume_info s) (disk (sd s)) cs)) (lfn_checksum it)
      junk info = Some (e, n, ck, lfn, info')"
  shows "\<exists>it' s'. fat_read_next_dir_entry dev junk (Some it) (Some info) s =
      Some (e, Some it', Some info', s') \<and> lfn_checksum it' = ck \<and>
    (e \<noteq> FAT_ERROR_END_OF_CHAIN \<longrightarrow>
      iter_at (g_fat32_volume_info s) (disk (sd s)) cs it' (p + n)) \<and>
    g_fat32_volume_info s' = g_fat32_volume_info s \<and> open_file_handles s' = open_file_handles s \<and>
    ram s' = ram s \<and> ready (sd s') \<and> disk (sd s') = disk (sd s)"
proof (rule block_device.read_next_entry [OF assms(1,2) refl assms(3) refl assms(4,5)])
  fix it' s'
  assume "fat_read_next_dir_entry dev junk (Some it) (Some info) s = Some (e, Some it', Some info', s')"
    "block_device.fs_same ready disk s s'" "lfn_checksum it' = ck"
    "e \<noteq> FAT_ERROR_END_OF_CHAIN \<Longrightarrow> iter_at (g_fat32_volume_info s) (disk (sd s)) cs it' (p + n)"
  then show ?thesis by (auto simp: block_device.fs_same_def [OF assms(1)])
qed

theorem read_next_dir_entry_refines_witness:
  "\<exists>it' info' s'. fat_read_next_dir_entry ram_dev junk1 (Some (fresh_iter 2)) (Some info1) fs1 =
     Some (FAT_SUCCESS, Some it', Some info', s') \<and> cstr (filename info') (df_name hello)"
proof -
  obtain tail where es: "dir_entries vol1 disk1 [2] = df_entries hello @ tail" by (rule root_entries1)
  obtain lfn' name where sc: "scan_entries (df_entries hello @ tail) 0 junk1 info1 =
      Some (FAT_SUCCESS, length (df_entries hello), 0, lfn', entry_info (df_entry hello) name)"
    "cstr name (df_name hello)"
    using scan_dfile [OF hello_ok junk1_ok, of info1 tail] by (auto simp: info1_def)
  have "iter_at vol1 disk1 [2] (fresh_iter 2) 0"
    by (rule fresh_iter_at) (use chains1 readable1 in simp_all)
  then show ?thesis
    using read_next_dir_entry_refines [OF ram_block_device, of fs1 "[2]" "fresh_iter 2" 0 junk1 info1]
      sc es sectors_disk1 vol1_ok
    by (auto simp: fs1_def fresh_iter_def entry_info_def)
qed

text \<open>C26. Long names round-trip: the entries of a file with a long name, as the format lays them out
  (parts of 13 characters in reverse order, each with the checksum of the short name), are read
  back as exactly that name, with the cluster, size and attributes of the short entry, when the
  count of parts on the stack happens to start at zero.\<close>

theorem long_name_round_trip:
  assumes "parts_ok parts" "parts \<noteq> []" "length (concat parts) < 256"
    "ck = fat_sfn_checksum (take 11 e)" "ck \<noteq> 0" "file_entry e" "junk_ok junk"
    "length (filename info) = 256"
  shows "\<exists>lfn' name. scan_entries (lfn_sequence ck parts @ e # es) ck0 junk info =
      Some (FAT_SUCCESS, Suc (length parts), 0, lfn', entry_info e name) \<and> cstr name (concat parts)"
proof -
  have "rows_hold (lfn_buffer junk) (parts @ []) (length parts)"
    using assms(7) by (simp add: rows_hold_def junk_ok_def)
  then show ?thesis
    using scan_long_name [of parts "[]" ck e junk info es ck0] assms by (auto simp: junk_ok_def)
qed

lemma hello_checksum: "fat_sfn_checksum (take 11 hello_entry) = 0xF1"
  by code_simp

lemma hello_file_entry: "file_entry hello_entry"
  by code_simp

theorem long_name_round_trip_witness:
  "\<exists>lfn' name. scan_entries (lfn_sequence 0xF1 [[0x61, 0x62], [0x63]] @ [hello_entry]) 0 junk1 info1 =
     Some (FAT_SUCCESS, Suc (Suc (Suc 0)), 0, lfn', entry_info hello_entry name) \<and> cstr name [0x61, 0x62, 0x63]"
  using long_name_round_trip [of "[[0x61, 0x62], [0x63]]" "0xF1" hello_entry junk1 info1 "[]" 0]
    hello_checksum hello_file_entry junk1_ok
  by (simp add: parts_ok_def lfn_char_def info1_def del: scan_entries.simps)

text \<open>C27. The count of name parts is never initialised: when the stack holds \<open>k\<close> in it and left-over
  rows behind the name's own parts, those rows are appended to the name the caller gets.\<close>

theorem lfn_count_uninitialised:
  assumes "parts_ok (parts @ extra)" "parts \<noteq> []" "length (concat (parts @ extra)) < 256"
    "ck = fat_sfn_checksum (take 11 e)" "ck \<noteq> 0" "file_entry e"
    "rows_hold (lfn_buffer junk) (parts @ extra) (length parts)"
    "lfn_parts_found junk = of_nat (length extra)" "length (filename info) = 256"
  shows "\<exists>lfn' name. scan_entries (lfn_sequence ck parts @ e # es) ck0 junk info =
      Some (FAT_SUCCESS, Suc (length parts), 0, lfn', entry_info e name) \<and>
    cstr name (concat parts @ concat extra)"
  using scan_long_name [OF assms, of es ck0] by auto

theorem lfn_count_uninitialised_witness:
  "\<exists>lfn' name. scan_entries (lfn_sequence 0xF1 [[0x61]] @ [hello_entry]) 0
       \<lparr>lfn_buffer = replicate 40 0 @ 0x7A # replicate 759 0, lfn_parts_found = 1\<rparr> info1 =
     Some (FAT_SUCCESS, Suc (Suc 0), 0, lfn', entry_info hello_entry name) \<and> cstr name [0x61, 0x7A]"
proof -
  let ?b = "replicate 40 0 @ 0x7A # replicate 759 0 :: u8 list"
  have "drop 40 ?b = 0x7A # 0 # replicate 758 0"
    by (simp add: numeral_eq_Suc)
  then have "rows_hold ?b ([[0x61]] @ [[0x7A]]) (length [[0x61 :: u8]])"
    by (auto simp: rows_hold_def less_Suc_eq)
  then show ?thesis
    using lfn_count_uninitialised [of "[[0x61]]" "[[0x7A]]" "0xF1" hello_entry
        "\<lparr>lfn_buffer = ?b, lfn_parts_found = 1\<rparr>" info1 "[]" 0] hello_checksum hello_file_entry
    by (simp add: parts_ok_def lfn_char_def info1_def del: scan_entries.simps)
qed

text \<open>C28. Short names round-trip: a name of up to eight characters with an extension of up to three,
  padded with spaces on the disk, is displayed as name, dot, extension, terminated, and the
  display of any eleven bytes fits the buffers of its callers.\<close>

theorem short_name_round_trip:
  assumes "length base \<le> 8" "length ext \<le> 3" "list_all name_char base" "list_all name_char ext"
  shows "fat_sfn_to_string (sfn_encode base ext) = sfn_display base ext @ [0] \<and>
    length (fat_sfn_to_string (sfn_encode base ext)) \<le> 13"
  by (rule conjI [OF sfn_to_string_encode [OF assms] length_fat_sfn_to_string])

theorem short_name_round_trip_witness:
  "fat_sfn_to_string (sfn_encode [0x41, 0x42] [0x43]) = [0x41, 0x42, 0x2E, 0x43, 0]"
  using short_name_round_trip [of "[0x41, 0x42]" "[0x43]"] by (simp add: name_char_def sfn_display_def)

text \<open>The checksum of a short name is the documented one: each step rotates the sum right by one
  bit and adds the next of the eleven characters.\<close>

lemma sfn_checksum_rotates:
  "fat_sfn_checksum n = foldl (\<lambda>s c. word_rotr 1 s + c) 0 (take 11 n)"
  by (rule checksum_rotate)

text \<open>C24. Mounting: on a disk with a signed partition table, \<open>fat32_init\<close> returns true, records
  exactly the fields of the first active FAT32 partition and of its boot sector, as found at
  their places in the sectors, with the derived positions of table and data area, and marks
  every handle free.\<close>

theorem fat32_init_mounts:
  assumes "block_device dev ready disk" "ready (sd s)" "disk (sd s) 0 = Some mbr"
    "le16_at mbr 510 = 0xAA55" "find (fat_partition mbr) [0, 1, 2, 3] = Some i"
    "disk (sd s) (le32_at mbr (454 + 16 * i)) = Some bpb" "bpb ! 0x0D \<noteq> 0"
  shows "\<exists>s'. fat32_init dev s = Some (True, s') \<and> g_fat32_volume_info s' = geometry mbr i bpb \<and>
    open_file_handles s' = map (\<lambda>h. h\<lparr>is_free := True\<rparr>) (open_file_handles s) \<and>
    ready (sd s') \<and> disk (sd s') = disk (sd s)"
proof -
  obtain w where "ready w" "disk w = disk (sd s)"
    "fat32_init dev s = Some (True, s\<lparr>sd := w, g_fat32_volume_info := geometry mbr i bpb,
      open_file_handles := map (\<lambda>h. h\<lparr>is_free := True\<rparr>) (open_file_handles s)\<rparr>)"
    by (rule block_device.fat32_init_spec [OF assms])
  then show ?thesis by simp
qed

theorem fat32_init_mounts_witness:
  "\<exists>s'. fat32_init ram_dev (fs1\<lparr>g_fat32_volume_info := vol1\<lparr>total_clusters := 0\<rparr>\<rparr>) =
     Some (True, s') \<and> g_fat32_volume_info s' = vol1"
  using fat32_init_mounts [OF ram_block_device, of "fs1\<lparr>g_fat32_volume_info := vol1\<lparr>total_clusters := 0\<rparr>\<rparr>" mbr1 0 bpb1]
    mount1 sectors_disk1 vol1_geometry by (auto simp: fs1_def)

text \<open>C25. The types of a directory entry: each of the two packed structures takes exactly the 32 bytes of the union,
  every 32 bytes are the image of a structure of either kind and every structure is read back from its image.  The attributes
  are at the same place in both, so that the test through the short view is right for a long-name entry, and
  the offsets 20, 26 and 28, with which the driver reads the first cluster and the size past the structure, are those of
  the fields.\<close>

theorem dir_entry_layout:
  assumes "length raw = 32" "length (DIR_Name s) = 11"
    "length (LDIR_Name1 l) = 5" "length (LDIR_Name2 l) = 6" "length (LDIR_Name3 l) = 2"
  shows "sfn_bytes (entry_sfn raw) = raw \<and> lfn_bytes (entry_lfn raw) = raw \<and>
    length (sfn_bytes s) = 32 \<and> entry_sfn (sfn_bytes s) = s \<and>
    length (lfn_bytes l) = 32 \<and> entry_lfn (lfn_bytes l) = l \<and>
    (is_lfn_entry (lfn_bytes l) \<longleftrightarrow> LDIR_Attr l AND FAT_ATTR_LFN = FAT_ATTR_LFN) \<and>
    (process_sfn (sfn_bytes s) ck lfn info = Some (r, lfn', info') \<longrightarrow>
      first_cluster info' = push_bit 16 (ucast (DIR_FstClusHI s)) OR ucast (DIR_FstClusLO s) \<and>
      fi_file_size info' = DIR_FileSize s \<and> attributes info' = DIR_Attr s)"
proof -
  note v = sfn_of_bytes [OF assms(2)] and l = lfn_of_bytes [OF assms(3-5)]
  have f: "read_le16 ((!) (sfn_bytes s)) 20 = DIR_FstClusHI s" "read_le16 ((!) (sfn_bytes s)) 26 = DIR_FstClusLO s"
    "read_le32 ((!) (sfn_bytes s)) 28 = DIR_FileSize s"
    using arg_cong [OF v(2), of DIR_FstClusHI] arg_cong [OF v(2), of DIR_FstClusLO] arg_cong [OF v(2), of DIR_FileSize]
    by (simp_all add: entry_sfn_def)
  have "is_lfn_entry (lfn_bytes l) \<longleftrightarrow> LDIR_Attr l AND FAT_ATTR_LFN = FAT_ATTR_LFN"
    using arg_cong [OF l(2), of LDIR_Attr] by (simp add: is_lfn_entry_def entry_lfn_def)
  moreover have "first_cluster info' = push_bit 16 (ucast (DIR_FstClusHI s)) OR ucast (DIR_FstClusLO s) \<and>
      fi_file_size info' = DIR_FileSize s \<and> attributes info' = DIR_Attr s"
    if "process_sfn (sfn_bytes s) ck lfn info = Some (r, lfn', info')"
    using that unfolding process_sfn_def f v(2) Let_def by (auto split: bind_splits if_splits)
  ultimately show ?thesis using sfn_view [OF assms(1)] lfn_view [OF assms(1)] v l by blast
qed

definition sfn_fields1 :: fat_sfn_dir_entry_t where
  "sfn_fields1 = \<lparr>DIR_Name = chars ''INIT    ELF'', DIR_Attr = 0x20, DIR_NTRes = 0, DIR_CrtTimeTenth = 0, DIR_CrtTime = 0,
     DIR_CrtDate = 0, DIR_LstAccDate = 0, DIR_FstClusHI = 1, DIR_WrtTime = 0, DIR_WrtDate = 0, DIR_FstClusLO = 4,
     DIR_FileSize = 100\<rparr>"

theorem dir_entry_layout_witness:
  "entry_sfn (sfn_bytes sfn_fields1) = sfn_fields1 \<and> is_lfn_entry (lfn_entry 0x41 7 [0x61]) \<and>
   (\<exists>info. process_sfn (sfn_bytes sfn_fields1) 0 junk1 info1 = Some (Some FAT_SUCCESS, junk1\<lparr>lfn_parts_found := 0\<rparr>, info) \<and>
     first_cluster info = 0x10004 \<and> fi_file_size info = 100)"
proof -
  let ?l = "lfn_fields 0x41 7 [0x61]"
  have len: "length (DIR_Name sfn_fields1) = 11" "length (LDIR_Name1 ?l) = 5" "length (LDIR_Name2 ?l) = 6" "length (LDIR_Name3 ?l) = 2"
    by (simp_all add: sfn_fields1_def chars_def lfn_fields_def)
  have "map_option (\<lambda>(r, lfn, info). (r, lfn)) (process_sfn (sfn_bytes sfn_fields1) 0 junk1 info1) =
      Some (Some FAT_SUCCESS, junk1\<lparr>lfn_parts_found := 0\<rparr>)" by code_simp
  then have "\<exists>info. process_sfn (sfn_bytes sfn_fields1) 0 junk1 info1 = Some (Some FAT_SUCCESS, junk1\<lparr>lfn_parts_found := 0\<rparr>, info)"
    by auto
  then show ?thesis
    using dir_entry_layout [OF _ len, of "replicate 32 0" 0 junk1 info1 "Some FAT_SUCCESS" "junk1\<lparr>lfn_parts_found := 0\<rparr>"]
    by (auto simp: lfn_entry_def sfn_fields1_def lfn_fields_def FAT_ATTR_LFN_def FAT_ATTR_VOLUME_ID_def)
qed

text \<open>C29. What is left of a file id that is closed or out of range.  After \<open>fat32_close\<close> a read through the id returns
  false and changes nothing, whatever the device does, and the other ids are as before; but the id is not rejected
  everywhere: \<open>fat32_get_size\<close> still reports the size of the file that was open, and closing it again succeeds.  An id of 16
  or more makes \<open>fat32_close\<close> and \<open>fat32_read\<close> fail and has size zero.\<close>

theorem closed_handle_rejected:
  assumes "length (open_file_handles s) = 16"
  shows "if unat fid < 16
    then (\<exists>s'. fat32_close fid s = (True, s') \<and> fat32_read dev fid buffer n s' = Some (False, s') \<and>
           (\<forall>j < 16. j \<noteq> unat fid \<longrightarrow> open_file_handles s' ! j = open_file_handles s ! j) \<and>
           fat32_get_size fid s' = fat32_get_size fid s \<and> fat32_close fid s' = (True, s'))
    else fat32_close fid s = (False, s) \<and> fat32_read dev fid buffer n s = Some (False, s) \<and>
           fat32_get_size fid s = 0"
  using assms by (simp add: fat32_close_def fat32_read_def fat32_get_size_def MAX_OPEN_FILES_def)

theorem closed_handle_rejected_witness:
  "\<exists>s'. fat32_close 0 fs1_open = (True, s') \<and> fat32_read ram_dev 0 4096 10 s' = Some (False, s') \<and>
     fat32_get_size 0 s' = 600"
  using closed_handle_rejected [of fs1_open 0 ram_dev 4096 10]
  by (auto simp: fs1_open_def fs1_def hello_handle_def fat32_get_size_def MAX_OPEN_FILES_def)

end
