(* ===== verification/Bus.thy ===== *)
theory Bus
  imports Hexutils Cstring
begin

unbundle bit_operations_syntax

text \<open>
  Memory-mapped peripherals.  The registers of the chip are not code: a record \<open>bus\<close> holds the
  effect of a 32-bit read and of a 32-bit write at an address on the state \<open>'d\<close> of the
  peripherals, and is an argument of everything that touches them.  Reads may have effects (a
  read of a data register takes a byte out of a queue).

  Polling loops are partial functions: \<open>None\<close> if the awaited bit never comes.  On top of them,
  the UART driver (\<open>src/src/driver/uart/uart.c\<close>) and the timer functions
  (\<open>libc/src/unistd/usleep.c\<close>, \<open>sleep.c\<close>).
\<close>

record 'd bus =
  bus_read :: "u32 \<Rightarrow> 'd \<Rightarrow> u32 \<times> 'd"
  bus_write :: "u32 \<Rightarrow> u32 \<Rightarrow> 'd \<Rightarrow> 'd"

text \<open>\<open>while (!(REG & mask));\<close> and \<open>while (REG & mask);\<close>\<close>

partial_function (option) wait_set :: "'d bus \<Rightarrow> u32 \<Rightarrow> u32 \<Rightarrow> 'd \<Rightarrow> 'd option" where
  "wait_set bus reg bits d =
     (let (v, d') = bus_read bus reg d in
      if v AND bits \<noteq> 0 then Some d' else wait_set bus reg bits d')"

partial_function (option) wait_clear :: "'d bus \<Rightarrow> u32 \<Rightarrow> u32 \<Rightarrow> 'd \<Rightarrow> 'd option" where
  "wait_clear bus reg bits d =
     (let (v, d') = bus_read bus reg d in
      if v AND bits = 0 then Some d' else wait_clear bus reg bits d')"

declare wait_set.simps [code] wait_clear.simps [code]

text \<open>A wait never ends if no read of the register shows the bit, in a set of states that the reads
  do not leave.\<close>

lemma wait_set_starves:
  assumes "\<And>d v d'. I d \<Longrightarrow> bus_read bus reg d = (v, d') \<Longrightarrow> v AND bits = 0 \<and> I d'" "I d"
  shows "wait_set bus reg bits d = None"
proof (cases "wait_set bus reg bits d")
  case (Some y)
  have "b = bus \<and> r = reg \<and> m = bits \<longrightarrow> \<not> I d" if "wait_set b r m d = Some y" for b r m d
    using that
    by (rule wait_set.raw_induct [where P = "\<lambda>b r m d y. b = bus \<and> r = reg \<and> m = bits \<longrightarrow> \<not> I d", rotated])
      (use assms(1) in \<open>force split: if_splits prod.splits\<close>)
  with Some assms(2) show ?thesis by blast
qed simp

text \<open>A wait keeps what the reads of the register keep.\<close>

lemma wait_set_keeps:
  assumes "\<And>d v d'. bus_read bus reg d = (v, d') \<Longrightarrow> f d' = f d" "wait_set bus reg bits d = Some d'"
  shows "f d' = f d"
proof -
  have "b = bus \<and> r = reg \<longrightarrow> f d' = f d" if "wait_set b r m d = Some d'" for b r m d d'
    using that
    by (rule wait_set.raw_induct [where P = "\<lambda>b r m d d'. b = bus \<and> r = reg \<longrightarrow> f d' = f d", rotated])
      (use assms(1) in \<open>force split: if_splits prod.splits\<close>)
  then show ?thesis using assms(2) by blast
qed

text \<open>\<open>REG |= bits\<close> and \<open>REG &= ~bits\<close>\<close>

definition reg_or :: "'d bus \<Rightarrow> u32 \<Rightarrow> u32 \<Rightarrow> 'd \<Rightarrow> 'd" where
  "reg_or bus reg bits d = (let (v, d') = bus_read bus reg d in bus_write bus reg (v OR bits) d')"

definition reg_and_not :: "'d bus \<Rightarrow> u32 \<Rightarrow> u32 \<Rightarrow> 'd \<Rightarrow> 'd" where
  "reg_and_not bus reg bits d =
     (let (v, d') = bus_read bus reg d in bus_write bus reg (v AND NOT bits) d')"

section \<open>UART\<close>

definition UART_DR :: u32 where "UART_DR = 0x40034000"
definition UART_FR :: u32 where "UART_FR = 0x40034018"
definition UART_IBRD :: u32 where "UART_IBRD = 0x40034024"
definition UART_FBRD :: u32 where "UART_FBRD = 0x40034028"
definition UART_LCR_H :: u32 where "UART_LCR_H = 0x4003402C"
definition UART_LCR :: u32 where "UART_LCR = 0x40034030"
definition IO_BANK0_BASE :: u32 where "IO_BANK0_BASE = 0x40014000"
definition CLK_SYS_HZ :: u32 where "CLK_SYS_HZ = 200000000"

definition gpio_ctrl :: "u32 \<Rightarrow> u32" where
  "gpio_ctrl n = IO_BANK0_BASE + n * 8 + 4"

definition uartTx :: "'d bus \<Rightarrow> u8 \<Rightarrow> 'd \<Rightarrow> 'd option" where
  "uartTx bus x d = do {
     d \<leftarrow> wait_clear bus UART_FR 0x20 d;
     Some (bus_write bus UART_DR (ucast x) d)
   }"

text \<open>\<open>uart_puts\<close> on the \<open>len\<close> bytes it is given, \<open>uartTxStr\<close> on a terminated string.\<close>

primrec uart_puts :: "'d bus \<Rightarrow> u8 list \<Rightarrow> 'd \<Rightarrow> 'd option" where
  "uart_puts bus [] d = Some d"
| "uart_puts bus (c # cs) d = do { d \<leftarrow> uartTx bus c d; uart_puts bus cs d }"

primrec uartTxStr :: "'d bus \<Rightarrow> u8 list \<Rightarrow> 'd \<Rightarrow> 'd option" where
  "uartTxStr bus [] d = None"
| "uartTxStr bus (c # cs) d =
     (if c \<noteq> 0 then do { d \<leftarrow> uartTx bus c d; uartTxStr bus cs d } else Some d)"

definition uartRx :: "'d bus \<Rightarrow> 'd \<Rightarrow> (u8 \<times> 'd) option" where
  "uartRx bus d = do {
     d \<leftarrow> wait_clear bus UART_FR 0x10 d;
     let (v, d) = bus_read bus UART_DR d;
     Some (ucast v, d)
   }"

text \<open>\<open>uartRxStr\<close> stores into \<open>str\<close>, without a limit, up to and including the carriage return,
  which it then replaces by the terminator: the result is what is stored.\<close>

partial_function (option) uartRxStr_loop :: "'d bus \<Rightarrow> u8 list \<Rightarrow> 'd \<Rightarrow> (u8 list \<times> 'd) option" where
  "uartRxStr_loop bus str d = do {
     (dat, d) \<leftarrow> uartRx bus d;
     if dat \<noteq> 0x0D then uartRxStr_loop bus (str @ [dat]) d else Some (str @ [0], d)
   }"

definition uartRxStr :: "'d bus \<Rightarrow> 'd \<Rightarrow> (u8 list \<times> 'd) option" where
  "uartRxStr bus d = uartRxStr_loop bus [] d"

definition uartTxHexByte :: "'d bus \<Rightarrow> u8 \<Rightarrow> 'd \<Rightarrow> 'd option" where
  "uartTxHexByte bus byte d = uartTxStr bus (byteToStr byte) d"

definition uartTxDecByte :: "'d bus \<Rightarrow> u8 \<Rightarrow> 'd \<Rightarrow> 'd option" where
  "uartTxDecByte bus byte d = uartTxStr bus (byteToDec byte) d"

definition uartTxHex :: "'d bus \<Rightarrow> u32 \<Rightarrow> 'd \<Rightarrow> 'd option" where
  "uartTxHex bus n d = uartTxStr bus (hexToStr n) d"

definition uartTxDec :: "'d bus \<Rightarrow> u32 \<Rightarrow> 'd \<Rightarrow> 'd option" where
  "uartTxDec bus n d = uartTxStr bus (intToDec n) d"

definition uart_divisors :: "u32 \<Rightarrow> u32 \<times> u32" where
  "uart_divisors baud_rate =
     (let baud_rate_div = 8 * CLK_SYS_HZ div baud_rate;
          ibrd = drop_bit 7 baud_rate_div
      in if ibrd = 0 then (1, 0) else (ibrd, drop_bit 1 ((baud_rate_div AND 0x7F) + 1)))"

definition uart_init :: "'d bus \<Rightarrow> u32 \<Rightarrow> 'd \<Rightarrow> 'd option" where
  "uart_init bus baud_rate d =
     (if baud_rate = 0 then None
      else
        let (ibrd, fbrd) = uart_divisors baud_rate;
            d = bus_write bus UART_IBRD ibrd d;
            d = bus_write bus UART_FBRD fbrd d;
            d = bus_write bus UART_LCR_H 0x70 d;
            d = bus_write bus UART_LCR 0x301 d;
            d = bus_write bus (gpio_ctrl 0) 2 d
        in Some (bus_write bus (gpio_ctrl 1) 2 d))"

section \<open>Timer\<close>

definition TIMER_HR :: u32 where "TIMER_HR = 0x40054008"
definition TIMER_LR :: u32 where "TIMER_LR = 0x4005400C"

definition readTime :: "'d bus \<Rightarrow> 'd \<Rightarrow> u64 \<times> 'd" where
  "readTime bus d =
     (let (timeLR, d) = bus_read bus TIMER_LR d;
          (timeHR, d) = bus_read bus TIMER_HR d
      in (push_bit 32 (ucast timeHR) OR ucast timeLR, d))"

partial_function (option) usleep_loop :: "'d bus \<Rightarrow> u64 \<Rightarrow> u32 \<Rightarrow> 'd \<Rightarrow> 'd option" where
  "usleep_loop bus timeOld usec d =
     (let (t, d') = readTime bus d in
      if t - timeOld < ucast usec then usleep_loop bus timeOld usec d' else Some d')"

declare usleep_loop.simps [code]

definition usleep :: "'d bus \<Rightarrow> u32 \<Rightarrow> 'd \<Rightarrow> (u32 \<times> 'd) option" where
  "usleep bus usec d =
     (let (timeOld, d) = readTime bus d in do {
        d \<leftarrow> usleep_loop bus timeOld usec d;
        Some (0, d)
      })"

definition sleep :: "'d bus \<Rightarrow> u32 \<Rightarrow> 'd \<Rightarrow> (u32 \<times> 'd) option" where
  "sleep bus seconds d = usleep bus (seconds * 1000000) d"

end
