(* ===== verification/Spi.thy ===== *)
theory Spi
  imports Bus
begin

unbundle bit_operations_syntax

text \<open>
  The SPI driver, \<open>src/src/driver/spi/spi.c\<close>, over the registers of \<open>hardware_structs/spi.h\<close>,
  \<open>sio.h\<close>, \<open>io_bank0.h\<close> and \<open>pads_bank0.h\<close>.
\<close>

definition SPI0_CR0 :: u32 where "SPI0_CR0 = 0x4003C000"
definition SPI0_CR1 :: u32 where "SPI0_CR1 = 0x4003C004"
definition SPI0_DR :: u32 where "SPI0_DR = 0x4003C008"
definition SPI0_SR :: u32 where "SPI0_SR = 0x4003C00C"
definition SPI0_CPSR :: u32 where "SPI0_CPSR = 0x4003C010"
definition SIO_OUT_SET :: u32 where "SIO_OUT_SET = 0xD0000014"
definition SIO_OUT_CLR :: u32 where "SIO_OUT_CLR = 0xD0000018"
definition SIO_OE_SET :: u32 where "SIO_OE_SET = 0xD0000024"

definition pad_gpio :: "u32 \<Rightarrow> u32" where
  "pad_gpio n = 0x4001C000 + 4 + n * 4"

definition spi_send_byte :: "'d bus \<Rightarrow> u8 \<Rightarrow> 'd \<Rightarrow> 'd option" where
  "spi_send_byte bus data d = do {
     d \<leftarrow> wait_set bus SPI0_SR 2 d;
     Some (bus_write bus SPI0_DR (ucast data) d)
   }"

text \<open>The transfer loops: the bytes of \<open>data\<close> are sent (or \<open>0xFF\<close> in \<open>spi_rw_blocking\<close>) and each is
  replaced by a received byte, when there is one.\<close>

definition spi_exchange :: "'d bus \<Rightarrow> u8 \<Rightarrow> u8 \<Rightarrow> 'd \<Rightarrow> (u8 \<times> 'd) option" where
  "spi_exchange bus sent old d = do {
     d \<leftarrow> wait_set bus SPI0_SR 2 d;
     let d = bus_write bus SPI0_DR (ucast sent) d;
     d \<leftarrow> wait_clear bus SPI0_SR 0x10 d;
     let (sr, d) = bus_read bus SPI0_SR d;
     if sr AND 4 \<noteq> 0 then (let (v, d) = bus_read bus SPI0_DR d in Some (ucast v, d))
     else Some (old, d)
   }"

primrec spi_rw :: "'d bus \<Rightarrow> u8 list \<Rightarrow> 'd \<Rightarrow> (u8 list \<times> 'd) option" where
  "spi_rw bus [] d = Some ([], d)"
| "spi_rw bus (c # cs) d = do {
     (r, d) \<leftarrow> spi_exchange bus c c d;
     (rs, d) \<leftarrow> spi_rw bus cs d;
     Some (r # rs, d)
   }"

primrec spi_rw_blocking :: "'d bus \<Rightarrow> u8 list \<Rightarrow> 'd \<Rightarrow> (u8 list \<times> 'd) option" where
  "spi_rw_blocking bus [] d = Some ([], d)"
| "spi_rw_blocking bus (c # cs) d = do {
     (r, d) \<leftarrow> spi_exchange bus 0xFF c d;
     (rs, d) \<leftarrow> spi_rw_blocking bus cs d;
     Some (r # rs, d)
   }"

definition spi_read_byte :: "'d bus \<Rightarrow> 'd \<Rightarrow> (u8 \<times> 'd) option" where
  "spi_read_byte bus d = do {
     d \<leftarrow> wait_set bus SPI0_SR 4 d;
     let (v, d) = bus_read bus SPI0_DR d;
     Some (ucast v, d)
   }"

definition spi_rw_byte :: "'d bus \<Rightarrow> u8 \<Rightarrow> 'd \<Rightarrow> (u8 \<times> 'd) option" where
  "spi_rw_byte bus byte d = do {
     d \<leftarrow> wait_clear bus SPI0_SR 0x10 (bus_write bus SPI0_DR (ucast byte) d);
     let (v, d) = bus_read bus SPI0_DR d;
     Some (ucast v, d)
   }"

definition spi_init :: "'d bus \<Rightarrow> 'd \<Rightarrow> 'd" where
  "spi_init bus d =
     (let d = bus_write bus SPI0_CR0 7 d;
          d = bus_write bus SPI0_CPSR 254 d;
          d = reg_and_not bus SPI0_CR1 4 d;
          d = bus_write bus (gpio_ctrl 16) 1 d;
          d = bus_write bus (gpio_ctrl 18) 1 d;
          d = bus_write bus (gpio_ctrl 19) 1 d;
          d = bus_write bus (gpio_ctrl 9) 5 d;
          d = bus_write bus SIO_OE_SET 0x200 d;
          d = bus_write bus (pad_gpio 18) 0x102 d;
          d = bus_write bus (pad_gpio 19) 0x102 d
      in reg_or bus SPI0_CR1 2 d)"

definition spi_set_speed :: "'d bus \<Rightarrow> u8 \<Rightarrow> 'd \<Rightarrow> 'd" where
  "spi_set_speed bus divisor d = bus_write bus SPI0_CPSR (ucast divisor) d"

end
