(* ===== verification/Sd.thy ===== *)
theory Sd
  imports Spi Fat_Volume
begin

unbundle bit_operations_syntax

text \<open>
  The SD card driver, \<open>src/src/lib/sd/SD.c\<close>, over the SPI driver.  The functions that fill a
  buffer return the bytes they store; every failure happens before the first byte is stored, so
  a failed read is \<open>None\<close> in the place of the bytes.  \<open>sd_blockdev\<close> packs the three functions the
  FAT driver calls.
\<close>

section \<open>Bytes and responses\<close>

definition deassertCS :: "'d bus \<Rightarrow> 'd \<Rightarrow> 'd option" where
  "deassertCS bus d = spi_send_byte bus 0xFF (reg_or bus SIO_OUT_SET 0x200 d)"

primrec send_bytes :: "'d bus \<Rightarrow> u8 list \<Rightarrow> 'd \<Rightarrow> 'd option" where
  "send_bytes bus [] d = Some d"
| "send_bytes bus (b # bs) d = do { d \<leftarrow> spi_send_byte bus b d; send_bytes bus bs d }"

definition SDSendCommand :: "'d bus \<Rightarrow> u8 \<Rightarrow> u32 \<Rightarrow> u8 \<Rightarrow> 'd \<Rightarrow> 'd option" where
  "SDSendCommand bus command args crc d =
     send_bytes bus
       [command, ucast (drop_bit 24 args AND 0xFF), ucast (drop_bit 16 args AND 0xFF),
        ucast (drop_bit 8 args AND 0xFF), ucast (args AND 0xFF), crc, 0xFF]
       (reg_or bus SIO_OUT_CLR 0x200 d)"

text \<open>One byte in, one dummy byte out.\<close>

definition read_byte_clocked :: "'d bus \<Rightarrow> 'd \<Rightarrow> (u8 \<times> 'd) option" where
  "read_byte_clocked bus d = do {
     (b, d) \<leftarrow> spi_read_byte bus d;
     d \<leftarrow> spi_send_byte bus 0xFF d;
     Some (b, d)
   }"

text \<open>The loop \<open>do { x = read; send(0xFF); timeout--; } while (x == 0xFF && timeout > 0)\<close>.  The
  number is the value of \<open>timeout\<close> after the decrement of the round; the result has the byte
  and the value the loop leaves.\<close>

primrec poll_loop :: "'d bus \<Rightarrow> nat \<Rightarrow> 'd \<Rightarrow> (u8 \<times> nat \<times> 'd) option" where
  "poll_loop bus 0 d = do { (x, d) \<leftarrow> read_byte_clocked bus d; Some (x, 0, d) }"
| "poll_loop bus (Suc timeout) d = do {
     (x, d) \<leftarrow> read_byte_clocked bus d;
     if x = 0xFF then poll_loop bus timeout d else Some (x, Suc timeout, d)
   }"

definition read_r1_response :: "'d bus \<Rightarrow> u16 \<Rightarrow> 'd \<Rightarrow> (u8 \<times> 'd) option" where
  "read_r1_response bus timeout_val d = do {
     (res, _, d) \<leftarrow> poll_loop bus (unat (timeout_val - 1)) d;
     Some (res, d)
   }"

primrec read_bytes :: "'d bus \<Rightarrow> nat \<Rightarrow> 'd \<Rightarrow> (u8 list \<times> 'd) option" where
  "read_bytes bus 0 d = Some ([], d)"
| "read_bytes bus (Suc count) d = do {
     (b, d) \<leftarrow> read_byte_clocked bus d;
     (bs, d) \<leftarrow> read_bytes bus count d;
     Some (b # bs, d)
   }"

definition read_data_block :: "'d bus \<Rightarrow> u16 \<Rightarrow> 'd \<Rightarrow> (u8 list option \<times> 'd) option" where
  "read_data_block bus timeout_val d = do {
     (token, timeout, d) \<leftarrow> poll_loop bus (unat (timeout_val - 1)) d;
     if timeout = 0 then Some (None, d)
     else if token \<noteq> 0xFE then Some (None, d)
     else do {
       (bs, d) \<leftarrow> read_bytes bus SD_BLOCK_SIZE d;
       (crc, d) \<leftarrow> read_bytes bus 2 d;
       Some (Some bs, d)
     }
   }"

definition read_data_block_partial ::
  "'d bus \<Rightarrow> u16 \<Rightarrow> u16 \<Rightarrow> u16 \<Rightarrow> 'd \<Rightarrow> (u8 list option \<times> 'd) option" where
  "read_data_block_partial bus start_offset count timeout_val d = do {
     (token, timeout, d) \<leftarrow> poll_loop bus (unat (timeout_val - 1)) d;
     if timeout = 0 \<or> token \<noteq> 0xFE then Some (None, d)
     else do {
       (_, d) \<leftarrow> read_bytes bus (unat start_offset) d;
       (bs, d) \<leftarrow> read_bytes bus (unat count) d;
       let bytes_to_discard = (512 - start_offset - count) + 2;
       (_, d) \<leftarrow> read_bytes bus (unat bytes_to_discard) d;
       Some (Some bs, d)
     }
   }"

section \<open>Initialisation\<close>

text \<open>The loop over CMD55 and ACMD41.  The number is the value of \<open>acmd41_timeout\<close> at the start
  of the round; the result is \<open>Inl\<close> for the \<open>return false\<close> inside the loop and \<open>Inr\<close> with the
  value of the counter after the loop.\<close>

primrec acmd41_loop :: "'d bus \<Rightarrow> nat \<Rightarrow> 'd \<Rightarrow> ((unit + nat) \<times> 'd) option" where
  "acmd41_loop bus 0 d = Some (Inr 0, d)"
| "acmd41_loop bus (Suc n) d = do {
     d \<leftarrow> SDSendCommand bus 0x77 0 0x65 d;
     (cmd55_r1, d) \<leftarrow> read_r1_response bus 0xFF d;
     d \<leftarrow> deassertCS bus d;
     if cmd55_r1 \<noteq> 0x01 then Some (Inl (), d)
     else do {
       d \<leftarrow> SDSendCommand bus 0x69 0x40000000 0x77 d;
       (acmd41_r1, d) \<leftarrow> read_r1_response bus 0xFF d;
       d \<leftarrow> deassertCS bus d;
       if acmd41_r1 = 0x00 then Some (Inr (Suc n), d)
       else do {
         (_, d) \<leftarrow> usleep bus 1000 d;
         acmd41_loop bus n d
       }
     }
   }"

definition unsupported_card :: "u8 list" where
  "unsupported_card = chars ''Unsupported card'' @ [0x0D, 0x0A, 0]"

text \<open>From CMD58 on, after the card has left the idle state.\<close>

definition SDInit_ocr :: "'d bus \<Rightarrow> 'd \<Rightarrow> (bool \<times> 'd) option" where
  "SDInit_ocr bus d = do {
     d \<leftarrow> SDSendCommand bus 0x7A 0 0x01 d;
     (cmd58_r1, d) \<leftarrow> read_r1_response bus 0xFF d;
     if cmd58_r1 = 0x00 then do {
       (ocr_data, d) \<leftarrow> read_bytes bus 4 d;
       if ocr_data ! 0 AND 0x40 = 0 then do { d \<leftarrow> deassertCS bus d; Some (False, d) }
       else Some (True, spi_set_speed bus 8 d)
     }
     else do { d \<leftarrow> deassertCS bus d; Some (False, d) }
   }"

text \<open>CMD8, whose answer tells whether the card is usable: \<open>True\<close> to go on.\<close>

definition SDInit_cmd8 :: "'d bus \<Rightarrow> 'd \<Rightarrow> (bool \<times> 'd) option" where
  "SDInit_cmd8 bus d = do {
     d \<leftarrow> SDSendCommand bus 0x48 0x1AA 0x87 d;
     (CMD8_r1, d) \<leftarrow> read_r1_response bus 0xFF d;
     if CMD8_r1 = 0x01 then do {
       (r7_data, d) \<leftarrow> read_bytes bus 4 d;
       d \<leftarrow> deassertCS bus d;
       Some (r7_data ! 2 = 0x01 \<and> r7_data ! 3 = 0xAA, d)
     }
     else if CMD8_r1 = 0x05 then do {
       d \<leftarrow> uartTxStr bus unsupported_card d;
       d \<leftarrow> deassertCS bus d;
       Some (False, d)
     }
     else do { d \<leftarrow> deassertCS bus d; Some (False, d) }
   }"

text \<open>\<open>SDInit\<close> from its second statement on, and the whole function: the card gets ten milliseconds first.\<close>

definition SDInit_start :: "'d bus \<Rightarrow> 'd \<Rightarrow> (bool \<times> 'd) option" where
  "SDInit_start bus d = do {
     d \<leftarrow> send_bytes bus (replicate 10 0xFF) (reg_or bus SIO_OUT_SET 0x200 d);
     d \<leftarrow> SDSendCommand bus 0x40 0 0x95 d;
     (cmd0_r1, d) \<leftarrow> read_r1_response bus 0xFF d;
     if cmd0_r1 \<noteq> 0x01 then do { d \<leftarrow> deassertCS bus d; Some (False, d) }
     else do {
       (go_on, d) \<leftarrow> SDInit_cmd8 bus d;
       if \<not> go_on then Some (False, d)
       else do {
         (r, d) \<leftarrow> acmd41_loop bus 5000 d;
         case r of
           Inl _ \<Rightarrow> Some (False, d)
         | Inr n \<Rightarrow> if n = 0 then Some (False, d) else SDInit_ocr bus d
       }
     }
   }"

definition SDInit :: "'d bus \<Rightarrow> 'd \<Rightarrow> (bool \<times> 'd) option" where
  "SDInit bus d = do {
     (_, d) \<leftarrow> usleep bus 10000 d;
     SDInit_start bus d
   }"

section \<open>Blocks\<close>

definition sdReadBlock :: "'d bus \<Rightarrow> u32 \<Rightarrow> 'd \<Rightarrow> (u8 list option \<times> 'd) option" where
  "sdReadBlock bus block_address d = do {
     d \<leftarrow> SDSendCommand bus 0x51 block_address 0x01 d;
     (cmd17_r1, d) \<leftarrow> read_r1_response bus 0xFF d;
     if cmd17_r1 \<noteq> 0x00 then do { d \<leftarrow> deassertCS bus d; Some (None, d) }
     else do {
       (r, d) \<leftarrow> read_data_block bus 0xFFFF d;
       d \<leftarrow> deassertCS bus d;
       Some (r, d)
     }
   }"

definition sdReadPartialBlock ::
  "'d bus \<Rightarrow> u32 \<Rightarrow> u16 \<Rightarrow> u16 \<Rightarrow> 'd \<Rightarrow> (u8 list option \<times> 'd) option" where
  "sdReadPartialBlock bus block_number offset len d = do {
     d \<leftarrow> SDSendCommand bus 0x51 block_number 0x01 d;
     (cmd17_r1, d) \<leftarrow> read_r1_response bus 0xFF d;
     if cmd17_r1 \<noteq> 0x00 then do { d \<leftarrow> deassertCS bus d; Some (None, d) }
     else do {
       (r, d) \<leftarrow> read_data_block_partial bus offset len 0xFFFF d;
       d \<leftarrow> deassertCS bus d;
       Some (r, d)
     }
   }"

definition MAX_TIMEOUT_COUNT :: u32 where
  "MAX_TIMEOUT_COUNT = 1000000"

partial_function (option) busy_loop :: "'d bus \<Rightarrow> u32 \<Rightarrow> 'd \<Rightarrow> (bool \<times> 'd) option" where
  "busy_loop bus timeout_counter d = do {
     (b, d) \<leftarrow> spi_read_byte bus d;
     if b = 0x00 then
       (if MAX_TIMEOUT_COUNT < timeout_counter + 1 then Some (False, d)
        else busy_loop bus (timeout_counter + 1) d)
     else Some (True, d)
   }"

declare busy_loop.simps [code]

definition sdWaitForNotBusy :: "'d bus \<Rightarrow> 'd \<Rightarrow> (bool \<times> 'd) option" where
  "sdWaitForNotBusy bus d = busy_loop bus 0 d"

text \<open>The loop that waits for the data response, without sending: at most \<open>n\<close> rounds, \<open>prev\<close> the
  byte of the round before.\<close>

primrec data_response_loop :: "'d bus \<Rightarrow> nat \<Rightarrow> u8 \<Rightarrow> 'd \<Rightarrow> (u8 \<times> 'd) option" where
  "data_response_loop bus 0 prev d = Some (prev, d)"
| "data_response_loop bus (Suc n) prev d = do {
     (b, d) \<leftarrow> spi_read_byte bus d;
     if b \<noteq> 0xFF then Some (b, d) else data_response_loop bus n b d
   }"

text \<open>The buffer is a list; its first 512 bytes are sent.\<close>

definition sdWriteBlock :: "'d bus \<Rightarrow> u32 \<Rightarrow> u8 list \<Rightarrow> 'd \<Rightarrow> (bool \<times> 'd) option" where
  "sdWriteBlock bus block_address data_buffer d = do {
     d \<leftarrow> SDSendCommand bus 0x58 block_address 0x01 d;
     (cmd24_r1, d) \<leftarrow> read_r1_response bus 0xFF d;
     if cmd24_r1 \<noteq> 0x00 then do { d \<leftarrow> deassertCS bus d; Some (False, d) }
     else do {
       d \<leftarrow> spi_send_byte bus 0xFE d;
       d \<leftarrow> send_bytes bus (take SD_BLOCK_SIZE data_buffer) d;
       d \<leftarrow> send_bytes bus [0xFF, 0xFF] d;
       (data_response, d) \<leftarrow> data_response_loop bus 1000 0xFF d;
       if data_response AND 0x1F \<noteq> 0x05 then do { d \<leftarrow> deassertCS bus d; Some (False, d) }
       else do {
         (ok, d) \<leftarrow> sdWaitForNotBusy bus d;
         d \<leftarrow> deassertCS bus d;
         Some (ok, d)
       }
     }
   }"

definition SDShutdown :: "'d bus \<Rightarrow> 'd \<Rightarrow> (bool \<times> 'd) option" where
  "SDShutdown bus d = do {
     d \<leftarrow> SDSendCommand bus 0x40 0 0x95 d;
     (cmd0_r1, d) \<leftarrow> read_r1_response bus 0xFF d;
     if cmd0_r1 = 0x01 then do { d \<leftarrow> deassertCS bus d; Some (True, d) }
     else Some (False, d)
   }"

definition sd_blockdev :: "'d bus \<Rightarrow> 'd blockdev" where
  "sd_blockdev bus = \<lparr>dev_read = sdReadBlock bus, dev_read_partial = sdReadPartialBlock bus,
     dev_write = sdWriteBlock bus\<rparr>"

end
