(* ===== verification/Sd_Read.thy ===== *)
theory Sd_Read
  imports Sd Block_Device
begin

unbundle bit_operations_syntax

text \<open>
  Reading blocks from a card.  The hardware is described by two contracts.  \<open>spi_port\<close> is the
  serial port: a byte written to the data register is exchanged for one byte of the card, which
  is queued in the receive queue of eight places, or lost when the queue is full; the chip
  select line is driven by bit 9 of the SIO registers.  \<open>sd_card\<close> adds the card: it is a
  transducer of bytes, and after command 17 it answers a bounded number of filler bytes, a
  response byte, filler bytes, the start token, the 512 bytes of the block and two check bytes.

  The driver never empties the receive queue between commands, so what it reads lags behind what
  it sends by up to eight bytes.  The lemmas show that it reads the right bytes all the same, and
  that \<open>sd_blockdev\<close> keeps the contract \<open>block_device\<close> of the FAT driver.
\<close>

lemma send_bytes_append:
  "send_bytes bus (xs @ ys) d = do { d \<leftarrow> send_bytes bus xs d; send_bytes bus ys d }"
  by (induction xs arbitrary: d) (simp_all add: bind_assoc)

section \<open>Transducers\<close>

fun run :: "('c \<Rightarrow> u8 \<Rightarrow> u8 \<times> 'c) \<Rightarrow> 'c \<Rightarrow> u8 list \<Rightarrow> u8 list \<times> 'c" where
  "run step c [] = ([], c)"
| "run step c (b # bs) =
     (let (r, c') = step c b; (rs, c'') = run step c' bs in (r # rs, c''))"

lemma length_run [simp]: "length (fst (run step c bs)) = length bs"
  by (induction bs arbitrary: c) (simp_all add: split_def Let_def)

lemma run_append:
  "run step c (xs @ ys) =
     (let (rs, c') = run step c xs; (rs', c'') = run step c' ys in (rs @ rs', c''))"
  by (induction xs arbitrary: c) (simp_all add: split_def Let_def)

lemma take_take_append: "take n (take n xs @ ys) = take n (xs @ ys)"
  by (cases "length xs \<le> n") simp_all

lemma all_FF: "set xs \<subseteq> {0xFF} \<Longrightarrow> xs = replicate (length xs) (0xFF :: u8)"
  by (induction xs) auto

section \<open>The serial port\<close>

text \<open>The six bytes of a command.\<close>

definition sd_cmd :: "u8 \<Rightarrow> u32 \<Rightarrow> u8 \<Rightarrow> u8 list" where
  "sd_cmd cmd a crc =
     [cmd, ucast (drop_bit 24 a), ucast (drop_bit 16 a), ucast (drop_bit 8 a), ucast a, crc]"

text \<open>A card in state \<open>c\<close> answers a command with \<open>as\<close>: it is silent during the command, plays \<open>as\<close> against
  dummy bytes and then is silent, in a state that satisfies \<open>P\<close>.\<close>

definition answers ::
  "('c \<Rightarrow> u8 \<Rightarrow> u8 \<times> 'c) \<Rightarrow> 'c \<Rightarrow> u8 \<Rightarrow> u32 \<Rightarrow> u8 \<Rightarrow> u8 list \<Rightarrow> ('c \<Rightarrow> bool) \<Rightarrow> bool" where
  "answers step c cmd a crc as P \<longleftrightarrow>
     (\<forall>m. let (rs, c') = run step c (sd_cmd cmd a crc @ replicate (length as + m) 0xFF) in
        rs = replicate 6 0xFF @ as @ replicate m 0xFF \<and> P c')"

locale spi_port =
  fixes bus :: "'d bus"
    and enabled :: "'d \<Rightarrow> bool"
    and rx :: "'d \<Rightarrow> u8 list"
    and card :: "'d \<Rightarrow> 'c"
    and step :: "'c \<Rightarrow> u8 \<Rightarrow> u8 \<times> 'c"
    and select :: "'c \<Rightarrow> 'c"
    and deselect :: "'c \<Rightarrow> 'c"
  assumes status: "\<lbrakk>enabled d; bus_read bus SPI0_SR d = (v, d')\<rbrakk> \<Longrightarrow>
      v AND 2 \<noteq> 0 \<and> (v AND 4 \<noteq> 0 \<longleftrightarrow> rx d \<noteq> []) \<and> enabled d' \<and> rx d' = rx d \<and> card d' = card d"
    and receive: "\<lbrakk>enabled d; rx d = b # bs; bus_read bus SPI0_DR d = (v, d')\<rbrakk> \<Longrightarrow>
      ucast v = b \<and> enabled d' \<and> rx d' = bs \<and> card d' = card d"
    and transmit: "\<lbrakk>enabled d; step (card d) b = (r, c); bus_write bus SPI0_DR (ucast b) d = d'\<rbrakk> \<Longrightarrow>
      enabled d' \<and> card d' = c \<and> rx d' = (if length (rx d) < 8 then rx d @ [r] else rx d)"
    and sio_read: "\<lbrakk>enabled d; reg = SIO_OUT_SET \<or> reg = SIO_OUT_CLR; bus_read bus reg d = (v, d')\<rbrakk> \<Longrightarrow>
      enabled d' \<and> rx d' = rx d \<and> card d' = card d"
    and cs_low: "\<lbrakk>enabled d; bit v 9; bus_write bus SIO_OUT_CLR v d = d'\<rbrakk> \<Longrightarrow>
      enabled d' \<and> rx d' = rx d \<and> card d' = select (card d)"
    and cs_high: "\<lbrakk>enabled d; bit v 9; bus_write bus SIO_OUT_SET v d = d'\<rbrakk> \<Longrightarrow>
      enabled d' \<and> rx d' = rx d \<and> card d' = deselect (card d)"
begin

lemma wait_set_status:
  assumes "enabled d" "m = 2 \<or> m = 4 \<and> rx d \<noteq> []"
  obtains d' where "wait_set bus SPI0_SR m d = Some d'" "enabled d'" "rx d' = rx d" "card d' = card d"
proof -
  obtain v d' where b: "bus_read bus SPI0_SR d = (v, d')" by fastforce
  note st = status [OF assms(1) b]
  have "wait_set bus SPI0_SR m d = Some d'"
    using st assms(2) by (subst wait_set.simps) (auto simp: b)
  then show thesis using that st by blast
qed

lemma send_byte:
  assumes "enabled d" "length (rx d) \<le> 8"
  obtains d' where "spi_send_byte bus b d = Some d'" "enabled d'" "card d' = snd (step (card d) b)"
    "rx d' = take 8 (rx d @ [fst (step (card d) b)])"
proof -
  obtain d1 where d1: "wait_set bus SPI0_SR 2 d = Some d1" "enabled d1" "rx d1 = rx d" "card d1 = card d"
    using wait_set_status [OF assms(1), of 2] by auto
  obtain r c where "step (card d) b = (r, c)" by fastforce
  with transmit [OF d1(2), of b r c] d1 assms(2) show thesis
    by (intro that [of "bus_write bus SPI0_DR (ucast b) d1"])
      (auto simp: spi_send_byte_def)
qed

lemma send_all:
  assumes "enabled d" "length (rx d) \<le> 8"
  shows "\<exists>d'. send_bytes bus bs d = Some d' \<and> enabled d' \<and> card d' = snd (run step (card d) bs) \<and>
    rx d' = take 8 (rx d @ fst (run step (card d) bs))"
  using assms
proof (induction bs arbitrary: d)
  case (Cons b bs)
  obtain d1 where d1: "spi_send_byte bus b d = Some d1" "enabled d1" "card d1 = snd (step (card d) b)"
    "rx d1 = take 8 (rx d @ [fst (step (card d) b)])" using send_byte [OF Cons.prems] .
  have len: "length (rx d1) \<le> 8" unfolding d1(4) length_take by simp
  obtain d' where "send_bytes bus bs d1 = Some d'" "enabled d'" "card d' = snd (run step (card d1) bs)"
    "rx d' = take 8 (rx d1 @ fst (run step (card d1) bs))"
    using Cons.IH [OF d1(2) len] by blast
  moreover have "take 8 (rx d1 @ fst (run step (card d1) bs)) =
      take 8 (rx d @ fst (step (card d) b) # fst (run step (card d1) bs))"
    unfolding d1(4) take_take_append by simp
  ultimately show ?case using d1(1,3) by (simp add: Let_def split_def)
qed simp

lemma read_byte:
  assumes "enabled d" "rx d = x # xs"
  obtains d' where "spi_read_byte bus d = Some (x, d')" "enabled d'" "rx d' = xs" "card d' = card d"
proof -
  obtain d1 where d1: "wait_set bus SPI0_SR 4 d = Some d1" "enabled d1" "rx d1 = rx d" "card d1 = card d"
    using wait_set_status [OF assms(1), of 4] assms(2) by auto
  obtain v d' where b: "bus_read bus SPI0_DR d1 = (v, d')" by fastforce
  from receive [OF d1(2) _ b] d1 assms(2) show thesis
    by (intro that [of d']) (auto simp: spi_read_byte_def b)
qed

lemma select_card:
  assumes "enabled d"
  shows "enabled (reg_or bus SIO_OUT_CLR 0x200 d) \<and> rx (reg_or bus SIO_OUT_CLR 0x200 d) = rx d \<and>
    card (reg_or bus SIO_OUT_CLR 0x200 d) = select (card d)"
proof -
  obtain v d1 where b: "bus_read bus SIO_OUT_CLR d = (v, d1)" by fastforce
  have "bit (v OR 0x200) 9" by (simp add: bit_simps)
  then show ?thesis
    using sio_read [OF assms disjI2 [OF refl] b] cs_low [of d1 "v OR 0x200"] by (simp add: reg_or_def b)
qed

lemma deselect_card:
  assumes "enabled d"
  shows "enabled (reg_or bus SIO_OUT_SET 0x200 d) \<and> rx (reg_or bus SIO_OUT_SET 0x200 d) = rx d \<and>
    card (reg_or bus SIO_OUT_SET 0x200 d) = deselect (card d)"
proof -
  obtain v d1 where b: "bus_read bus SIO_OUT_SET d = (v, d1)" by fastforce
  have "bit (v OR 0x200) 9" by (simp add: bit_simps)
  then show ?thesis
    using sio_read [OF assms disjI1 [OF refl] b] cs_high [of d1 "v OR 0x200"] by (simp add: reg_or_def b)
qed

text \<open>Sending a command to a card that stays silent meanwhile leaves filler in the queue.\<close>

lemma send_command:
  assumes "enabled d" "length (rx d) \<le> 8" "set (rx d) \<subseteq> {0xFF}"
    "fst (run step (select (card d)) (sd_cmd cmd a crc @ [0xFF])) = replicate 7 0xFF"
  obtains l d' where "SDSendCommand bus cmd a crc d = Some d'" "enabled d'" "0 < l" "l \<le> 8"
    "rx d' = replicate l 0xFF" "card d' = snd (run step (select (card d)) (sd_cmd cmd a crc @ [0xFF]))"
proof -
  let ?d0 = "reg_or bus SIO_OUT_CLR 0x200 d" and ?cmd = "sd_cmd cmd a crc @ [0xFF]"
  have d0: "enabled ?d0" "rx ?d0 = rx d" "card ?d0 = select (card d)" using select_card [OF assms(1)] by auto
  obtain d' where d': "send_bytes bus ?cmd ?d0 = Some d'" "enabled d'"
    "card d' = snd (run step (select (card d)) ?cmd)" "rx d' = take 8 (rx d @ replicate 7 0xFF)"
    using send_all [OF d0(1), of ?cmd] assms(2,4) d0 by auto
  have "set (rx d') \<subseteq> {0xFF}"
    using assms(3) unfolding d'(4) by (rule_tac order_trans [OF set_take_subset]) auto
  then have rx: "rx d' = replicate (length (rx d')) 0xFF" by (rule all_FF)
  have "SDSendCommand bus cmd a crc d = Some d'"
    using d'(1) by (simp add: SDSendCommand_def sd_cmd_def ucast_and_FF)
  moreover have "0 < length (rx d')" "length (rx d') \<le> 8" unfolding d'(4) by simp_all
  ultimately show thesis using that d'(2,3) rx by blast
qed

text \<open>\<open>feeds d us c n\<close>: the next bytes to be read are \<open>us\<close>, provided that \<open>n\<close> more dummy bytes are
  sent, after which the card is in state \<open>c\<close>.\<close>

definition feeds :: "'d \<Rightarrow> u8 list \<Rightarrow> 'c \<Rightarrow> nat \<Rightarrow> bool" where
  "feeds d us c n \<longleftrightarrow> enabled d \<and> rx d \<noteq> [] \<and> length (rx d) \<le> 8 \<and>
     us = rx d @ fst (run step (card d) (replicate n 0xFF)) \<and>
     c = snd (run step (card d) (replicate n 0xFF))"

lemma feeds_step:
  assumes "feeds d (u # us) c (Suc n)"
  obtains d' where "read_byte_clocked bus d = Some (u, d')" "feeds d' us c n"
proof -
  obtain x xs where rx: "rx d = x # xs" using assms by (cases "rx d") (auto simp: feeds_def)
  have x: "x = u" "length xs < 8" "enabled d" using assms rx by (auto simp: feeds_def)
  obtain d1 where d1: "spi_read_byte bus d = Some (x, d1)" "enabled d1" "rx d1 = xs" "card d1 = card d"
    using read_byte [OF x(3) rx] .
  obtain d2 where d2: "spi_send_byte bus 0xFF d1 = Some d2" "enabled d2"
    "card d2 = snd (step (card d) 0xFF)" "rx d2 = take 8 (xs @ [fst (step (card d) 0xFF)])"
    using send_byte [OF d1(2), of "0xFF"] d1(3,4) x(2) by auto
  have "feeds d2 us c n"
    using assms rx d2 x(2) by (auto simp: feeds_def Let_def split_def)
  then show thesis using that d1(1) d2(1) x(1) by (simp add: read_byte_clocked_def)
qed

lemma feeds_bytes:
  assumes "feeds d (vs @ us) c (length vs + n)"
  shows "\<exists>d'. read_bytes bus (length vs) d = Some (vs, d') \<and> feeds d' us c n"
  using assms
proof (induction vs arbitrary: d)
  case (Cons v vs)
  then obtain d1 where d1: "read_byte_clocked bus d = Some (v, d1)" "feeds d1 (vs @ us) c (length vs + n)"
    using feeds_step [of d v "vs @ us" c "length vs + n"] by auto
  then show ?case using Cons.IH [OF d1(2)] by auto
qed simp

lemma feeds_poll:
  assumes "feeds d (replicate k 0xFF @ x # us) c (Suc k + n)" "x \<noteq> 0xFF" "k \<le> t"
  shows "\<exists>d'. poll_loop bus t d = Some (x, t - k, d') \<and> feeds d' us c n"
  using assms(1,3)
proof (induction k arbitrary: d t)
  case 0
  then obtain d1 where "read_byte_clocked bus d = Some (x, d1)" "feeds d1 us c n"
    using feeds_step [of d x us c n] by auto
  then show ?case using assms(2) by (cases t) auto
next
  case (Suc k)
  then obtain t' where t: "t = Suc t'" "k \<le> t'" by (cases t) auto
  obtain d1 where d1: "read_byte_clocked bus d = Some (0xFF, d1)"
    "feeds d1 (replicate k 0xFF @ x # us) c (Suc k + n)"
    using feeds_step [of d "0xFF" "replicate k 0xFF @ x # us" c "Suc k + n"] Suc.prems(1) by auto
  then show ?case using Suc.IH [OF d1(2) t(2)] t(1) by auto
qed

text \<open>Sending a command: what follows in the receive queue is filler, then the answer.\<close>

lemma command_feeds:
  assumes "enabled d" "length (rx d) \<le> 8" "set (rx d) \<subseteq> {0xFF}"
    "answers step (select (card d)) cmd a crc (0xFF # as) P"
  obtains l c d' where "0 < l" "l \<le> 8" "SDSendCommand bus cmd a crc d = Some d'"
    "feeds d' (replicate l 0xFF @ as @ replicate l 0xFF) c (length as + l)" "P c"
proof -
  let ?c = "select (card d)" and ?cmd = "sd_cmd cmd a crc @ [0xFF]"
  let ?c' = "snd (run step ?c ?cmd)"
  have split: "sd_cmd cmd a crc @ replicate (length (0xFF # as) + m) 0xFF = ?cmd @ replicate (length as + m) 0xFF"
    for m by simp
  have sr: "fst (run step ?c ?cmd) @ fst (run step ?c' (replicate (length as + m) 0xFF)) =
      replicate 7 0xFF @ as @ replicate m 0xFF"
    "P (snd (run step ?c' (replicate (length as + m) 0xFF)))" for m
    using assms(4) unfolding answers_def split unfolding run_append [of _ _ ?cmd] Let_def split_def
    by (simp_all add: numeral_eq_Suc del: run.simps)
  have "length (fst (run step ?c ?cmd)) = 7" unfolding length_run by (simp add: sd_cmd_def)
  then have cmd7: "fst (run step ?c ?cmd) = replicate 7 0xFF"
    and rest: "\<And>m. fst (run step ?c' (replicate (length as + m) 0xFF)) = as @ replicate m 0xFF"
    using sr(1) by (simp_all add: append_eq_append_conv)
  obtain l d' where d': "SDSendCommand bus cmd a crc d = Some d'" "enabled d'" "0 < l" "l \<le> 8"
    "rx d' = replicate l 0xFF" "card d' = ?c'" using send_command [OF assms(1-3) cmd7] .
  have "feeds d' (replicate l 0xFF @ as @ replicate l 0xFF)
      (snd (run step ?c' (replicate (length as + l) 0xFF))) (length as + l)"
    unfolding feeds_def using d' rest by auto
  then show thesis using that [of l d'] d'(1,3,4) sr(2) by auto
qed

text \<open>The response: the filler bytes are skipped, also those that the queue still holds.\<close>

lemma r1_feeds:
  assumes "feeds d (replicate l 0xFF @ as @ vs) c m" "as = replicate n1 0xFF @ x # us"
    "m = Suc (l + n1) + n" "x \<noteq> 0xFF" "l \<le> 8" "n1 \<le> 8"
  shows "\<exists>d'. read_r1_response bus 0xFF d = Some (x, d') \<and> feeds d' (us @ vs) c n"
proof -
  have "feeds d (replicate (l + n1) 0xFF @ x # (us @ vs)) c (Suc (l + n1) + n)"
    using assms(1-3) by (simp add: replicate_add)
  then show ?thesis
    using feeds_poll [of d "l + n1" x "us @ vs" c n 254] assms(4-) by (auto simp: read_r1_response_def)
qed

end

section \<open>The card\<close>

text \<open>\<open>port_ready\<close>: between two commands the queue holds filler bytes only.\<close>

definition port_ready ::
  "('d \<Rightarrow> bool) \<Rightarrow> ('d \<Rightarrow> u8 list) \<Rightarrow> ('d \<Rightarrow> 'c) \<Rightarrow> ('c \<Rightarrow> bool) \<Rightarrow> 'd \<Rightarrow> bool" where
  "port_ready enabled rx crd idle d \<longleftrightarrow>
     enabled d \<and> idle (crd d) \<and> length (rx d) \<le> 8 \<and> set (rx d) \<subseteq> {0xFF}"

text \<open>What a card answers to the bytes after command 17: for a readable block the response 0, the
  start token, the data and two check bytes; for another block an error response, or an error
  token in the place of the start token.\<close>

fun block_answer :: "u8 list option \<Rightarrow> u8 list \<Rightarrow> bool" where
  "block_answer (Some bs) as \<longleftrightarrow> length bs = 512 \<and>
     (\<exists>n1 n2 k1 k2. n1 \<le> 8 \<and> n2 < 65534 \<and>
        as = replicate (Suc n1) 0xFF @ 0x00 # replicate n2 0xFF @ 0xFE # bs @ [k1, k2])"
| "block_answer None as \<longleftrightarrow>
     (\<exists>n1 r. n1 \<le> 8 \<and> r \<noteq> 0x00 \<and> r \<noteq> 0xFF \<and> as = replicate (Suc n1) 0xFF @ [r]) \<or>
     (\<exists>n1 n2 t. n1 \<le> 8 \<and> n2 < 65534 \<and> t \<noteq> 0xFE \<and> t \<noteq> 0xFF \<and>
        as = replicate (Suc n1) 0xFF @ 0x00 # replicate n2 0xFF @ [t])"

locale sd_card = spi_port bus enabled rx card step select deselect
  for bus :: "'d bus" and enabled :: "'d \<Rightarrow> bool" and rx :: "'d \<Rightarrow> u8 list" and card :: "'d \<Rightarrow> 'c"
    and step :: "'c \<Rightarrow> u8 \<Rightarrow> u8 \<times> 'c" and select :: "'c \<Rightarrow> 'c" and deselect :: "'c \<Rightarrow> 'c" +
  fixes idle :: "'c \<Rightarrow> bool"
    and contents :: "'c \<Rightarrow> disk"
  assumes idle_dummy: "idle c \<Longrightarrow> step c 0xFF = (r, c') \<Longrightarrow> r = 0xFF \<and> idle c' \<and> contents c' = contents c"
    and read_command: "idle c \<Longrightarrow> \<exists>as. block_answer (contents c a) as \<and>
      answers step (select c) 0x51 a 0x01 as (\<lambda>c'. idle (deselect c') \<and> contents (deselect c') = contents c)"
begin

abbreviation card_ready :: "'d \<Rightarrow> bool" where
  "card_ready \<equiv> port_ready enabled rx card idle"

abbreviation card_disk :: "'d \<Rightarrow> disk" where
  "card_disk \<equiv> \<lambda>d. contents (card d)"

text \<open>Sending the read command.\<close>

lemma read_command_feeds:
  assumes "card_ready d"
  obtains l as c d' where "block_answer (card_disk d a) (0xFF # as)" "0 < l" "l \<le> 8"
    "SDSendCommand bus 0x51 a 0x01 d = Some d'"
    "feeds d' (replicate l 0xFF @ as @ replicate l 0xFF) c (length as + l)"
    "idle (deselect c)" "contents (deselect c) = card_disk d"
proof -
  have rdy: "enabled d" "idle (card d)" "length (rx d) \<le> 8" "set (rx d) \<subseteq> {0xFF}"
    using assms by (simp_all add: port_ready_def)
  obtain as0 where as0: "block_answer (card_disk d a) as0"
    "answers step (select (card d)) 0x51 a 0x01 as0 (\<lambda>c'. idle (deselect c') \<and> contents (deselect c') = card_disk d)"
    using read_command [OF rdy(2), of a] by auto
  obtain as where as: "as0 = 0xFF # as" using as0(1) by (cases "card_disk d a") auto
  obtain l c d' where "0 < l" "l \<le> 8" "SDSendCommand bus 0x51 a 0x01 d = Some d'"
    "feeds d' (replicate l 0xFF @ as @ replicate l 0xFF) c (length as + l)"
    "idle (deselect c) \<and> contents (deselect c) = card_disk d"
    using command_feeds [OF rdy(1,3,4) as0(2) [unfolded as]] .
  then show thesis using that [of as l d' c] as0(1) as by simp
qed

lemma deassert_ready:
  assumes "feeds d (replicate l 0xFF) c 0" "idle (deselect c)" "contents (deselect c) = dsk"
  shows "\<exists>d'. deassertCS bus d = Some d' \<and> card_ready d' \<and> card_disk d' = dsk"
proof -
  let ?d = "reg_or bus SIO_OUT_SET 0x200 d"
  have d: "enabled d" "length (rx d) \<le> 8" "rx d = replicate l 0xFF" "card d = c" using assms(1) by (auto simp: feeds_def)
  have d1: "enabled ?d" "rx ?d = rx d" "card ?d = deselect c" using deselect_card [OF d(1)] d(4) by auto
  obtain r c' where st: "step (deselect c) 0xFF = (r, c')" by fastforce
  obtain d' where d': "spi_send_byte bus 0xFF ?d = Some d'" "enabled d'" "card d' = c'"
    "rx d' = take 8 (rx d @ [r])"
    using send_byte [OF d1(1), of "0xFF"] d1 d(2) st by auto
  have i: "r = 0xFF" "idle c'" "contents c' = dsk" using idle_dummy [OF assms(2) st] assms(3) by auto
  have "set (rx d') \<subseteq> {0xFF}"
    unfolding d'(4) using d(3) i(1) by (rule_tac order_trans [OF set_take_subset]) auto
  then show ?thesis
    using d' i by (auto simp: deassertCS_def port_ready_def)
qed

lemma token_feeds:
  assumes "feeds d (replicate n2 0xFF @ x # us) c (Suc n2 + n)" "x \<noteq> 0xFF" "n2 < 65534"
  shows "\<exists>d' t. poll_loop bus (unat (0xFFFF - 1 :: u16)) d = Some (x, t, d') \<and> t \<noteq> 0 \<and> feeds d' us c n"
  using feeds_poll [OF assms(1,2), of 65534] assms(3) by auto

text \<open>A block that can be read: after the response the queue holds or will hold filler, the
  start token, the data, the check bytes and filler.\<close>

lemma command_readable:
  assumes "card_ready d" "card_disk d a = Some bs"
  obtains d1 d2 l c n2 k1 k2 where "SDSendCommand bus 0x51 a 0x01 d = Some d1"
    "read_r1_response bus 0xFF d1 = Some (0, d2)" "length bs = 512" "n2 < 65534"
    "feeds d2 (replicate n2 0xFF @ 0xFE # bs @ [k1, k2] @ replicate l 0xFF) c (Suc n2 + 514)"
    "idle (deselect c)" "contents (deselect c) = card_disk d"
proof -
  obtain l as c d1 where cmd: "block_answer (card_disk d a) (0xFF # as)" "0 < l" "l \<le> 8"
    "SDSendCommand bus 0x51 a 0x01 d = Some d1"
    "feeds d1 (replicate l 0xFF @ as @ replicate l 0xFF) c (length as + l)"
    "idle (deselect c)" "contents (deselect c) = card_disk d"
    using read_command_feeds [OF assms(1)] .
  obtain n1 n2 k1 k2 where a: "length bs = 512" "n1 \<le> 8" "n2 < 65534"
    "as = replicate n1 0xFF @ 0x00 # replicate n2 0xFF @ 0xFE # bs @ [k1, k2]"
    using cmd(1) assms(2) by auto
  have "length as + l = Suc (l + n1) + (Suc n2 + 514)" using a(1,4) by simp
  from r1_feeds [OF cmd(5) a(4) this _ cmd(3) a(2)]
  obtain d2 where "read_r1_response bus 0xFF d1 = Some (0, d2)"
    "feeds d2 ((replicate n2 0xFF @ 0xFE # bs @ [k1, k2]) @ replicate l 0xFF) c (Suc n2 + 514)"
    by auto
  then show thesis using that [of d1 d2 n2 k1 k2 l c] cmd(4,6,7) a(1,3) by simp
qed

text \<open>A block that cannot be read: an error response, or an error token.\<close>

lemma command_unreadable:
  assumes "card_ready d" "card_disk d a = None"
  obtains d1 d2 r l c n2 t where "SDSendCommand bus 0x51 a 0x01 d = Some d1"
    "read_r1_response bus 0xFF d1 = Some (r, d2)" 
    "idle (deselect c)" "contents (deselect c) = card_disk d"
    "r \<noteq> 0 \<and> feeds d2 (replicate l 0xFF) c 0 \<or>
     r = 0 \<and> n2 < 65534 \<and> t \<noteq> 0xFE \<and> t \<noteq> 0xFF \<and>
       feeds d2 (replicate n2 0xFF @ t # replicate l 0xFF) c (Suc n2 + 0)"
proof -
  obtain l as c d1 where cmd: "block_answer (card_disk d a) (0xFF # as)" "0 < l" "l \<le> 8"
    "SDSendCommand bus 0x51 a 0x01 d = Some d1"
    "feeds d1 (replicate l 0xFF @ as @ replicate l 0xFF) c (length as + l)"
    "idle (deselect c)" "contents (deselect c) = card_disk d"
    using read_command_feeds [OF assms(1)] .
  consider (resp) n1 r where "n1 \<le> 8" "r \<noteq> 0" "r \<noteq> 0xFF" "as = replicate n1 0xFF @ r # []"
    | (token) n1 n2 t where "n1 \<le> 8" "n2 < 65534" "t \<noteq> 0xFE" "t \<noteq> 0xFF"
      "as = replicate n1 0xFF @ 0x00 # replicate n2 0xFF @ [t]"
    using cmd(1) assms(2) by auto
  then show thesis
  proof cases
    case resp
    then have "length as + l = Suc (l + n1) + 0" by simp
    from r1_feeds [OF cmd(5) resp(4) this resp(3) cmd(3) resp(1)]
    obtain d2 where "read_r1_response bus 0xFF d1 = Some (r, d2)" "feeds d2 ([] @ replicate l 0xFF) c 0"
      by auto
    then show thesis using that [of d1 r d2 c l] cmd(4,6,7) resp(2) by simp
  next
    case token
    have "length as + l = Suc (l + n1) + Suc n2" using token(5) by simp
    from r1_feeds [OF cmd(5) token(5) this _ cmd(3) token(1)]
    obtain d2 where "read_r1_response bus 0xFF d1 = Some (0, d2)"
      "feeds d2 ((replicate n2 0xFF @ [t]) @ replicate l 0xFF) c (Suc n2)"
      by auto
    then show thesis using that [of d1 0 d2 c l n2 t] cmd(4,6,7) token by simp
  qed
qed

lemma read_data_block_feeds:
  assumes "feeds d (replicate n2 0xFF @ 0xFE # bs @ [k1, k2] @ us) c (Suc n2 + 514)"
    "n2 < 65534" "length bs = 512"
  shows "\<exists>d'. read_data_block bus 0xFFFF d = Some (Some bs, d') \<and> feeds d' us c 0"
proof -
  obtain d1 t where d1: "poll_loop bus (unat (0xFFFF - 1 :: u16)) d = Some (0xFE, t, d1)" "t \<noteq> 0"
    "feeds d1 (bs @ [k1, k2] @ us) c 514" using token_feeds [OF assms(1) _ assms(2)] by auto
  obtain d2 where d2: "read_bytes bus 512 d1 = Some (bs, d2)" "feeds d2 ([k1, k2] @ us) c 2"
    using feeds_bytes [of d1 bs "[k1, k2] @ us" c 2] d1(3) assms(3) by auto
  obtain d3 where d3: "read_bytes bus 2 d2 = Some ([k1, k2], d3)" "feeds d3 us c 0"
    using feeds_bytes [of d2 "[k1, k2]" us c 0] d2(2) by (auto simp: numeral_2_eq_2)
  show ?thesis
    unfolding read_data_block_def d1(1) using d1(2) d2(1) d3 by (simp add: SD_BLOCK_SIZE_def)
qed

lemma discard_count:
  assumes "unat off + unat len \<le> 512"
  shows "unat (512 - off - len + 2 :: u16) = 512 - unat off - unat len + 2"
proof -
  have o: "unat (512 - off) = 512 - unat off" using assms by (subst unat_sub) (auto simp: word_le_nat_alt)
  have "unat (512 - off - len) = 512 - unat off - unat len"
    using assms o by (subst unat_sub) (auto simp: word_le_nat_alt)
  moreover have "unat (w + 2) = unat w + 2" if "unat w \<le> 512" for w :: u16
    using that by (simp add: unat_word_ariths)
  ultimately show ?thesis by (metis diff_le_self order_trans)
qed

lemma read_partial_feeds:
  assumes "feeds d (replicate n2 0xFF @ 0xFE # bs @ [k1, k2] @ us) c (Suc n2 + 514)"
    "n2 < 65534" "length bs = 512" "unat off + unat len \<le> 512"
  shows "\<exists>d'. read_data_block_partial bus off len 0xFFFF d =
    Some (Some (take (unat len) (drop (unat off) bs)), d') \<and> feeds d' us c 0"
proof -
  let ?b1 = "take (unat off) bs" and ?b2 = "take (unat len) (drop (unat off) bs)"
    and ?b3 = "drop (unat off + unat len) bs @ [k1, k2]"
  have lens: "length ?b1 = unat off" "length ?b2 = unat len"
    "length ?b3 = 512 - unat off - unat len + 2" using assms(3,4) by simp_all
  have parts: "bs @ [k1, k2] @ us = ?b1 @ ?b2 @ ?b3 @ us"
    using append_take_drop_id [of "unat len" "drop (unat off) bs"]
    by (simp add: add.commute flip: append.assoc)
  obtain d1 t where d1: "poll_loop bus (unat (0xFFFF - 1 :: u16)) d = Some (0xFE, t, d1)" "t \<noteq> 0"
    "feeds d1 (bs @ [k1, k2] @ us) c 514" using token_feeds [OF assms(1) _ assms(2)] by auto
  have n: "514 = length ?b1 + (length ?b2 + (length ?b3 + 0))" using assms(3,4) lens by simp
  obtain d2 where d2: "read_bytes bus (unat off) d1 = Some (?b1, d2)"
    "feeds d2 (?b2 @ ?b3 @ us) c (length ?b2 + (length ?b3 + 0))"
    using feeds_bytes [OF d1(3) [unfolded parts n]] lens(1) by auto
  obtain d3 where d3: "read_bytes bus (unat len) d2 = Some (?b2, d3)" "feeds d3 (?b3 @ us) c (length ?b3 + 0)"
    using feeds_bytes [OF d2(2)] lens(2) by auto
  obtain d4 where d4: "read_bytes bus (512 - unat off - unat len + 2) d3 = Some (?b3, d4)" "feeds d4 us c 0"
    using feeds_bytes [OF d3(2)] lens(3) by auto
  show ?thesis
    unfolding read_data_block_partial_def d1(1) Let_def discard_count [OF assms(4)]
    using d1(2) d2(1) d3(1) d4 by (simp del: read_bytes.simps add_2_eq_Suc')
qed

lemma read_data_error_feeds:
  assumes "feeds d (replicate n2 0xFF @ t # us) c (Suc n2 + 0)" "n2 < 65534" "t \<noteq> 0xFE" "t \<noteq> 0xFF"
  shows "\<exists>d'. read_data_block bus 0xFFFF d = Some (None, d') \<and>
    read_data_block_partial bus off len 0xFFFF d = Some (None, d') \<and> feeds d' us c 0"
proof -
  obtain d1 m where d1: "poll_loop bus (unat (0xFFFF - 1 :: u16)) d = Some (t, m, d1)" "m \<noteq> 0"
    "feeds d1 us c 0" using token_feeds [OF assms(1,4,2)] by auto
  then show ?thesis using assms(3) by (auto simp: read_data_block_def read_data_block_partial_def)
qed

theorem sdReadBlock_spec:
  assumes "card_ready d"
  shows "\<exists>d'. sdReadBlock bus a d = Some (card_disk d a, d') \<and> card_ready d' \<and> card_disk d' = card_disk d"
proof (cases "card_disk d a")
  case (Some bs)
  obtain d1 d2 l c n2 k1 k2 where c: "SDSendCommand bus 0x51 a 0x01 d = Some d1"
    "read_r1_response bus 0xFF d1 = Some (0, d2)" "length bs = 512" "n2 < 65534"
    "feeds d2 (replicate n2 0xFF @ 0xFE # bs @ [k1, k2] @ replicate l 0xFF) c (Suc n2 + 514)"
    "idle (deselect c)" "contents (deselect c) = card_disk d" using command_readable [OF assms Some] .
  obtain d3 where d3: "read_data_block bus 0xFFFF d2 = Some (Some bs, d3)" "feeds d3 (replicate l 0xFF) c 0"
    using read_data_block_feeds [OF c(5,4,3)] by auto
  then show ?thesis
    using deassert_ready [OF d3(2) c(6,7)] c(1,2) Some by (auto simp: sdReadBlock_def)
next
  case None
  obtain d1 d2 r l c n2 t where c: "SDSendCommand bus 0x51 a 0x01 d = Some d1"
    "read_r1_response bus 0xFF d1 = Some (r, d2)" "idle (deselect c)" "contents (deselect c) = card_disk d"
    "r \<noteq> 0 \<and> feeds d2 (replicate l 0xFF) c 0 \<or> r = 0 \<and> n2 < 65534 \<and> t \<noteq> 0xFE \<and> t \<noteq> 0xFF \<and>
       feeds d2 (replicate n2 0xFF @ t # replicate l 0xFF) c (Suc n2 + 0)"
    using command_unreadable [OF assms None] .
  from c(5) show ?thesis
  proof
    assume r: "r \<noteq> 0 \<and> feeds d2 (replicate l 0xFF) c 0"
    then show ?thesis
      using deassert_ready [OF _ c(3,4), of d2 l] c(1,2) None
      by (auto simp: sdReadBlock_def)
  next
    assume r: "r = 0 \<and> n2 < 65534 \<and> t \<noteq> 0xFE \<and> t \<noteq> 0xFF \<and>
       feeds d2 (replicate n2 0xFF @ t # replicate l 0xFF) c (Suc n2 + 0)"
    then obtain d3 where d3: "read_data_block bus 0xFFFF d2 = Some (None, d3)" "feeds d3 (replicate l 0xFF) c 0"
      using read_data_error_feeds [of d2 n2 t _ c] by blast
    then show ?thesis
      using deassert_ready [OF d3(2) c(3,4)] c(1,2) r None by (auto simp: sdReadBlock_def)
  qed
qed

theorem sdReadPartialBlock_spec:
  assumes "card_ready d" "unat off + unat len \<le> 512"
  shows "\<exists>d'. sdReadPartialBlock bus a off len d =
      Some (map_option (\<lambda>bs. take (unat len) (drop (unat off) bs)) (card_disk d a), d') \<and>
    card_ready d' \<and> card_disk d' = card_disk d"
proof (cases "card_disk d a")
  case (Some bs)
  obtain d1 d2 l c n2 k1 k2 where c: "SDSendCommand bus 0x51 a 0x01 d = Some d1"
    "read_r1_response bus 0xFF d1 = Some (0, d2)" "length bs = 512" "n2 < 65534"
    "feeds d2 (replicate n2 0xFF @ 0xFE # bs @ [k1, k2] @ replicate l 0xFF) c (Suc n2 + 514)"
    "idle (deselect c)" "contents (deselect c) = card_disk d" using command_readable [OF assms(1) Some] .
  obtain d3 where d3: "read_data_block_partial bus off len 0xFFFF d2 =
      Some (Some (take (unat len) (drop (unat off) bs)), d3)" "feeds d3 (replicate l 0xFF) c 0"
    using read_partial_feeds [OF c(5,4,3) assms(2)] by auto
  then show ?thesis
    using deassert_ready [OF d3(2) c(6,7)] c(1,2) Some by (auto simp: sdReadPartialBlock_def)
next
  case None
  obtain d1 d2 r l c n2 t where c: "SDSendCommand bus 0x51 a 0x01 d = Some d1"
    "read_r1_response bus 0xFF d1 = Some (r, d2)" "idle (deselect c)" "contents (deselect c) = card_disk d"
    "r \<noteq> 0 \<and> feeds d2 (replicate l 0xFF) c 0 \<or> r = 0 \<and> n2 < 65534 \<and> t \<noteq> 0xFE \<and> t \<noteq> 0xFF \<and>
       feeds d2 (replicate n2 0xFF @ t # replicate l 0xFF) c (Suc n2 + 0)"
    using command_unreadable [OF assms(1) None] .
  from c(5) show ?thesis
  proof
    assume r: "r \<noteq> 0 \<and> feeds d2 (replicate l 0xFF) c 0"
    then show ?thesis
      using deassert_ready [OF _ c(3,4), of d2 l] c(1,2) None by (auto simp: sdReadPartialBlock_def)
  next
    assume r: "r = 0 \<and> n2 < 65534 \<and> t \<noteq> 0xFE \<and> t \<noteq> 0xFF \<and>
       feeds d2 (replicate n2 0xFF @ t # replicate l 0xFF) c (Suc n2 + 0)"
    then obtain d3 where d3: "read_data_block_partial bus off len 0xFFFF d2 = Some (None, d3)"
      "feeds d3 (replicate l 0xFF) c 0"
      using read_data_error_feeds [of d2 n2 t _ c] by blast
    then show ?thesis
      using deassert_ready [OF d3(2) c(3,4)] c(1,2) r None by (auto simp: sdReadPartialBlock_def)
  qed
qed

lemma card_disk_length: "card_ready d \<Longrightarrow> card_disk d a = Some bs \<Longrightarrow> length bs = 512"
  using command_readable by metis

text \<open>The card driver keeps the contract of the FAT driver.\<close>

sublocale card_device: block_device "sd_blockdev bus" card_ready card_disk
  by unfold_locales (use card_disk_length sdReadBlock_spec sdReadPartialBlock_spec in
    \<open>auto simp: sd_blockdev_def\<close>)

end

end
