(* ===== verification/Console.thy ===== *)
theory Console
  imports Bus
begin

unbundle bit_operations_syntax

text \<open>
  What the timer functions and the UART driver do on hardware that keeps its documented
  contract.  \<open>timer\<close>: a counter of microseconds that advances with every access, whose low word
  latches the high word when it is read; the outstanding \<open>work\<close> of the hardware never grows by it.  \<open>uart_port\<close>: a transmitter with a queue that drains
  while the flag register is polled and takes a byte when it has room.  The function \<open>others\<close> stands for
  the rest of the hardware, which these registers do not touch.
\<close>

section \<open>The timer\<close>

locale timer =
  fixes bus :: "'d bus"
    and clk :: "'d \<Rightarrow> nat"
    and latched :: "'d \<Rightarrow> u32"
    and period :: nat
    and others :: "'d \<Rightarrow> 'r"
    and work :: "'d \<Rightarrow> nat"
  assumes period: "0 < period"
    and low: "bus_read bus TIMER_LR d = (v, d') \<Longrightarrow>
      clk d < clk d' \<and> clk d' \<le> clk d + period * 4294967296 \<and> v = of_nat (clk d' div period) \<and>
      latched d' = of_nat (clk d' div period div 4294967296) \<and> others d' = others d \<and> work d' \<le> work d"
    and high: "bus_read bus TIMER_HR d = (v, d') \<Longrightarrow>
      clk d < clk d' \<and> clk d' \<le> clk d + period * 4294967296 \<and> v = latched d \<and> others d' = others d \<and>
      work d' \<le> work d"
begin

definition now :: "'d \<Rightarrow> nat" where
  "now d = clk d div period"

lemma join_halves:
  "push_bit 32 (ucast (of_nat (n div 4294967296) :: u32)) OR ucast (of_nat n :: u32) = (of_nat n :: u64)"
proof (rule bit_word_eqI)
  fix i assume "i < LENGTH(64)"
  moreover have "bit (n div 4294967296) (i - 32) \<longleftrightarrow> bit n i" if "32 \<le> i"
  proof -
    have "n div 4294967296 = drop_bit 32 n" by (simp add: drop_bit_eq_div)
    then show ?thesis using that by (simp add: bit_simps)
  qed
  ultimately show "bit (push_bit 32 (ucast (of_nat (n div 4294967296) :: u32)) OR ucast (of_nat n :: u32) :: u64) i
      = bit (of_nat n :: u64) i"
    by (cases "i < 32") (auto simp: bit_simps)
qed

lemma readTime_spec:
  obtains d1 d2 where "readTime bus d = (of_nat (now d1), d2)" "clk d < clk d1" "clk d1 < clk d2"
    "now d1 \<le> now d + 4294967296" "now d2 \<le> now d1 + 4294967296" "others d2 = others d" "work d2 \<le> work d"
proof -
  obtain v d1 where r1: "bus_read bus TIMER_LR d = (v, d1)" by fastforce
  obtain w d2 where r2: "bus_read bus TIMER_HR d1 = (w, d2)" by fastforce
  note l = low [OF r1] and h = high [OF r2]
  have step: "now b \<le> now a + 4294967296" if "clk b \<le> clk a + period * 4294967296" for a b
  proof -
    have "now b \<le> (clk a + period * 4294967296) div period" unfolding now_def by (rule div_le_mono [OF that])
    then show ?thesis using period by (simp add: now_def)
  qed
  have "readTime bus d = (of_nat (now d1), d2)"
    using l h by (simp add: readTime_def r1 r2 join_halves now_def)
  then show thesis using that l h step [of d1 d] step [of d2 d1] by auto
qed

lemma now_mono: "clk a \<le> clk b \<Longrightarrow> now a \<le> now b"
  by (simp add: now_def div_le_mono)

lemma usleep_loop_returns:
  assumes "now0 \<le> now d" "now d \<le> now0 + 17179869184"
  shows "\<exists>d'. usleep_loop bus (of_nat now0) usec d = Some d' \<and> clk d < clk d' \<and>
    now0 + unat usec \<le> now d' \<and> others d' = others d \<and> work d' \<le> work d"
  using assms
proof (induction "(now0 + unat usec) * period - clk d" arbitrary: d rule: less_induct)
  case less
  obtain d1 d2 where r: "readTime bus d = (of_nat (now d1), d2)" "clk d < clk d1" "clk d1 < clk d2"
    "now d1 \<le> now d + 4294967296" "now d2 \<le> now d1 + 4294967296" "others d2 = others d" "work d2 \<le> work d"
    using readTime_spec .
  have le: "now0 \<le> now d1" "now d1 \<le> now d2"
    using less.prems now_mono [of d d1] now_mono [of d1 d2] r(2,3) by auto
  have "(of_nat (now d1) - of_nat now0 :: u64) = of_nat (now d1 - now0)" using le by simp
  moreover have "now d1 - now0 < 2 ^ 64" using less.prems(2) r(4) by simp
  ultimately have diff: "unat (of_nat (now d1) - of_nat now0 :: u64) = now d1 - now0"
    by (simp add: unat_of_nat take_bit_nat_eq_self)
  have us: "unat (ucast usec :: u64) = unat usec"
    by (simp add: unsigned_ucast_eq take_bit_nat_eq_self order_less_trans [OF unat_u32_lt])
  show ?case
  proof (cases "now d1 - now0 < unat usec")
    case False
    then have "usleep_loop bus (of_nat now0) usec d = Some d2"
      by (subst usleep_loop.simps) (simp add: r(1) word_less_nat_alt diff us)
    then show ?thesis using False r le by (intro exI [of _ d2]) auto
  next
    case True
    then have again: "usleep_loop bus (of_nat now0) usec d = usleep_loop bus (of_nat now0) usec d2"
      by (subst usleep_loop.simps) (simp add: r(1) word_less_nat_alt diff us)
    have "now d1 < now0 + unat usec" using True le by simp
    then have "clk d1 < (now0 + unat usec) * period"
      unfolding now_def using period by (simp add: less_mult_imp_div_less div_less_iff_less_mult mult.commute)
    then have "(now0 + unat usec) * period - clk d2 < (now0 + unat usec) * period - clk d" using r(2,3) by linarith
    moreover have "now d2 \<le> now0 + 17179869184"
      using \<open>now d1 < now0 + unat usec\<close> r(5) unat_u32_lt [of usec] by linarith
    ultimately obtain d' where "usleep_loop bus (of_nat now0) usec d2 = Some d'" "clk d2 < clk d'"
      "now0 + unat usec \<le> now d'" "others d' = others d2" "work d' \<le> work d2"
      using less.hyps [of d2] le by auto
    then show ?thesis using again r by auto
  qed
qed

lemma usleep_returns:
  "\<exists>d'. usleep bus usec d = Some (0, d') \<and> now d + unat usec \<le> now d' \<and> others d' = others d \<and> work d' \<le> work d"
proof -
  obtain d1 d2 where r: "readTime bus d = (of_nat (now d1), d2)" "clk d < clk d1" "clk d1 < clk d2"
    "now d1 \<le> now d + 4294967296" "now d2 \<le> now d1 + 4294967296" "others d2 = others d" "work d2 \<le> work d"
    using readTime_spec .
  obtain d' where "usleep_loop bus (of_nat (now d1)) usec d2 = Some d'" "now d1 + unat usec \<le> now d'"
    "others d' = others d2" "work d' \<le> work d2"
    using usleep_loop_returns [of "now d1" d2 usec] now_mono [of d1 d2] r by auto
  then show ?thesis using r now_mono [of d d1] by (auto simp: usleep_def)
qed

end

section \<open>The UART\<close>

locale uart_port =
  fixes bus :: "'d bus"
    and sent :: "'d \<Rightarrow> u8 list"
    and room :: "'d \<Rightarrow> bool"
    and backlog :: "'d \<Rightarrow> nat"
    and others :: "'d \<Rightarrow> 'r"
  assumes flags: "bus_read bus UART_FR d = (v, d') \<Longrightarrow> sent d' = sent d \<and> others d' = others d \<and>
      (if v AND 0x20 = 0 then room d' else backlog d' < backlog d)"
    and put: "\<lbrakk>room d; bus_write bus UART_DR (ucast b) d = d'\<rbrakk> \<Longrightarrow>
      sent d' = sent d @ [b] \<and> others d' = others d"
begin

lemma wait_room:
  "\<exists>d'. wait_clear bus UART_FR 0x20 d = Some d' \<and> room d' \<and> sent d' = sent d \<and> others d' = others d"
proof (induction "backlog d" arbitrary: d rule: less_induct)
  case less
  obtain v d1 where r: "bus_read bus UART_FR d = (v, d1)" by fastforce
  show ?case
  proof (cases "v AND 0x20 = 0")
    case True
    then show ?thesis using flags [OF r] by (subst wait_clear.simps) (auto simp: r)
  next
    case False
    then have "wait_clear bus UART_FR 0x20 d = wait_clear bus UART_FR 0x20 d1"
      by (subst wait_clear.simps) (auto simp: r)
    then show ?thesis using less.hyps [of d1] flags [OF r] False by auto
  qed
qed

lemma uartTx_sends: "\<exists>d'. uartTx bus b d = Some d' \<and> sent d' = sent d @ [b] \<and> others d' = others d"
proof -
  obtain d1 where "wait_clear bus UART_FR 0x20 d = Some d1" "room d1" "sent d1 = sent d" "others d1 = others d"
    using wait_room [of d] by blast
  then show ?thesis using put [of d1 b] by (auto simp: uartTx_def)
qed

lemma uart_puts_sends:
  "\<exists>d'. uart_puts bus bs d = Some d' \<and> sent d' = sent d @ bs \<and> others d' = others d"
proof (induction bs arbitrary: d)
  case (Cons b bs)
  obtain d1 where d1: "uartTx bus b d = Some d1" "sent d1 = sent d @ [b]" "others d1 = others d"
    using uartTx_sends [of b d] by blast
  then show ?case using Cons [of d1] by auto
qed simp

lemma uartTxStr_puts: "0 \<notin> set cs \<Longrightarrow> uartTxStr bus (cs @ 0 # rest) d = uart_puts bus cs d"
  by (induction cs arbitrary: d) (auto intro!: Option.bind_cong)

lemma uartTxStr_sends:
  "0 \<notin> set cs \<Longrightarrow> \<exists>d'. uartTxStr bus (cs @ 0 # rest) d = Some d' \<and> sent d' = sent d @ cs \<and> others d' = others d"
  using uart_puts_sends by (simp add: uartTxStr_puts)

lemma uartTxDec_sends:
  "\<exists>d' ds. uartTxDec bus n d = Some d' \<and> sent d' = sent d @ ds \<and> others d' = others d \<and> ds \<noteq> [] \<and>
    list_all is_dec_digit ds \<and> digits_value 10 ds = unat n \<and> (n \<noteq> 0 \<longrightarrow> hd ds \<noteq> 0x30)"
proof -
  obtain ds where ds: "intToDec n = ds @ [0]" "ds \<noteq> []" "list_all is_dec_digit ds" "digits_value 10 ds = unat n"
    "n \<noteq> 0 \<longrightarrow> hd ds \<noteq> 0x30" using intToDec_correct by blast
  have "0 \<notin> set ds" using ds(3) by (auto simp: list_all_iff is_dec_digit_def)
  then show ?thesis
    using uartTxStr_sends [of ds "[]" d] ds by (auto simp: uartTxDec_def)
qed

end

section \<open>A chip to compute with\<close>

text \<open>A timer that advances by one microsecond per access and a transmitter that is busy for as
  many polls as a counter says, and for two polls after each byte.\<close>

record chip =
  ch_clk :: nat
  ch_latch :: u32
  ch_busy :: nat
  ch_sent :: "u8 list"

definition chip_read :: "u32 \<Rightarrow> chip \<Rightarrow> u32 \<times> chip" where
  "chip_read reg d =
     (if reg = TIMER_LR then
        (of_nat (ch_clk d + 1), d\<lparr>ch_clk := ch_clk d + 1, ch_latch := of_nat ((ch_clk d + 1) div 4294967296)\<rparr>)
      else if reg = TIMER_HR then (ch_latch d, d\<lparr>ch_clk := ch_clk d + 1\<rparr>)
      else if reg = UART_FR then
        (if ch_busy d = 0 then (0, d) else (0x20, d\<lparr>ch_busy := ch_busy d - 1\<rparr>))
      else (0, d))"

definition chip_write :: "u32 \<Rightarrow> u32 \<Rightarrow> chip \<Rightarrow> chip" where
  "chip_write reg v d =
     (if reg = UART_DR then d\<lparr>ch_busy := 2, ch_sent := ch_sent d @ [ucast v]\<rparr> else d)"

definition chip_bus :: "chip bus" where
  "chip_bus = \<lparr>bus_read = chip_read, bus_write = chip_write\<rparr>"

lemmas console_regs = TIMER_LR_def TIMER_HR_def UART_FR_def UART_DR_def

interpretation chip_timer: timer chip_bus ch_clk ch_latch 1 ch_sent ch_busy
  by unfold_locales (auto simp: chip_bus_def chip_read_def console_regs)

interpretation chip_uart: uart_port chip_bus ch_sent "\<lambda>d. ch_busy d = 0" ch_busy ch_clk
  by unfold_locales
    (auto simp: chip_bus_def chip_read_def chip_write_def console_regs ucast_ucast_u8 split: if_splits)

definition chip0 :: chip where
  "chip0 = \<lparr>ch_clk = 4294967295, ch_latch = 0, ch_busy = 5, ch_sent = []\<rparr>"

section \<open>Properties\<close>

text \<open>C34. \<open>usleep\<close> returns, and not before the given number of microseconds has passed, for every
  value of the timer: also across the carry from the low to the high word.  It touches nothing
  but the timer.\<close>

theorem usleep_waits:
  assumes "timer bus clk latched period others work"
  shows "\<exists>d'. usleep bus usec d = Some (0, d') \<and> clk d div period + unat usec \<le> clk d' div period \<and>
    others d' = others d"
  using timer.usleep_returns [OF assms, of usec d] by (auto simp: timer.now_def [OF assms])

theorem usleep_waits_witness: "\<exists>d'. usleep chip_bus 1000 chip0 = Some (0, d') \<and> 4294968295 \<le> ch_clk d'"
  using usleep_waits [OF chip_timer.timer_axioms, of 1000 chip0] by (auto simp: chip0_def)

text \<open>\<open>sleep\<close> waits for the given number of seconds up to 4294 seconds, the largest number whose
  microseconds fit into 32 bits.\<close>

lemma sleep_waits:
  assumes "timer bus clk latched period others work" "seconds \<le> 4294"
  shows "\<exists>d'. sleep bus seconds d = Some (0, d') \<and>
    clk d div period + unat seconds * 1000000 \<le> clk d' div period"
proof -
  have "unat (seconds * 1000000) = unat seconds * 1000000"
    using assms(2) by (simp add: unat_word_ariths word_le_nat_alt)
  then show ?thesis
    using timer.usleep_returns [OF assms(1), of "seconds * 1000000" d]
    by (auto simp: timer.now_def [OF assms(1)] sleep_def)
qed

text \<open>\<open>uartTxDec\<close> returns after sending exactly the decimal digits of the number, without a
  leading zero, whatever the transmitter is still busy with.\<close>

lemma uartTxDec_prints:
  assumes "uart_port bus sent room backlog others"
  shows "\<exists>d' ds. uartTxDec bus n d = Some d' \<and> sent d' = sent d @ ds \<and> others d' = others d \<and> ds \<noteq> [] \<and>
    list_all is_dec_digit ds \<and> digits_value 10 ds = unat n \<and> (n \<noteq> 0 \<longrightarrow> hd ds \<noteq> 0x30)"
  using uart_port.uartTxDec_sends [OF assms] .

lemma uartTxDec_prints_witness:
  "\<exists>d' ds. uartTxDec chip_bus 1234 chip0 = Some d' \<and> ch_sent d' = ds \<and> digits_value 10 ds = 1234"
  using uartTxDec_prints [OF chip_uart.uart_port_axioms, of 1234 chip0] by (auto simp: chip0_def)

text \<open>The baud rate divisors: unless the integer part would be zero, the value programmed, in
  64ths, is eight clocks per baud period divided by two, rounded to the nearest.  The fractional
  part is at most 64, and is 64, which the 6-bit field does not hold, exactly when the
  remainder is 127.\<close>

lemma uart_divisors_nearest:
  assumes "uart_divisors baud_rate = (ibrd, fbrd)" "128 \<le> 1600000000 div baud_rate"
  shows "64 * unat ibrd + unat fbrd = (1600000000 div unat baud_rate + 1) div 2 \<and> unat fbrd \<le> 64 \<and>
    (fbrd = 64 \<longleftrightarrow> 1600000000 div unat baud_rate mod 128 = 127)"
proof -
  define q where "q = 1600000000 div unat baud_rate"
  let ?w = "1600000000 div baud_rate"
  have uq: "unat ?w = q" by (simp add: unat_div_u32 q_def)
  have q: "128 \<le> q" using assms(2) by (simp add: word_le_nat_alt uq)
  have i: "unat (drop_bit 7 ?w) = q div 128" by (simp add: drop_bit_eq_div unat_div_u32 q_def)
  have f: "unat (?w AND 0x7F) = q mod 128"
  proof -
    have "?w AND 0x7F = take_bit 7 ?w" by (simp add: take_bit_eq_mask mask_eq_exp_minus_1)
    then show ?thesis by (simp add: take_bit_eq_mod unat_mod_u32 unat_div_u32 q_def)
  qed
  have "unat ((?w AND 0x7F) + 1) = q mod 128 + 1" using f by (simp add: unat_word_ariths)
  then have f2: "unat (drop_bit 1 ((?w AND 0x7F) + 1)) = (q mod 128 + 1) div 2"
    by (simp add: drop_bit_eq_div unat_div_u32)
  have "drop_bit 7 ?w \<noteq> 0" using i q by (metis div_greater_zero_iff less_irrefl unat_0 zero_less_numeral)
  then have "ibrd = drop_bit 7 ?w" "fbrd = drop_bit 1 ((?w AND 0x7F) + 1)"
    using assms(1) by (auto simp: uart_divisors_def CLK_SYS_HZ_def Let_def)
  then have ib: "unat ibrd = q div 128" and fb: "unat fbrd = (q mod 128 + 1) div 2" using i f2 by simp_all
  have "fbrd = 64 \<longleftrightarrow> unat fbrd = 64" by (simp add: word_unat_eq_iff)
  moreover have "64 * (q div 128) + (q mod 128 + 1) div 2 = (q + 1) div 2"
  proof -
    have "q + 1 = (q mod 128 + 1) + (64 * (q div 128)) * 2" by simp
    then show ?thesis by (metis add.commute div_mult_self1 zero_neq_numeral)
  qed
  moreover have "(r + 1) div 2 = 64 \<longleftrightarrow> r = 127" "(r + 1) div 2 \<le> 64" if "r < 128" for r :: nat
    using that by linarith+
  then have "(q mod 128 + 1) div 2 = 64 \<longleftrightarrow> q mod 128 = 127" "(q mod 128 + 1) div 2 \<le> 64" by simp_all
  ultimately show ?thesis unfolding ib fb q_def [symmetric] by simp
qed

lemma uart_divisors_nearest_witness: "uart_divisors 115200 = (108, 32) \<and>
    64 * 108 + 32 = (1600000000 div 115200 + 1) div (2 :: nat)"
proof -
  have "uart_divisors 115200 = (108, 32)" by (simp add: uart_divisors_def CLK_SYS_HZ_def drop_bit_eq_div)
  then show ?thesis using uart_divisors_nearest [of 115200 108 32] by simp
qed

end
