(* ===== verification/Sd_Init.thy ===== *)
theory Sd_Init
  imports Sd_Read Console
begin

unbundle bit_operations_syntax

text \<open>
  Starting and stopping the card: \<open>SDInit\<close> and \<open>SDShutdown\<close> of \<open>src/src/lib/sd/SD.c\<close>.  The contract
  \<open>sd_startup\<close> adds to the card of \<open>Sd_Read\<close> the phases of its initialisation: command 0 takes it to
  the idle state, command 8 confirms the voltage range, and command 41, announced by command 55,
  starts it, which takes the card \<open>tries\<close> rounds; command 58 reads the capacity bit.  \<open>mute\<close> is the other
  case: a line that always reads as ones, as when there is no card.
\<close>

section \<open>A line without a card\<close>

locale mute_line = spi_port bus enabled rx card step select deselect +
  timer bus clk latched period "\<lambda>d. (enabled d, rx d, card d)" work
  for bus :: "'d bus" and enabled :: "'d \<Rightarrow> bool" and rx :: "'d \<Rightarrow> u8 list" and card :: "'d \<Rightarrow> 'c"
    and step :: "'c \<Rightarrow> u8 \<Rightarrow> u8 \<times> 'c" and select :: "'c \<Rightarrow> 'c" and deselect :: "'c \<Rightarrow> 'c"
    and clk :: "'d \<Rightarrow> nat" and latched :: "'d \<Rightarrow> u32" and period :: nat and work :: "'d \<Rightarrow> nat" +
  fixes mute :: "'c \<Rightarrow> bool"
  assumes silent: "mute c \<Longrightarrow> step c b = (r, c') \<Longrightarrow> r = 0xFF \<and> mute c'"
    and no_select: "mute c \<Longrightarrow> mute (select c) \<and> mute (deselect c)"
begin

lemma run_mute: "mute c \<Longrightarrow> fst (run step c bs) = replicate (length bs) 0xFF \<and> mute (snd (run step c bs))"
proof (induction bs arbitrary: c)
  case (Cons b bs)
  obtain r c' where st: "step c b = (r, c')" by fastforce
  then show ?case using silent [OF Cons.prems st] Cons.IH [of c'] by (simp add: split_def Let_def)
qed simp

definition quiet :: "'d \<Rightarrow> bool" where
  "quiet d \<longleftrightarrow> port_ready enabled rx card mute d"

lemma quiet_send:
  assumes "quiet d"
  shows "\<exists>d'. send_bytes bus bs d = Some d' \<and> quiet d' \<and> (bs \<noteq> [] \<longrightarrow> rx d' \<noteq> [])"
proof -
  have d: "enabled d" "mute (card d)" "length (rx d) \<le> 8" "set (rx d) \<subseteq> {0xFF}"
    using assms by (simp_all add: quiet_def port_ready_def)
  obtain d' where d': "send_bytes bus bs d = Some d'" "enabled d'" "card d' = snd (run step (card d) bs)"
    "rx d' = take 8 (rx d @ replicate (length bs) 0xFF)"
    using send_all [OF d(1,3), of bs] run_mute [OF d(2), of bs] by auto
  have "set (rx d') \<subseteq> {0xFF}"
    using d(4) unfolding d'(4) by (rule_tac order_trans [OF set_take_subset]) auto
  then show ?thesis using d' run_mute [OF d(2), of bs] by (auto simp: quiet_def port_ready_def)
qed

lemma quiet_select: "quiet d \<Longrightarrow> quiet (reg_or bus SIO_OUT_SET 0x200 d) \<and> quiet (reg_or bus SIO_OUT_CLR 0x200 d)"
  using select_card [of d] deselect_card [of d] no_select [of "card d"] by (simp add: quiet_def port_ready_def)

lemma quiet_command:
  assumes "quiet d"
  shows "\<exists>d'. SDSendCommand bus cmd a crc d = Some d' \<and> quiet d' \<and> rx d' \<noteq> []"
  using quiet_send [of "reg_or bus SIO_OUT_CLR 0x200 d"] quiet_select [OF assms]
  by (simp add: SDSendCommand_def del: send_bytes.simps) blast

lemma quiet_byte:
  assumes "quiet d" "rx d \<noteq> []"
  shows "\<exists>d'. read_byte_clocked bus d = Some (0xFF, d') \<and> quiet d' \<and> rx d' \<noteq> []"
proof -
  obtain x xs where rx: "rx d = x # xs" using assms(2) by (cases "rx d") auto
  have d: "enabled d" "x = 0xFF" using assms(1) rx by (auto simp: quiet_def port_ready_def)
  obtain d1 where d1: "spi_read_byte bus d = Some (x, d1)" "enabled d1" "rx d1 = xs" "card d1 = card d"
    using read_byte [OF d(1) rx] .
  have "quiet d1" using assms(1) d1 rx by (auto simp: quiet_def port_ready_def)
  then obtain d2 where "send_bytes bus [0xFF] d1 = Some d2" "quiet d2" "rx d2 \<noteq> []"
    using quiet_send [of d1 "[0xFF]"] by auto
  then show ?thesis using d1(1) d(2) by (auto simp: read_byte_clocked_def split: bind_splits)
qed

lemma quiet_poll: "quiet d \<Longrightarrow> rx d \<noteq> [] \<Longrightarrow> \<exists>d'. poll_loop bus t d = Some (0xFF, 0, d') \<and> quiet d'"
proof (induction t arbitrary: d)
  case 0
  then show ?case using quiet_byte [of d] by auto
next
  case (Suc t)
  obtain d1 where "read_byte_clocked bus d = Some (0xFF, d1)" "quiet d1" "rx d1 \<noteq> []"
    using quiet_byte [OF Suc.prems] by blast
  then show ?case using Suc.IH [of d1] by auto
qed

lemma quiet_deassert: "quiet d \<Longrightarrow> \<exists>d'. deassertCS bus d = Some d' \<and> quiet d'"
  using quiet_send [of "reg_or bus SIO_OUT_SET 0x200 d" "[0xFF]"] quiet_select [of d]
  by (auto simp: deassertCS_def split: bind_splits)

lemma SDInit_mute:
  assumes "quiet d"
  shows "\<exists>d'. SDInit bus d = Some (False, d') \<and> quiet d'"
proof -
  obtain d1 where d1: "usleep bus 10000 d = Some (0, d1)" "(enabled d1, rx d1, card d1) = (enabled d, rx d, card d)"
    using usleep_returns [of 10000 d] by auto
  have "quiet d1" using assms d1(2) by (simp add: quiet_def port_ready_def)
  then obtain d2 where d2: "send_bytes bus (replicate 10 0xFF) (reg_or bus SIO_OUT_SET 0x200 d1) = Some d2" "quiet d2"
    using quiet_select quiet_send by blast
  obtain d3 where d3: "SDSendCommand bus 0x40 0 0x95 d2 = Some d3" "quiet d3" "rx d3 \<noteq> []"
    using quiet_command [OF d2(2)] by blast
  obtain d4 where d4: "poll_loop bus 254 d3 = Some (0xFF, 0, d4)" "quiet d4" using quiet_poll [OF d3(2,3)] by blast
  obtain d5 where "deassertCS bus d4 = Some d5" "quiet d5" using quiet_deassert [OF d4(2)] by blast
  then show ?thesis using d1(1) d2(1) d3(1) d4(1) by (simp add: SDInit_def SDInit_start_def read_r1_response_def)
qed

end

section \<open>The phases of a card\<close>

datatype sd_phase = Fresh | Idling | AppCmd | Ready | Busy

definition r1_answer :: "nat \<Rightarrow> u8 \<Rightarrow> u8 list \<Rightarrow> u8 list" where
  "r1_answer n r data = replicate (Suc n) 0xFF @ r # data"

locale sd_startup = sd_card bus enabled rx card step select deselect idle contents +
  timer bus clk latched period "\<lambda>d. (enabled d, rx d, card d)" work
  for bus :: "'d bus" and enabled :: "'d \<Rightarrow> bool" and rx :: "'d \<Rightarrow> u8 list" and card :: "'d \<Rightarrow> 'c"
    and step :: "'c \<Rightarrow> u8 \<Rightarrow> u8 \<times> 'c" and select :: "'c \<Rightarrow> 'c" and deselect :: "'c \<Rightarrow> 'c"
    and idle :: "'c \<Rightarrow> bool" and contents :: "'c \<Rightarrow> disk"
    and clk :: "'d \<Rightarrow> nat" and latched :: "'d \<Rightarrow> u32" and period :: nat and work :: "'d \<Rightarrow> nat" +
  fixes phase :: "'c \<Rightarrow> sd_phase"
    and tries :: "'c \<Rightarrow> nat"
  assumes ready_idle: "phase c = Ready \<Longrightarrow> idle c"
    and dummy: "\<lbrakk>phase c \<noteq> Busy; step c 0xFF = (r, c')\<rbrakk> \<Longrightarrow>
      r = 0xFF \<and> phase c' = phase c \<and> contents c' = contents c \<and> tries c' = tries c"
    and released: "phase c \<noteq> Busy \<Longrightarrow>
      phase (deselect c) = phase c \<and> contents (deselect c) = contents c \<and> tries (deselect c) = tries c"
    and asserted: "phase c \<noteq> Busy \<Longrightarrow>
      phase (select c) = phase c \<and> contents (select c) = contents c \<and> tries (select c) = tries c"
    and cmd0: "phase c \<noteq> Busy \<Longrightarrow> \<exists>n \<le> 8. answers step (select c) 0x40 0 0x95 (r1_answer n 0x01 [])
      (\<lambda>c'. phase c' = Idling \<and> contents c' = contents c \<and> tries c' = tries c)"
    and cmd8: "phase c = Idling \<Longrightarrow> \<exists>n \<le> 8. \<exists>x y. answers step (select c) 0x48 0x1AA 0x87
      (r1_answer n 0x01 [x, y, 0x01, 0xAA])
      (\<lambda>c'. phase c' = Idling \<and> contents c' = contents c \<and> tries c' = tries c)"
    and cmd55: "phase c = Idling \<Longrightarrow> \<exists>n \<le> 8. answers step (select c) 0x77 0 0x65 (r1_answer n 0x01 [])
      (\<lambda>c'. phase c' = AppCmd \<and> contents c' = contents c \<and> tries c' = tries c)"
    and acmd41: "phase c = AppCmd \<Longrightarrow> \<exists>n \<le> 8. answers step (select c) 0x69 0x40000000 0x77
      (r1_answer n (if tries c = 0 then 0x00 else 0x01) [])
      (\<lambda>c'. phase c' = (if tries c = 0 then Ready else Idling) \<and> contents c' = contents c \<and> tries c' = tries c - 1)"
    and cmd58: "phase c = Ready \<Longrightarrow> \<exists>n \<le> 8. \<exists>o0 o1 o2 o3. bit o0 6 \<and> answers step (select c) 0x7A 0 0x01
      (r1_answer n 0x00 [o0, o1, o2, o3])
      (\<lambda>c'. phase c' = Ready \<and> contents c' = contents c)"
    and speed: "enabled d \<Longrightarrow> bus_write bus SPI0_CPSR v d = d' \<Longrightarrow> enabled d' \<and> rx d' = rx d \<and> card d' = card d"
begin

text \<open>A port between two commands, with a card in a given phase.\<close>

definition in_phase :: "sd_phase \<Rightarrow> nat \<Rightarrow> disk \<Rightarrow> 'd \<Rightarrow> bool" where
  "in_phase p k dk d \<longleftrightarrow> port_ready enabled rx card (\<lambda>c. phase c = p \<and> tries c = k \<and> contents c = dk) d"

text \<open>A command, its response and the data after it.\<close>

lemma command_response:
  assumes "in_phase p k dk d" "n \<le> 8" "answers step (select (card d)) cmd a crc (r1_answer n r data) P" "r \<noteq> 0xFF"
  shows "\<exists>d1 d2 d3 l c. SDSendCommand bus cmd a crc d = Some d1 \<and> read_r1_response bus 0xFF d1 = Some (r, d2) \<and>
    read_bytes bus (length data) d2 = Some (data, d3) \<and> feeds d3 (replicate l 0xFF) c 0 \<and> P c"
proof -
  have d: "enabled d" "length (rx d) \<le> 8" "set (rx d) \<subseteq> {0xFF}" using assms(1) by (simp_all add: in_phase_def port_ready_def)
  have "answers step (select (card d)) cmd a crc (0xFF # (replicate n 0xFF @ r # data)) P"
    using assms(3) by (simp add: r1_answer_def)
  from command_feeds [OF d this] obtain l c d1 where d1: "l \<le> 8" "SDSendCommand bus cmd a crc d = Some d1"
    "feeds d1 (replicate l 0xFF @ (replicate n 0xFF @ r # data) @ replicate l 0xFF) c (length (replicate n 0xFF @ r # data) + l)" "P c" .
  have "length (replicate n 0xFF @ r # data) + l = Suc (l + n) + length data" by simp
  from r1_feeds [OF d1(3) refl this assms(4) d1(1) assms(2)]
  obtain d2 where d2: "read_r1_response bus 0xFF d1 = Some (r, d2)" "feeds d2 (data @ replicate l 0xFF) c (length data + 0)" by auto
  obtain d3 where "read_bytes bus (length data) d2 = Some (data, d3)" "feeds d3 (replicate l 0xFF) c 0"
    using feeds_bytes [OF d2(2)] by blast
  then show ?thesis using d1(2,4) d2(1) by blast
qed

lemma feeds_in_phase:
  assumes "feeds d (replicate l 0xFF) c 0" "phase c = p" "tries c = k" "contents c = dk"
  shows "in_phase p k dk d"
proof -
  have "rx d = replicate l 0xFF" "card d = c" using assms(1) by (simp_all add: feeds_def)
  then show ?thesis using assms by (simp add: feeds_def in_phase_def port_ready_def set_replicate_conv_if)
qed

lemma dummies_in_phase:
  assumes "in_phase p k dk d" "p \<noteq> Busy"
  shows "\<exists>d'. send_bytes bus (replicate n 0xFF) d = Some d' \<and> in_phase p k dk d'"
  using assms(1)
proof (induction n arbitrary: d)
  case (Suc n)
  have d: "enabled d" "length (rx d) \<le> 8" "set (rx d) \<subseteq> {0xFF}" "phase (card d) = p" "tries (card d) = k" "contents (card d) = dk"
    using Suc.prems by (simp_all add: in_phase_def port_ready_def)
  obtain r c' where st: "step (card d) 0xFF = (r, c')" by fastforce
  obtain d1 where d1: "spi_send_byte bus 0xFF d = Some d1" "enabled d1" "card d1 = c'" "rx d1 = take 8 (rx d @ [r])"
    using send_byte [OF d(1,2), of "0xFF"] st by auto
  note dm = dummy [OF _ st]
  have "set (rx d1) \<subseteq> {0xFF}"
    using d(3,4) dm assms(2) unfolding d1(4) by (rule_tac order_trans [OF set_take_subset]) auto
  then have "in_phase p k dk d1" using d d1 dm assms(2) by (simp add: in_phase_def port_ready_def)
  then show ?case using Suc.IH d1(1) by auto
qed simp

lemma deassert_in_phase:
  assumes "in_phase p k dk d" "p \<noteq> Busy"
  shows "\<exists>d'. deassertCS bus d = Some d' \<and> in_phase p k dk d'"
proof -
  have "in_phase p k dk (reg_or bus SIO_OUT_SET 0x200 d)"
    using assms deselect_card [of d] released [of "card d"] by (auto simp: in_phase_def port_ready_def)
  then show ?thesis using dummies_in_phase [OF _ assms(2), of k dk _ 1] by (auto simp: deassertCS_def split: bind_splits)
qed

lemma usleep_in_phase:
  assumes "in_phase p k dk d" shows "\<exists>d'. usleep bus us d = Some (0, d') \<and> in_phase p k dk d'"
  using usleep_returns [of us d] assms by (auto simp: in_phase_def port_ready_def)

text \<open>A command without data, after which the line is released.\<close>

lemma short_command:
  assumes "in_phase p k dk d" "n \<le> 8" "r \<noteq> 0xFF" "p' \<noteq> Busy"
    "answers step (select (card d)) cmd a crc (r1_answer n r [])
      (\<lambda>c'. phase c' = p' \<and> contents c' = contents (card d) \<and> tries c' = k')"
  shows "\<exists>d1 d2 d3. SDSendCommand bus cmd a crc d = Some d1 \<and> read_r1_response bus 0xFF d1 = Some (r, d2) \<and>
    in_phase p' k' dk d2 \<and> deassertCS bus d2 = Some d3 \<and> in_phase p' k' dk d3"
proof -
  obtain d1 d2 d3 l c where d1: "SDSendCommand bus cmd a crc d = Some d1" "read_r1_response bus 0xFF d1 = Some (r, d2)"
    "read_bytes bus (length ([] :: u8 list)) d2 = Some ([], d3)" "feeds d3 (replicate l 0xFF) c 0"
    "phase c = p' \<and> contents c = contents (card d) \<and> tries c = k'"
    using command_response [OF assms(1,2,5,3)] by blast
  have "contents (card d) = dk" using assms(1) by (simp add: in_phase_def port_ready_def)
  then have "in_phase p' k' dk d2" using feeds_in_phase [OF d1(4)] d1(3,5) by simp
  moreover from this obtain d4 where "deassertCS bus d2 = Some d4" "in_phase p' k' dk d4"
    using deassert_in_phase assms(4) by blast
  ultimately show ?thesis using d1(1,2) by blast
qed

text \<open>One round of the start loop, and the loop.\<close>

lemma acmd41_loop_spec:
  assumes "in_phase Idling k dk d"
  shows "\<exists>d' r. acmd41_loop bus n d = Some (Inr r, d') \<and>
    (if k < n then r = n - k \<and> in_phase Ready 0 dk d' else r = 0)"
  using assms
proof (induction n arbitrary: k d)
  case (Suc n)
  have c: "phase (card d) = Idling" "tries (card d) = k" using Suc.prems by (simp_all add: in_phase_def port_ready_def)
  obtain n1 where n1: "n1 \<le> 8" "answers step (select (card d)) 0x77 0 0x65 (r1_answer n1 0x01 [])
      (\<lambda>c'. phase c' = AppCmd \<and> contents c' = contents (card d) \<and> tries c' = k)" using cmd55 [OF c(1)] c(2) by auto
  obtain d1 d2 d3 where a: "SDSendCommand bus 0x77 0 0x65 d = Some d1" "read_r1_response bus 0xFF d1 = Some (0x01, d2)"
    "deassertCS bus d2 = Some d3" "in_phase AppCmd k dk d3"
    using short_command [OF Suc.prems n1(1) _ _ n1(2)] by auto
  have c3: "phase (card d3) = AppCmd" "tries (card d3) = k" using a(4) by (simp_all add: in_phase_def port_ready_def)
  let ?r = "if k = 0 then 0x00 else 0x01 :: u8" and ?p = "if k = 0 then Ready else Idling"
  obtain n2 where n2: "n2 \<le> 8" "answers step (select (card d3)) 0x69 0x40000000 0x77 (r1_answer n2 ?r [])
      (\<lambda>c'. phase c' = ?p \<and> contents c' = contents (card d3) \<and> tries c' = k - 1)" using acmd41 [OF c3(1)] c3(2) by auto
  have ne: "?r \<noteq> 0xFF" "?p \<noteq> Busy" by simp_all
  obtain d4 d5 d6 where b: "SDSendCommand bus 0x69 0x40000000 0x77 d3 = Some d4"
    "read_r1_response bus 0xFF d4 = Some (?r, d5)" "deassertCS bus d5 = Some d6" "in_phase ?p (k - 1) dk d6"
    using short_command [OF a(4) n2(1) ne n2(2)] by blast
  show ?case
  proof (cases "k = 0")
    case True
    then have "acmd41_loop bus (Suc n) d = Some (Inr (Suc n), d6)" using a b by simp
    then show ?thesis using True b(4) by simp
  next
    case False
    then have b4: "in_phase Idling (k - 1) dk d6" using b(4) by simp
    obtain d7 where d7: "usleep bus 1000 d6 = Some (0, d7)" "in_phase Idling (k - 1) dk d7"
      using usleep_in_phase [OF b4] by blast
    have again: "acmd41_loop bus (Suc n) d = acmd41_loop bus n d7" using a b d7(1) False by simp
    obtain d' r where ih: "acmd41_loop bus n d7 = Some (Inr r, d')"
      "if k - 1 < n then r = n - (k - 1) \<and> in_phase Ready 0 dk d' else r = 0" using Suc.IH [OF d7(2)] by blast
    have "k - 1 < n \<longleftrightarrow> k < Suc n" "n - (k - 1) = Suc n - k" using False by auto
    then show ?thesis unfolding again using ih by (intro exI [of _ d'] exI [of _ r]) simp
  qed
qed simp

lemma SDInit_cmd8_spec:
  assumes "in_phase Idling k dk d"
  shows "\<exists>d'. SDInit_cmd8 bus d = Some (True, d') \<and> in_phase Idling k dk d'"
proof -
  have c: "phase (card d) = Idling" "tries (card d) = k" "contents (card d) = dk"
    using assms by (simp_all add: in_phase_def port_ready_def)
  obtain n x y where n: "n \<le> 8" "answers step (select (card d)) 0x48 0x1AA 0x87 (r1_answer n 0x01 [x, y, 0x01, 0xAA])
      (\<lambda>c'. phase c' = Idling \<and> contents c' = contents (card d) \<and> tries c' = k)" using cmd8 [OF c(1)] c(2) by auto
  obtain d1 d2 d3 l c' where d1: "SDSendCommand bus 0x48 0x1AA 0x87 d = Some d1"
    "read_r1_response bus 0xFF d1 = Some (0x01, d2)"
    "read_bytes bus (length [x, y, 0x01, 0xAA]) d2 = Some ([x, y, 0x01, 0xAA], d3)" "feeds d3 (replicate l 0xFF) c' 0"
    "phase c' = Idling \<and> contents c' = contents (card d) \<and> tries c' = k"
    using command_response [OF assms n] by (auto simp del: read_bytes.simps)
  have "in_phase Idling k dk d3" using feeds_in_phase [OF d1(4)] d1(5) c(3) by simp
  then obtain d4 where d4: "deassertCS bus d3 = Some d4" "in_phase Idling k dk d4" using deassert_in_phase by blast
  have "read_bytes bus 4 d2 = Some ([x, y, 0x01, 0xAA], d3)" using d1(3) by (simp add: numeral_eq_Suc del: read_bytes.simps)
  then show ?thesis using d1(1,2) d4 by (simp add: SDInit_cmd8_def del: read_bytes.simps)
qed

lemma SDInit_ocr_spec:
  assumes "in_phase Ready 0 dk d"
  shows "\<exists>d'. SDInit_ocr bus d = Some (True, d') \<and> card_ready d' \<and> card_disk d' = dk"
proof -
  have c: "phase (card d) = Ready" "contents (card d) = dk" using assms by (simp_all add: in_phase_def port_ready_def)
  obtain n o0 o1 o2 o3 where n: "n \<le> 8" "bit o0 6" "answers step (select (card d)) 0x7A 0 0x01
      (r1_answer n 0x00 [o0, o1, o2, o3]) (\<lambda>c'. phase c' = Ready \<and> contents c' = contents (card d))"
    using cmd58 [OF c(1)] by auto
  obtain d1 d2 d3 l c' where d1: "SDSendCommand bus 0x7A 0 0x01 d = Some d1"
    "read_r1_response bus 0xFF d1 = Some (0x00, d2)"
    "read_bytes bus (length [o0, o1, o2, o3]) d2 = Some ([o0, o1, o2, o3], d3)" "feeds d3 (replicate l 0xFF) c' 0"
    "phase c' = Ready \<and> contents c' = contents (card d)"
    using command_response [OF assms n(1,3)] by (auto simp del: read_bytes.simps)
  have d3: "in_phase Ready (tries c') dk d3" using feeds_in_phase [OF d1(4)] d1(5) c(2) by simp
  let ?d = "bus_write bus SPI0_CPSR (ucast (8 :: u8)) d3"
  have "enabled ?d \<and> rx ?d = rx d3 \<and> card ?d = card d3" using speed [OF _ refl] d3 by (simp add: in_phase_def port_ready_def)
  then have "card_ready ?d" "card_disk ?d = dk" using d3 ready_idle by (auto simp: in_phase_def port_ready_def)
  moreover have "o0 AND 0x40 \<noteq> 0" using n(2) and_exp_eq_0_iff_not_bit [of o0 6] by simp
  moreover have "read_bytes bus 4 d2 = Some ([o0, o1, o2, o3], d3)" using d1(3) by (simp add: numeral_eq_Suc del: read_bytes.simps)
  ultimately show ?thesis using d1(1,2) by (simp add: SDInit_ocr_def spi_set_speed_def del: read_bytes.simps)
qed

lemma SDInit_spec:
  assumes "in_phase Fresh k dk d"
  shows "\<exists>d'. SDInit bus d = Some (k < 5000, d') \<and> (k < 5000 \<longrightarrow> card_ready d' \<and> card_disk d' = dk)"
proof -
  obtain d1 where d1: "usleep bus 10000 d = Some (0, d1)" "in_phase Fresh k dk d1" using usleep_in_phase [OF assms] by blast
  have "in_phase Fresh k dk (reg_or bus SIO_OUT_SET 0x200 d1)"
    using d1(2) deselect_card [of d1] released [of "card d1"] by (auto simp: in_phase_def port_ready_def)
  then obtain d2 where d2: "send_bytes bus (replicate 10 0xFF) (reg_or bus SIO_OUT_SET 0x200 d1) = Some d2"
    "in_phase Fresh k dk d2" using dummies_in_phase by blast
  have c2: "phase (card d2) \<noteq> Busy" "tries (card d2) = k" using d2(2) by (simp_all add: in_phase_def port_ready_def)
  obtain n where n: "n \<le> 8" "answers step (select (card d2)) 0x40 0 0x95 (r1_answer n 0x01 [])
      (\<lambda>c'. phase c' = Idling \<and> contents c' = contents (card d2) \<and> tries c' = k)" using cmd0 [OF c2(1)] c2(2) by auto
  obtain d3 d4 where d3: "SDSendCommand bus 0x40 0 0x95 d2 = Some d3" "read_r1_response bus 0xFF d3 = Some (0x01, d4)"
    "in_phase Idling k dk d4" using short_command [OF d2(2) n(1) _ _ n(2)] by auto
  obtain d5 where d5: "SDInit_cmd8 bus d4 = Some (True, d5)" "in_phase Idling k dk d5"
    using SDInit_cmd8_spec [OF d3(3)] by blast
  obtain d6 r where d6: "acmd41_loop bus 5000 d5 = Some (Inr r, d6)"
    "if k < 5000 then r = 5000 - k \<and> in_phase Ready 0 dk d6 else r = 0" using acmd41_loop_spec [OF d5(2)] by blast
  have run: "SDInit bus d = (if r = 0 then Some (False, d6) else SDInit_ocr bus d6)"
    using d1(1) d2(1) d3(1,2) d5(1) d6(1) by (simp add: SDInit_def SDInit_start_def)
  show ?thesis
  proof (cases "k < 5000")
    case True
    then show ?thesis using run d6(2) SDInit_ocr_spec [of dk d6] by auto
  next
    case False
    then show ?thesis using run d6(2) by auto
  qed
qed

lemma SDShutdown_spec:
  assumes "in_phase Ready k dk d"
  shows "\<exists>d'. SDShutdown bus d = Some (True, d') \<and> in_phase Idling k dk d'"
proof -
  have c: "phase (card d) \<noteq> Busy" "tries (card d) = k" using assms by (simp_all add: in_phase_def port_ready_def)
  obtain n where n: "n \<le> 8" "answers step (select (card d)) 0x40 0 0x95 (r1_answer n 0x01 [])
      (\<lambda>c'. phase c' = Idling \<and> contents c' = contents (card d) \<and> tries c' = k)" using cmd0 [OF c(1)] c(2) by auto
  show ?thesis
    using short_command [OF assms n(1) _ _ n(2)] by (auto simp: SDShutdown_def)
qed

end

end
