(* ===== verification/Sd_Example.thy ===== *)
theory Sd_Example
  imports Sd_Init Fat_Example
begin

unbundle bit_operations_syntax

text \<open>
  A serial port with a card, small enough to compute with.  The card collects the six bytes of a
  command while it is selected and then plays its answer; it knows the commands of the driver.  The
  interpretations show that the contracts of \<open>Sd_Read\<close> and \<open>Sd_Init\<close> can be met.
\<close>

section \<open>The card\<close>

record sim_card =
  inserted :: bool
  selected :: bool
  collected :: "u8 list"
  playing :: "u8 list"
  awaiting :: bool
  absorbing :: nat
  stored :: disk
  started :: sd_phase
  countdown :: nat

definition be32 :: "u8 \<Rightarrow> u8 \<Rightarrow> u8 \<Rightarrow> u8 \<Rightarrow> u32" where
  "be32 a b c e = push_bit 24 (ucast a) OR push_bit 16 (ucast b) OR push_bit 8 (ucast c) OR ucast e"

lemma be32_bytes:
  "be32 (ucast (drop_bit 24 w)) (ucast (drop_bit 16 w)) (ucast (drop_bit 8 w)) (ucast w) = w"
proof (rule bit_word_eqI)
  fix n assume "n < LENGTH(32)"
  then consider "n < 8" | "8 \<le> n" "n < 16" | "16 \<le> n" "n < 24" | "24 \<le> n" "n < 32" by fastforce
  then show "bit (be32 (ucast (drop_bit 24 w)) (ucast (drop_bit 16 w)) (ucast (drop_bit 8 w)) (ucast w)) n
      \<longleftrightarrow> bit w n"
    by cases (auto simp: be32_def bit_simps)
qed

text \<open>Only blocks of 512 bytes can be read.\<close>

definition sim_contents :: "sim_card \<Rightarrow> disk" where
  "sim_contents c a = (case stored c a of Some bs \<Rightarrow> if length bs = 512 then Some bs else None | None \<Rightarrow> None)"

fun sim_answer :: "sim_card \<Rightarrow> u8 list \<Rightarrow> u8 list" where
  "sim_answer c [cmd, a3, a2, a1, a0, crc] =
     (if cmd = 0x51 then
        (case sim_contents c (be32 a3 a2 a1 a0) of
           Some bs \<Rightarrow> [0xFF, 0x00, 0xFF, 0xFE] @ bs @ [0x12, 0x34]
         | None \<Rightarrow> [0xFF, 0x20])
      else if cmd = 0x58 then [0xFF, 0x00]
      else if cmd = 0x40 \<or> cmd = 0x77 then [0xFF, 0x01]
      else if cmd = 0x48 then [0xFF, 0x01, 0x00, 0x00, 0x01, 0xAA]
      else if cmd = 0x69 then [0xFF, if countdown c = 0 then 0x00 else 0x01]
      else if cmd = 0x7A then [0xFF, 0x00, 0xC0, 0xFF, 0x80, 0x00]
      else [0xFF, 0x04])"
| "sim_answer c _ = []"

definition sim_next :: "sim_card \<Rightarrow> u8 \<Rightarrow> sim_card" where
  "sim_next c cmd =
     (if cmd = 0x40 then c\<lparr>started := Idling\<rparr>
      else if cmd = 0x77 then c\<lparr>started := AppCmd\<rparr>
      else if cmd = 0x69 then
        c\<lparr>started := (if countdown c = 0 then Ready else Idling), countdown := countdown c - 1\<rparr>
      else c)"

definition sim_step :: "sim_card \<Rightarrow> u8 \<Rightarrow> u8 \<times> sim_card" where
  "sim_step c b =
     (if \<not> (inserted c \<and> selected c) then (0xFF, c)
      else case playing c of
        r # rs \<Rightarrow> (r, c\<lparr>playing := rs\<rparr>)
      | [] \<Rightarrow>
          if absorbing c = 1 then (0xFF, c\<lparr>absorbing := 0, playing := [0xFF, 0xE5]\<rparr>)
          else if 0 < absorbing c then (0xFF, c\<lparr>absorbing := absorbing c - 1\<rparr>)
          else if awaiting c then
            (0xFF, if b = 0xFE then c\<lparr>awaiting := False, absorbing := 514\<rparr> else c)
          else if collected c = [] \<and> b = 0xFF then (0xFF, c)
          else if length (collected c) < 5 then (0xFF, c\<lparr>collected := collected c @ [b]\<rparr>)
          else (0xFF, (sim_next c (collected c ! 0))\<lparr>collected := [], playing := sim_answer c (collected c @ [b]),
            awaiting := collected c ! 0 = 0x58\<rparr>))"

definition sim_select :: "sim_card \<Rightarrow> sim_card" where
  "sim_select c = c\<lparr>selected := True\<rparr>"

definition sim_deselect :: "sim_card \<Rightarrow> sim_card" where
  "sim_deselect c = c\<lparr>selected := False\<rparr>"

definition sim_idle :: "sim_card \<Rightarrow> bool" where
  "sim_idle c \<longleftrightarrow> inserted c \<and> collected c = [] \<and> playing c = [] \<and> \<not> awaiting c \<and> absorbing c = 0"

section \<open>The port\<close>

record sim_port =
  sp_on :: bool
  sp_rx :: "u8 list"
  sp_card :: sim_card

definition sim_read :: "u32 \<Rightarrow> sim_port \<Rightarrow> u32 \<times> sim_port" where
  "sim_read reg d =
     (if reg = SPI0_SR then (if sp_rx d = [] then 2 else 6, d)
      else if reg = SPI0_DR then
        (case sp_rx d of [] \<Rightarrow> (0, d) | b # bs \<Rightarrow> (ucast b, d\<lparr>sp_rx := bs\<rparr>))
      else (0, d))"

definition sim_write :: "u32 \<Rightarrow> u32 \<Rightarrow> sim_port \<Rightarrow> sim_port" where
  "sim_write reg v d =
     (if reg = SPI0_DR \<and> sp_on d then
        (let (r, c) = sim_step (sp_card d) (ucast v)
         in d\<lparr>sp_card := c, sp_rx := if length (sp_rx d) < 8 then sp_rx d @ [r] else sp_rx d\<rparr>)
      else if reg = SPI0_CR1 then d\<lparr>sp_on := bit v 1\<rparr>
      else if reg = SIO_OUT_CLR \<and> bit v 9 then d\<lparr>sp_card := sim_select (sp_card d)\<rparr>
      else if reg = SIO_OUT_SET \<and> bit v 9 then d\<lparr>sp_card := sim_deselect (sp_card d)\<rparr>
      else d)"

definition sim_bus :: "sim_port bus" where
  "sim_bus = \<lparr>bus_read = sim_read, bus_write = sim_write\<rparr>"

lemmas spi_regs = SPI0_CR0_def SPI0_CR1_def SPI0_DR_def SPI0_SR_def SPI0_CPSR_def
  SIO_OUT_SET_def SIO_OUT_CLR_def SIO_OE_SET_def

interpretation simport: spi_port sim_bus sp_on sp_rx sp_card sim_step sim_select sim_deselect
  by unfold_locales
    (auto simp: sim_bus_def sim_read_def sim_write_def spi_regs ucast_ucast_u8 split: if_splits prod.splits)

section \<open>The contract of the card\<close>

text \<open>While the card plays, it answers dummy bytes with what it plays, then with filler.\<close>

lemma run_playing:
  "inserted c \<Longrightarrow> selected c \<Longrightarrow> collected c = [] \<Longrightarrow> \<not> awaiting c \<Longrightarrow> absorbing c = 0 \<Longrightarrow>
     run sim_step c (replicate (length (playing c) + m) 0xFF) =
       (playing c @ replicate m 0xFF, c\<lparr>playing := []\<rparr>)"
proof (induction "playing c" arbitrary: c)
  case Nil
  then have "run sim_step c (replicate m 0xFF) = (replicate m 0xFF, c)"
    by (induction m) (auto simp: sim_step_def)
  with Nil show ?case by simp
next
  case (Cons r rs)
  then have "sim_step c 0xFF = (r, c\<lparr>playing := rs\<rparr>)" by (auto simp: sim_step_def split: list.split)
  moreover have "playing c = r # rs" using Cons by simp
  ultimately show ?case using Cons(1) [of "c\<lparr>playing := rs\<rparr>"] Cons(3-7) by simp
qed

lemma replicate_6: "replicate 6 x = [x, x, x, x, x, x]"
  by (simp add: numeral_eq_Suc)

lemma run_cmd:
  assumes "sim_idle c" "selected c" "cmd \<noteq> 0xFF"
  shows "run sim_step c (sd_cmd cmd a crc) = (replicate 6 0xFF,
    (sim_next c cmd)\<lparr>collected := [], playing := sim_answer c (sd_cmd cmd a crc), awaiting := cmd = 0x58\<rparr>)"
proof -
  have "sim_answer (c\<lparr>collected := xs\<rparr>) bs = sim_answer c bs" for xs bs
    by (cases "(c, bs)" rule: sim_answer.cases) (simp_all add: sim_contents_def)
  then show ?thesis
    using assms by (simp add: sd_cmd_def sim_step_def sim_idle_def replicate_6 sim_next_def del: sim_answer.simps)
qed

text \<open>The whole answer, for a command without a data block from the host.\<close>

lemma sim_answers:
  assumes "sim_idle c" "cmd \<noteq> 0xFF" "cmd \<noteq> 0x58" "P ((sim_next (sim_select c) cmd)\<lparr>playing := []\<rparr>)"
  shows "answers sim_step (sim_select c) cmd a crc (sim_answer (sim_select c) (sd_cmd cmd a crc)) P"
proof -
  let ?c = "sim_select c"
  have c: "sim_idle ?c" "selected ?c" "inserted ?c" "collected ?c = []" "\<not> awaiting ?c" "absorbing ?c = 0"
    using assms(1) by (simp_all add: sim_select_def sim_idle_def)
  have n: "inserted (sim_next ?c cmd)" "selected (sim_next ?c cmd)" "collected (sim_next ?c cmd) = []" "\<not> awaiting (sim_next ?c cmd)"
    "absorbing (sim_next ?c cmd) = 0" using c by (simp_all add: sim_next_def)
  let ?n = "(sim_next ?c cmd)\<lparr>collected := [], playing := sim_answer ?c (sd_cmd cmd a crc), awaiting := False\<rparr>"
  have p: "run sim_step ?n (replicate (length (playing ?n) + m) 0xFF) = (playing ?n @ replicate m 0xFF, ?n\<lparr>playing := []\<rparr>)" for m
    by (rule run_playing) (use n in simp_all)
  have "?n\<lparr>playing := []\<rparr> = (sim_next ?c cmd)\<lparr>playing := []\<rparr>" using n by (cases "sim_next ?c cmd") simp
  then show ?thesis
    using run_cmd [OF c(1,2) assms(2), of a crc] p assms(3,4)
    unfolding answers_def run_append by (simp add: Let_def del: sim_answer.simps)
qed

lemma sim_answer_ok:
  "block_answer (sim_contents c a) (sim_answer c (sd_cmd 0x51 a 0x01))"
proof (cases "sim_contents c a")
  case None
  have "[0xFF, 0x20] = replicate (Suc 0) 0xFF @ [0x20 :: u8]" by simp
  then show ?thesis using None by (auto simp: sd_cmd_def be32_bytes intro!: exI [of _ 0])
next
  case (Some bs)
  then have "length bs = 512" by (auto simp: sim_contents_def split: option.splits if_splits)
  moreover have "[0xFF, 0x00, 0xFF, 0xFE] @ bs @ [0x12, 0x34] =
      replicate (Suc 0) 0xFF @ 0x00 # replicate 1 0xFF @ 0xFE # bs @ [0x12, 0x34 :: u8]" by simp
  ultimately show ?thesis
    unfolding Some block_answer.simps
    by (intro conjI exI [of _ "0 :: nat"] exI [of _ "1 :: nat"] exI [of _ "0x12"] exI [of _ "0x34"])
      (auto simp: sd_cmd_def be32_bytes Some)
qed

interpretation simcard: sd_card sim_bus sp_on sp_rx sp_card sim_step sim_select sim_deselect
  sim_idle sim_contents
proof unfold_locales
  show "r = 0xFF \<and> sim_idle c' \<and> sim_contents c' = sim_contents c"
    if "sim_idle c" "sim_step c 0xFF = (r, c')" for c r c'
    using that by (auto simp: sim_idle_def sim_step_def split: if_splits)
  show "\<exists>as. block_answer (sim_contents c a) as \<and> answers sim_step (sim_select c) 0x51 a 0x01 as
      (\<lambda>c'. sim_idle (sim_deselect c') \<and> sim_contents (sim_deselect c') = sim_contents c)"
    if "sim_idle c" for c a
  proof (intro exI conjI)
    show "block_answer (sim_contents c a) (sim_answer (sim_select c) (sd_cmd 0x51 a 0x01))"
      using sim_answer_ok [of "sim_select c" a] by (simp add: sim_contents_def sim_select_def)
    show "answers sim_step (sim_select c) 0x51 a 0x01 (sim_answer (sim_select c) (sd_cmd 0x51 a 0x01))
      (\<lambda>c'. sim_idle (sim_deselect c') \<and> sim_contents (sim_deselect c') = sim_contents c)"
      by (rule sim_answers) (use that in \<open>auto simp: sim_next_def sim_select_def sim_deselect_def sim_idle_def
        sim_contents_def fun_eq_iff\<close>)
  qed
qed

end
