(* ===== verification/Sd_Props.thy ===== *)
theory Sd_Props
  imports Sd_Example Fat_Props
begin

unbundle bit_operations_syntax

text \<open>
  The properties of the card driver: block reads return the content of the card or report its
  error, the FAT driver works on top of them, and block writes never return.
\<close>

section \<open>Reading\<close>

text \<open>C8. On a port and a card that keep their contracts, between two commands, \<open>sdReadBlock\<close>
  returns: the 512 bytes of the addressed block, or the error if the card answers the command
  with an error response or an error token.  The card keeps its content and is ready for the
  next command.\<close>

theorem sd_read_block_refines:
  assumes "sd_card bus enabled rx crd step select deselect idle contents" "port_ready enabled rx crd idle d"
  shows "\<exists>d'. sdReadBlock bus block_address d = Some (contents (crd d) block_address, d') \<and>
    port_ready enabled rx crd idle d' \<and> contents (crd d') = contents (crd d)"
  using sd_card.sdReadBlock_spec [OF assms] by blast

definition port1 :: sim_port where
  "port1 = \<lparr>sp_on = True, sp_rx = [0xFF, 0xFF],
     sp_card = \<lparr>inserted = True, selected = False, collected = [], playing = [], awaiting = False, absorbing = 0, stored = disk1,
       started = Ready, countdown = 0\<rparr>\<rparr>"

lemma port1_ready: "port_ready sp_on sp_rx sp_card sim_idle port1"
  by (simp add: port1_def port_ready_def sim_idle_def)

lemma port1_contents: "sim_contents (sp_card port1) = disk1"
  using sectors_disk1 by (auto simp: port1_def sim_contents_def sectors_512_def fun_eq_iff split: option.split)

lemmas sim_sd_card = simcard.sd_card_axioms

theorem sd_read_block_refines_witness:
  "\<exists>d'. sdReadBlock sim_bus 4 port1 = Some (Some (replicate 512 0x41), d') \<and>
     (\<exists>d''. sdReadBlock sim_bus 77 d' = Some (None, d''))"
proof -
  obtain d' where d': "sdReadBlock sim_bus 4 port1 = Some (disk1 4, d')"
    "port_ready sp_on sp_rx sp_card sim_idle d'" "sim_contents (sp_card d') = disk1"
    using sd_read_block_refines [OF simcard.sd_card_axioms port1_ready, of 4] by (auto simp: port1_contents)
  obtain d'' where "sdReadBlock sim_bus 77 d' = Some (disk1 77, d'')"
    using sd_read_block_refines [OF simcard.sd_card_axioms d'(2), of 77] d'(3) by auto
  with d'(1) show ?thesis by (simp add: disk1_def disk_of_def)
qed

text \<open>\<open>sdReadPartialBlock\<close> returns exactly the requested bytes of the block and clocks out
  the rest of it, so that the card is ready for the next command.\<close>

lemma sd_read_partial_refines:
  assumes "sd_card bus enabled rx crd step select deselect idle contents" "port_ready enabled rx crd idle d"
    "unat offset + unat len \<le> 512"
  shows "\<exists>d'. sdReadPartialBlock bus block_number offset len d =
      Some (map_option (\<lambda>bs. take (unat len) (drop (unat offset) bs)) (contents (crd d) block_number), d') \<and>
    port_ready enabled rx crd idle d' \<and> contents (crd d') = contents (crd d)"
  using sd_card.sdReadPartialBlock_spec [OF assms] by blast

lemma sd_read_partial_refines_witness:
  "\<exists>d'. sdReadPartialBlock sim_bus 5 510 2 port1 = Some (Some (replicate 2 0x42), d')"
  using sd_read_partial_refines [OF simcard.sd_card_axioms port1_ready, of 510 2 5]
  by (auto simp: port1_contents disk1_def disk_of_def)

section \<open>The FAT driver on the card\<close>

text \<open>C12. The whole read path, from the registers of the serial port to a file: on a card with a
  volume, \<open>fat32_open\<close> of an existing path and \<open>fat32_read\<close> through the card driver store the
  first bytes of the file in memory.\<close>

theorem read_file_from_card:
  assumes "sd_card bus enabled rx crd step select deselect idle contents"
    "port_ready enabled rx crd idle (sd s)" "vol = g_fat32_volume_info s" "vol_ok vol"
    "dsk = contents (crd (sd s))" "dirs_on_disk vol dsk dirs" "\<forall>n. junk_ok (junk n)"
    "length (filename entry0) = 256" "list_all component_ok ns"
    "resolve dirs (root_dir_cluster vol) ns = Some (File f)"
    "length (open_file_handles s) = 16" "first_free (open_file_handles s) = Some i"
    "fat_chain vol dsk cs" "list_all (readable vol dsk) cs" "hd cs = df_cluster f"
    "unat (df_size f) < 2147483648" "unat (df_size f) \<le> length cs * unat (bytes_per_cluster vol)"
    "buffer \<noteq> 0" "unat n < 2147483648"
  shows "\<exists>fid s1 s2. fat32_open (sd_blockdev bus) junk entry0 file0 (Some (0x2F # path_bytes ns)) md s =
      Some (fid, s1) \<and> fat32_read (sd_blockdev bus) fid buffer n s1 = Some (True, s2) \<and>
    ram s2 = store_bytes (ram s) buffer (take (unat n) (take (unat (df_size f)) (file_bytes vol dsk cs)))"
proof -
  have dev: "block_device (sd_blockdev bus) (port_ready enabled rx crd idle) (\<lambda>d. contents (crd d))"
    using sd_card.sdReadBlock_spec [OF assms(1)] sd_card.sdReadPartialBlock_spec [OF assms(1)]
      sd_card.card_disk_length [OF assms(1)]
    by unfold_locales (auto simp: sd_blockdev_def)
  show ?thesis
    using block_device.open_read_spec [OF dev assms(2), of dirs junk entry0 ns f i cs buffer n file0 md] assms(3-)
    by blast
qed

definition fs_card :: "sim_port fs" where
  "fs_card = \<lparr>g_fat32_volume_info = vol1, open_file_handles = replicate 16 free_handle,
     ram = \<lambda>_. 0, sd = port1\<rparr>"

theorem read_file_from_card_witness:
  "\<exists>fid s1 s2. fat32_open (sd_blockdev sim_bus) (\<lambda>_. junk1) info1 info1
       (Some (0x2F # path_bytes [[0x48, 0x45, 0x4C, 0x4C, 0x4F, 0x2E, 0x54, 0x58, 0x54]])) 0 fs_card =
     Some (fid, s1) \<and> fat32_read (sd_blockdev sim_bus) fid 0x20002000 4 s1 = Some (True, s2) \<and>
     ram s2 = store_bytes (\<lambda>_. 0) 0x20002000 (replicate 4 0x41)"
proof -
  let ?n = "[0x48, 0x45, 0x4C, 0x4C, 0x4F, 0x2E, 0x54, 0x58, 0x54] :: u8 list"
  have rs: "resolve dirs1 (root_dir_cluster vol1) [?n] = Some (File hello)"
    by (simp add: vol1_def dirs1_def hello_fields)
  have ff: "first_free (replicate 16 free_handle) = Some 0"
    by (simp add: first_free_def free_handle_def MAX_OPEN_FILES_def upt_rec)
  have ok: "list_all component_ok [?n]" by (simp add: component_ok_def)
  have bpc: "bytes_per_cluster vol1 = 512" by (simp add: vol1_def)
  show ?thesis
    using read_file_from_card [OF simcard.sd_card_axioms, of fs_card vol1 disk1 dirs1 "\<lambda>_. junk1" info1 "[?n]"
        hello 0 "[3, 4]" "0x20002000" 4 info1 0] port1_ready port1_contents vol1_ok dirs1_on_disk junk1_ok rs ff
      ok bpc chains1(2) readable1(2)
    by (auto simp: fs_card_def info1_def hello_fields file_bytes1)
qed

section \<open>Writing\<close>

text \<open>A card that accepts the write command with response 0, after which it is silent until the
  data and the two check bytes are through.  (Its data response comes with the next byte that is
  clocked.)\<close>

definition accepts_write :: "('c \<Rightarrow> u8 \<Rightarrow> u8 \<times> 'c) \<Rightarrow> 'c \<Rightarrow> u32 \<Rightarrow> u8 list \<Rightarrow> nat \<Rightarrow> bool" where
  "accepts_write step c a data n1 \<longleftrightarrow> n1 \<le> 8 \<and> (\<forall>m.
     fst (run step c (sd_cmd 0x58 a 0x01 @ replicate (n1 + 2 + m) 0xFF @ 0xFE # data @ [0xFF, 0xFF])) =
     replicate (7 + n1) 0xFF @ 0x00 # replicate (m + length data + 3) 0xFF)"

context spi_port
begin

lemma wait_rx_empty:
  assumes "enabled d" "rx d = []"
  shows "wait_set bus SPI0_SR 4 d = None"
  by (rule wait_set_starves [of "\<lambda>d. enabled d \<and> rx d = []"]) (use assms status in \<open>auto\<close>)

lemma response_starves:
  assumes "enabled d" "rx d = replicate k 0xFF" "k < n"
  shows "data_response_loop bus n prev d = None"
  using assms
proof (induction n arbitrary: k d prev)
  case (Suc n)
  show ?case
  proof (cases k)
    case 0
    then have "wait_set bus SPI0_SR 4 d = None" using Suc.prems by (intro wait_rx_empty) auto
    then show ?thesis by (simp add: spi_read_byte_def)
  next
    case (Suc j)
    then have "rx d = 0xFF # replicate j 0xFF" using Suc.prems(2) by simp
    from read_byte [OF Suc.prems(1) this]
    obtain d' where "spi_read_byte bus d = Some (0xFF, d')" "enabled d'" "rx d' = replicate j 0xFF" .
    then show ?thesis using Suc.IH [of d' j] Suc.prems(3) \<open>k = Suc j\<close> by simp
  qed
qed simp

lemma write_accepted:
  assumes "enabled d" "length (rx d) \<le> 8" "set (rx d) \<subseteq> {0xFF}"
    "accepts_write step (select (card d)) a data n1"
  obtains d1 d2 where "SDSendCommand bus 0x58 a 0x01 d = Some d1"
    "read_r1_response bus 0xFF d1 = Some (0, d2)" "enabled d2" "length (rx d2) \<le> 8" "set (rx d2) \<subseteq> {0xFF}"
    "fst (run step (card d2) (0xFE # data @ [0xFF, 0xFF])) = replicate (length data + 3) 0xFF"
proof -
  let ?c = "select (card d)" and ?cmd = "sd_cmd 0x58 a 0x01 @ [0xFF]"
  let ?c' = "snd (run step ?c ?cmd)" and ?w = "0xFE # data @ [0xFF, 0xFF]"
  have n1: "n1 \<le> 8" using assms(4) by (simp add: accepts_write_def)
  have all: "fst (run step ?c (?cmd @ replicate (Suc n1 + m) 0xFF @ ?w)) =
      replicate 7 0xFF @ (replicate n1 0xFF @ 0 # replicate m 0xFF) @ replicate (length data + 3) 0xFF" for m
  proof -
    have "sd_cmd 0x58 a 0x01 @ replicate (n1 + 2 + m) 0xFF @ ?w = ?cmd @ replicate (Suc n1 + m) 0xFF @ ?w"
      by (simp add: numeral_2_eq_2)
    moreover have "replicate (7 + n1) 0xFF @ 0 # replicate (m + length data + 3) (0xFF :: u8) =
        replicate 7 0xFF @ (replicate n1 0xFF @ 0 # replicate m 0xFF) @ replicate (length data + 3) 0xFF"
      by (simp add: replicate_add add.assoc)
    ultimately show ?thesis using assms(4) unfolding accepts_write_def by metis
  qed
  have len: "length (fst (run step ?c ?cmd)) = 7" unfolding length_run by (simp add: sd_cmd_def)
  let ?r = "\<lambda>m. replicate (Suc n1 + m) 0xFF" and ?c'' = "\<lambda>m. snd (run step ?c' (replicate (Suc n1 + m) 0xFF))"
  have parts: "fst (run step ?c ?cmd) @ fst (run step ?c' (?r m)) @ fst (run step (?c'' m) ?w) =
      replicate 7 0xFF @ (replicate n1 0xFF @ 0 # replicate m 0xFF) @ replicate (length data + 3) 0xFF" for m
    using all [of m] unfolding run_append Let_def split_def by (simp del: run.simps)
  then have cmd7: "fst (run step ?c ?cmd) = replicate 7 0xFF"
    and tl: "\<And>m. fst (run step ?c' (?r m)) @ fst (run step (?c'' m) ?w) =
      (replicate n1 0xFF @ 0 # replicate m 0xFF) @ replicate (length data + 3) 0xFF"
    using len by (simp_all add: append_eq_append_conv del: run.simps)
  have answer: "fst (run step ?c' (?r m)) = replicate n1 0xFF @ 0 # replicate m 0xFF"
    and silent: "fst (run step (?c'' m) ?w) = replicate (length data + 3) 0xFF" for m
    using tl [of m] by (subst (asm) append_eq_append_conv; simp del: run.simps)+
  obtain l d1 where d1: "SDSendCommand bus 0x58 a 0x01 d = Some d1" "enabled d1" "0 < l" "l \<le> 8"
    "rx d1 = replicate l 0xFF" "card d1 = ?c'" using send_command [OF assms(1-3) cmd7] .
  have "feeds d1 (replicate (l + n1) 0xFF @ 0 # replicate l 0xFF) (?c'' l) (Suc (l + n1) + 0)"
    unfolding feeds_def using d1 answer [of l] by (simp add: replicate_add add.commute del: run.simps)
  from feeds_poll [OF this, of 254] d1(4) n1
  obtain d2 where d2: "read_r1_response bus 0xFF d1 = Some (0, d2)" "feeds d2 (replicate l 0xFF) (?c'' l) 0"
    by (auto simp: read_r1_response_def)
  have "enabled d2" "rx d2 = replicate l 0xFF" "card d2 = ?c'' l" using d2(2) by (simp_all add: feeds_def)
  then show thesis
    using that [of d1 d2] d1(1,4) d2(1) silent [of l] by (simp add: set_replicate_conv_if del: run.simps)
qed

lemma sdWriteBlock_starves:
  assumes "enabled d" "length (rx d) \<le> 8" "set (rx d) \<subseteq> {0xFF}"
    "accepts_write step (select (card d)) a data n1" "length data = 512"
  shows "sdWriteBlock bus a data d = None"
proof -
  obtain d1 d2 where d2: "SDSendCommand bus 0x58 a 0x01 d = Some d1"
    "read_r1_response bus 0xFF d1 = Some (0, d2)" "enabled d2" "length (rx d2) \<le> 8" "set (rx d2) \<subseteq> {0xFF}"
    "fst (run step (card d2) (0xFE # data @ [0xFF, 0xFF])) = replicate (length data + 3) 0xFF"
    using write_accepted [OF assms(1-4)] .
  obtain d3 where d3: "send_bytes bus (0xFE # data @ [0xFF, 0xFF]) d2 = Some d3" "enabled d3"
    "rx d3 = take 8 (rx d2 @ replicate (length data + 3) 0xFF)"
    using send_all [OF d2(3,4), of "0xFE # data @ [0xFF, 0xFF]"] d2(6) by auto
  have "set (rx d3) \<subseteq> {0xFF}"
    using d2(5) unfolding d3(3) by (rule_tac order_trans [OF set_take_subset]) auto
  moreover have "length (rx d3) \<le> 8" unfolding d3(3) by simp
  ultimately have "data_response_loop bus 1000 0xFF d3 = None"
    using response_starves [OF d3(2) all_FF, of 1000] by simp
  moreover have "(do { d \<leftarrow> spi_send_byte bus 0xFE d2; d \<leftarrow> send_bytes bus data d; send_bytes bus [0xFF, 0xFF] d })
      = Some d3"
    using d3(1) by (simp add: send_bytes_append)
  ultimately show ?thesis
    unfolding sdWriteBlock_def d2(1) using d2(2) assms(5)
    by (auto simp: SD_BLOCK_SIZE_def split: bind_splits)
qed

end

text \<open>C32. \<open>sdWriteBlock\<close> never returns on a card that accepts the write command: it waits for the
  data response without clocking the card, so that after the bytes left in the receive queue
  there is nothing to read, and the read waits forever.\<close>

theorem sd_write_block_hangs:
  assumes "spi_port bus enabled rx crd step select deselect" "port_ready enabled rx crd idle d"
    "accepts_write step (select (crd d)) block_address data_buffer n1" "length data_buffer = 512"
  shows "sdWriteBlock bus block_address data_buffer d = None"
  using spi_port.sdWriteBlock_starves [OF assms(1) _ _ _ assms(3,4)] assms(2) by (simp add: port_ready_def)

lemma sim_absorbs:
  assumes "inserted c" "selected c" "playing c = []" "absorbing c = length bs + k" "0 < k"
  shows "run sim_step c bs = (replicate (length bs) 0xFF, c\<lparr>absorbing := k\<rparr>)"
  using assms
proof (induction bs arbitrary: c)
  case (Cons b bs)
  then have "sim_step c b = (0xFF, c\<lparr>absorbing := length bs + k\<rparr>)" by (auto simp: sim_step_def)
  then show ?case using Cons.IH [of "c\<lparr>absorbing := length bs + k\<rparr>"] Cons.prems by simp
qed simp

lemma sim_awaits:
  "selected c \<Longrightarrow> playing c = [] \<Longrightarrow> awaiting c \<Longrightarrow> absorbing c = 0 \<Longrightarrow>
     run sim_step c (replicate m 0xFF) = (replicate m 0xFF, c)"
  by (induction m) (auto simp: sim_step_def)

lemma sim_accepts_write:
  assumes "sim_idle c" "selected c" "length data = 512"
  shows "accepts_write sim_step c a data 0"
proof -
  have cmd: "run sim_step c (sd_cmd 0x58 a 0x01) =
      (replicate 6 0xFF, c\<lparr>playing := [0xFF, 0x00], awaiting := True\<rparr>)"
    using assms by (simp add: sd_cmd_def sim_step_def sim_idle_def replicate_6 sim_next_def)
  let ?c1 = "c\<lparr>playing := [], awaiting := True\<rparr>" and ?c2 = "c\<lparr>playing := [], awaiting := False, absorbing := 514\<rparr>"
  have resp: "run sim_step (c\<lparr>playing := [0xFF, 0x00], awaiting := True\<rparr>) [0xFF, 0xFF] = ([0xFF, 0x00], ?c1)"
    using assms by (simp add: sim_step_def sim_idle_def)
  have token: "sim_step ?c1 0xFE = (0xFF, ?c2)" using assms by (simp add: sim_step_def sim_idle_def)
  have absorb: "run sim_step ?c2 data = (replicate 512 0xFF, ?c2\<lparr>absorbing := 2\<rparr>)"
    using sim_absorbs [of ?c2 data 2] assms by (simp add: sim_idle_def)
  have crc: "fst (run sim_step (?c2\<lparr>absorbing := 2\<rparr>) [0xFF, 0xFF]) = [0xFF, 0xFF]"
    using assms(1,2) by (simp add: sim_step_def sim_idle_def)
  have wait: "run sim_step ?c1 (replicate m 0xFF) = (replicate m 0xFF, ?c1)" for m
    using assms by (intro sim_awaits) (simp_all add: sim_idle_def)
  have "fst (run sim_step c (sd_cmd 0x58 a 0x01 @ ([0xFF, 0xFF] @ replicate m 0xFF) @ [0xFE] @ data @ [0xFF, 0xFF]))
      = replicate 6 0xFF @ [0xFF, 0x00] @ replicate m 0xFF @ [0xFF] @ replicate 512 0xFF @ [0xFF, 0xFF]" for m
    unfolding run_append cmd resp wait Let_def split_conv snd_conv fst_conv
    using token crc by (simp add: absorb split_def)
  moreover have "replicate 6 0xFF @ [0xFF, 0x00] @ replicate m 0xFF @ [0xFF] @ replicate 512 0xFF @ [0xFF, 0xFF] =
      replicate (7 + 0) 0xFF @ 0x00 # replicate (m + length data + 3) (0xFF :: u8)" for m
    by (simp add: assms(3) replicate_add replicate_6 numeral_eq_Suc replicate_app_Cons_same)
  ultimately show ?thesis by (simp add: accepts_write_def numeral_2_eq_2)
qed

theorem sd_write_block_hangs_witness: "sdWriteBlock sim_bus 4 (replicate 512 0x55) port1 = None"
  by (rule sd_write_block_hangs [OF simport.spi_port_axioms port1_ready, of 4 "replicate 512 0x55" 0])
    (auto intro!: sim_accepts_write simp: port1_def sim_select_def sim_idle_def)

end
