(* ===== verification/Crc32.thy ===== *)
theory Crc32
  imports Hexutils
begin

unbundle bit_operations_syntax

text \<open>
  The build tool \<open>src/src/arch/arm_cortexm/rp2040/boot2/compCrc32.c\<close>, which computes the checksum
  of the second boot stage and writes it as C source.  \<open>crc_bits\<close> is the checksum bit by bit,
  by shifting and subtracting the generator polynomial; the table-driven routine is equal to
  it, and detects every error burst of up to four bytes.
\<close>

section \<open>The tool\<close>

definition CRC32_POLYNOMIAL :: u32 where "CRC32_POLYNOMIAL = 0x04C11DB7"
definition MAX_FILE_SIZE :: nat where "MAX_FILE_SIZE = 252"

definition crc32_table :: "u32 list" where
  "crc32_table = [
    0x00000000, 0x04C11DB7, 0x09823B6E, 0x0D4326D9, 0x130476DC, 0x17C56B6B, 0x1A864DB2, 0x1E475005,
    0x2608EDB8, 0x22C9F00F, 0x2F8AD6D6, 0x2B4BCB61, 0x350C9B64, 0x31CD86D3, 0x3C8EA00A, 0x384FBDBD,
    0x4C11DB70, 0x48D0C6C7, 0x4593E01E, 0x4152FDA9, 0x5F15ADAC, 0x5BD4B01B, 0x569796C2, 0x52568B75,
    0x6A1936C8, 0x6ED82B7F, 0x639B0DA6, 0x675A1011, 0x791D4014, 0x7DDC5DA3, 0x709F7B7A, 0x745E66CD,
    0x9823B6E0, 0x9CE2AB57, 0x91A18D8E, 0x95609039, 0x8B27C03C, 0x8FE6DD8B, 0x82A5FB52, 0x8664E6E5,
    0xBE2B5B58, 0xBAEA46EF, 0xB7A96036, 0xB3687D81, 0xAD2F2D84, 0xA9EE3033, 0xA4AD16EA, 0xA06C0B5D,
    0xD4326D90, 0xD0F37027, 0xDDB056FE, 0xD9714B49, 0xC7361B4C, 0xC3F706FB, 0xCEB42022, 0xCA753D95,
    0xF23A8028, 0xF6FB9D9F, 0xFBB8BB46, 0xFF79A6F1, 0xE13EF6F4, 0xE5FFEB43, 0xE8BCCD9A, 0xEC7DD02D,
    0x34867077, 0x30476DC0, 0x3D044B19, 0x39C556AE, 0x278206AB, 0x23431B1C, 0x2E003DC5, 0x2AC12072,
    0x128E9DCF, 0x164F8078, 0x1B0CA6A1, 0x1FCDBB16, 0x018AEB13, 0x054BF6A4, 0x0808D07D, 0x0CC9CDCA,
    0x7897AB07, 0x7C56B6B0, 0x71159069, 0x75D48DDE, 0x6B93DDDB, 0x6F52C06C, 0x6211E6B5, 0x66D0FB02,
    0x5E9F46BF, 0x5A5E5B08, 0x571D7DD1, 0x53DC6066, 0x4D9B3063, 0x495A2DD4, 0x44190B0D, 0x40D816BA,
    0xACA5C697, 0xA864DB20, 0xA527FDF9, 0xA1E6E04E, 0xBFA1B04B, 0xBB60ADFC, 0xB6238B25, 0xB2E29692,
    0x8AAD2B2F, 0x8E6C3698, 0x832F1041, 0x87EE0DF6, 0x99A95DF3, 0x9D684044, 0x902B669D, 0x94EA7B2A,
    0xE0B41DE7, 0xE4750050, 0xE9362689, 0xEDF73B3E, 0xF3B06B3B, 0xF771768C, 0xFA325055, 0xFEF34DE2,
    0xC6BCF05F, 0xC27DEDE8, 0xCF3ECB31, 0xCBFFD686, 0xD5B88683, 0xD1799B34, 0xDC3ABDED, 0xD8FBA05A,
    0x690CE0EE, 0x6DCDFD59, 0x608EDB80, 0x644FC637, 0x7A089632, 0x7EC98B85, 0x738AAD5C, 0x774BB0EB,
    0x4F040D56, 0x4BC510E1, 0x46863638, 0x42472B8F, 0x5C007B8A, 0x58C1663D, 0x558240E4, 0x51435D53,
    0x251D3B9E, 0x21DC2629, 0x2C9F00F0, 0x285E1D47, 0x36194D42, 0x32D850F5, 0x3F9B762C, 0x3B5A6B9B,
    0x0315D626, 0x07D4CB91, 0x0A97ED48, 0x0E56F0FF, 0x1011A0FA, 0x14D0BD4D, 0x19939B94, 0x1D528623,
    0xF12F560E, 0xF5EE4BB9, 0xF8AD6D60, 0xFC6C70D7, 0xE22B20D2, 0xE6EA3D65, 0xEBA91BBC, 0xEF68060B,
    0xD727BBB6, 0xD3E6A601, 0xDEA580D8, 0xDA649D6F, 0xC423CD6A, 0xC0E2D0DD, 0xCDA1F604, 0xC960EBB3,
    0xBD3E8D7E, 0xB9FF90C9, 0xB4BCB610, 0xB07DABA7, 0xAE3AFBA2, 0xAAFBE615, 0xA7B8C0CC, 0xA379DD7B,
    0x9B3660C6, 0x9FF77D71, 0x92B45BA8, 0x9675461F, 0x8832161A, 0x8CF30BAD, 0x81B02D74, 0x857130C3,
    0x5D8A9099, 0x594B8D2E, 0x5408ABF7, 0x50C9B640, 0x4E8EE645, 0x4A4FFBF2, 0x470CDD2B, 0x43CDC09C,
    0x7B827D21, 0x7F436096, 0x7200464F, 0x76C15BF8, 0x68860BFD, 0x6C47164A, 0x61043093, 0x65C52D24,
    0x119B4BE9, 0x155A565E, 0x18197087, 0x1CD86D30, 0x029F3D35, 0x065E2082, 0x0B1D065B, 0x0FDC1BEC,
    0x3793A651, 0x3352BBE6, 0x3E119D3F, 0x3AD08088, 0x2497D08D, 0x2056CD3A, 0x2D15EBE3, 0x29D4F654,
    0xC5A92679, 0xC1683BCE, 0xCC2B1D17, 0xC8EA00A0, 0xD6AD50A5, 0xD26C4D12, 0xDF2F6BCB, 0xDBEE767C,
    0xE3A1CBC1, 0xE760D676, 0xEA23F0AF, 0xEEE2ED18, 0xF0A5BD1D, 0xF464A0AA, 0xF9278673, 0xFDE69BC4,
    0x89B8FD09, 0x8D79E0BE, 0x803AC667, 0x84FBDBD0, 0x9ABC8BD5, 0x9E7D9662, 0x933EB0BB, 0x97FFAD0C,
    0xAFB010B1, 0xAB710D06, 0xA6322BDF, 0xA2F33668, 0xBCB4666D, 0xB8757BDA, 0xB5365D03, 0xB1F740B4
  ]"

definition crc32_step :: "u32 \<Rightarrow> u8 \<Rightarrow> u32" where
  "crc32_step crc b =
     (let idx = (ucast (drop_bit 24 crc XOR ucast b) :: u8)
      in push_bit 8 crc XOR crc32_table ! unat idx)"

definition calculate_crc32 :: "u8 list \<Rightarrow> u32" where
  "calculate_crc32 data = foldl crc32_step 0xFFFFFFFF data"

text \<open>\<open>main\<close>, with what the library calls answer as a record: the content of the input file if
  it can be opened, whether \<open>fseek\<close> and \<open>fread\<close> succeed, whether the output file can be opened.
  (A failure of \<open>ftell\<close>
  gives the largest size, which ends like a file that is too long.)  The result is the exit status and the bytes printed into the array of the output file.\<close>

record crc_env =
  env_argc :: nat
  env_file :: "u8 list option"
  env_seek_ok :: bool
  env_read_ok :: bool
  env_out_ok :: bool

datatype exit_status = EXIT_SUCCESS | EXIT_FAILURE

definition crc_main :: "crc_env \<Rightarrow> exit_status \<times> u8 list option" where
  "crc_main env =
     (if env_argc env \<noteq> 2 then (EXIT_FAILURE, None)
      else case env_file env of
        None \<Rightarrow> (EXIT_FAILURE, None)
      | Some content \<Rightarrow>
          if \<not> env_seek_ok env then (EXIT_FAILURE, None)
          else if 252 < length content then (EXIT_FAILURE, None)
          else
            (let file_buf = take MAX_FILE_SIZE content in
             if \<not> env_read_ok env then (EXIT_FAILURE, None)
             else
               (let checksum = calculate_crc32 file_buf in
                if \<not> env_out_ok env then (EXIT_FAILURE, None)
                else
                  (let byte3 = ucast (drop_bit 24 checksum AND 0xFF);
                       byte2 = ucast (drop_bit 16 checksum AND 0xFF);
                       byte1 = ucast (drop_bit 8 checksum AND 0xFF);
                       byte0 = ucast (checksum AND 0xFF)
                   in (EXIT_SUCCESS, Some [byte0, byte1, byte2, byte3])))))"

section \<open>The checksum bit by bit\<close>

definition crc_shift :: "u32 \<Rightarrow> u32" where
  "crc_shift crc = (if bit crc 31 then push_bit 1 crc XOR CRC32_POLYNOMIAL else push_bit 1 crc)"

definition crc_byte :: "u32 \<Rightarrow> u8 \<Rightarrow> u32" where
  "crc_byte crc b = (crc_shift ^^ 8) (crc XOR push_bit 24 (ucast b))"

definition crc_bits :: "u8 list \<Rightarrow> u32" where
  "crc_bits data = foldl crc_byte 0xFFFFFFFF data"

section \<open>Linearity\<close>

lemma crc_shift_bits:
  "bit (crc_shift x) n \<longleftrightarrow> n < 32 \<and> ((0 < n \<and> bit x (n - 1)) \<noteq> (bit x 31 \<and> bit CRC32_POLYNOMIAL n))"
  using bit_imp_le_length [of CRC32_POLYNOMIAL n]
  by (auto simp: crc_shift_def bit_simps simp del: push_bit_Suc One_nat_def)

lemma crc_shift_xor: "crc_shift (x XOR y) = crc_shift x XOR crc_shift y"
  by (rule bit_word_eqI) (auto simp: crc_shift_bits bit_simps)

lemma crc_shifts_xor: "(crc_shift ^^ n) (x XOR y) = (crc_shift ^^ n) x XOR (crc_shift ^^ n) y"
  by (induction n) (simp_all add: crc_shift_xor)

lemma crc_shift_0 [simp]: "crc_shift 0 = 0"
  by (simp add: crc_shift_def)

lemma crc_shifts_0 [simp]: "(crc_shift ^^ n) 0 = 0"
  by (induction n) simp_all

text \<open>The shift is invertible, because the polynomial has the term 1.\<close>

lemma crc_shift_eq_0: "crc_shift x = 0 \<Longrightarrow> x = 0"
proof (rule bit_word_eqI)
  fix n assume z: "crc_shift x = 0" "n < LENGTH(32)"
  have b: "\<not> bit (crc_shift x) m" for m using z by simp
  have "bit CRC32_POLYNOMIAL 0" by (simp add: CRC32_POLYNOMIAL_def)
  then have top: "\<not> bit x 31" using b [of 0] by (simp add: crc_shift_bits)
  show "bit x n = bit 0 n"
  proof (cases "n = 31")
    case False
    then show ?thesis using b [of "Suc n"] top z(2) by (simp add: crc_shift_bits)
  qed (use top in simp)
qed

lemma crc_shifts_eq_0: "(crc_shift ^^ n) x = 0 \<Longrightarrow> x = 0"
  by (induction n) (auto dest: crc_shift_eq_0)

text \<open>As long as the top bits are clear, shifting is shifting.\<close>

lemma crc_shifts_low:
  "n + k \<le> 32 \<Longrightarrow> (\<And>i. k \<le> i \<Longrightarrow> \<not> bit x i) \<Longrightarrow> (crc_shift ^^ n) x = push_bit n x"
proof (induction n)
  case (Suc n)
  then have "(crc_shift ^^ Suc n) x = crc_shift (push_bit n x)" by simp
  also have "\<not> bit (push_bit n x) 31" using Suc.prems by (auto simp: bit_simps)
  then have "crc_shift (push_bit n x) = push_bit (Suc n) x"
    by (simp add: crc_shift_def push_bit_push_bit flip: plus_1_eq_Suc del: push_bit_Suc One_nat_def)
  finally show ?case .
qed simp

section \<open>The table\<close>

definition crc_entry :: "nat \<Rightarrow> u32" where
  "crc_entry i = (crc_shift ^^ 8) (push_bit 24 (of_nat i))"

lemma of_nat_add_xor: "i < 2 ^ n \<Longrightarrow> (of_nat (2 ^ n + i) :: u32) = of_nat (2 ^ n) XOR of_nat i"
proof -
  assume i: "i < 2 ^ n"
  have "(of_nat (2 ^ n) :: u32) AND of_nat i = 0"
  proof (rule bit_word_eqI)
    fix m
    have "\<not> bit i n" using i by (simp add: bit_iff_odd)
    then show "bit ((of_nat (2 ^ n) :: u32) AND of_nat i) m = bit (0 :: u32) m"
      by (auto simp: bit_simps)
  qed
  then show ?thesis by (simp add: disjunctive_add_eq_xor)
qed

lemma crc_entry_double:
  "map crc_entry [0..<2 ^ Suc n] =
     map crc_entry [0..<2 ^ n] @ map (\<lambda>x. crc_entry (2 ^ n) XOR x) (map crc_entry [0..<2 ^ n])"
proof -
  have "crc_entry (2 ^ n + i) = crc_entry (2 ^ n) XOR crc_entry i" if "i < 2 ^ n" for i
    by (simp only: crc_entry_def of_nat_add_xor [OF that] push_bit_xor crc_shifts_xor)
  moreover have "[0..<2 ^ n + 2 ^ n] = [0..<2 ^ n] @ map (\<lambda>i. i + 2 ^ n) [0..<2 ^ n]"
    by (simp only: upt_add_eq_append [OF zero_le] map_add_upt add.commute)
  then have "map crc_entry [0..<2 ^ Suc n] =
      map crc_entry [0..<2 ^ n] @ map (\<lambda>i. crc_entry (2 ^ n + i)) [0..<2 ^ n]"
    by (simp only: power_Suc mult_2 map_append map_map o_def add.commute)
  ultimately show ?thesis by simp
qed

lemma crc_shift_eval:
  "crc_shift x = (if 0x80000000 \<le> x then 2 * x XOR 0x04C11DB7 else 2 * x)"
proof -
  have "bit x 31 \<longleftrightarrow> 2147483648 \<le> unat x"
  proof -
    have "unat x div 2147483648 < 2" using unat_u32_lt [of x] by (simp add: less_mult_imp_div_less)
    then have "odd (unat x div 2147483648) \<longleftrightarrow> unat x div 2147483648 = 1" by (auto simp: less_2_cases_iff)
    also have "\<dots> \<longleftrightarrow> 2147483648 \<le> unat x" using unat_u32_lt [of x] by linarith
    finally have "bit (unat x) 31 \<longleftrightarrow> 2147483648 \<le> unat x" by (simp add: bit_iff_odd)
    then show ?thesis by (simp add: bit_unsigned_iff)
  qed
  then show ?thesis by (simp add: crc_shift_def CRC32_POLYNOMIAL_def word_le_nat_alt mult.commute)
qed

lemma crc_entry_eval:
  "crc_entry i = crc_shift (crc_shift (crc_shift (crc_shift (crc_shift (crc_shift (crc_shift
     (crc_shift (16777216 * of_nat i))))))))"
  by (simp add: crc_entry_def push_bit_eq_mult numeral_eq_Suc mult.commute)

lemma crc_entry_powers:
  "crc_entry 0 = 0" "crc_entry (Suc 0) = 0x04C11DB7" "crc_entry 2 = 0x09823B6E" "crc_entry 4 = 0x130476DC"
  "crc_entry 8 = 0x2608EDB8" "crc_entry 16 = 0x4C11DB70" "crc_entry 32 = 0x9823B6E0"
  "crc_entry 64 = 0x34867077" "crc_entry 128 = 0x690CE0EE"
  by (simp_all add: crc_entry_eval crc_shift_eval)

lemma crc32_table_entries: "crc32_table = map crc_entry [0..<256]"
proof -
  have "map crc_entry [0..<2 ^ Suc (Suc (Suc (Suc (Suc (Suc (Suc (Suc 0)))))))] = crc32_table"
    unfolding crc_entry_double by (simp add: crc_entry_powers crc32_table_def)
  then show ?thesis by simp
qed

section \<open>The table-driven step\<close>

lemma crc32_step_eq: "crc32_step crc b = crc_byte crc b"
proof -
  let ?hi = "ucast (drop_bit 24 crc XOR ucast b) :: u8" and ?lo = "take_bit 24 crc"
  have split: "crc XOR push_bit 24 (ucast b) = push_bit 24 (ucast ?hi) XOR ?lo"
    by (rule bit_word_eqI) (auto simp: bit_simps)
  have "(crc_shift ^^ 8) ?lo = push_bit 8 ?lo" by (rule crc_shifts_low [where k = 24]) (simp_all add: bit_simps)
  also have "\<dots> = push_bit 8 crc" by (rule bit_word_eqI) (auto simp: bit_simps)
  finally have lo: "(crc_shift ^^ 8) ?lo = push_bit 8 crc" .
  have "crc32_table ! unat ?hi = crc_entry (unat ?hi)"
    using unat_u8_lt [of ?hi] by (simp only: crc32_table_entries nth_map length_upt diff_zero nth_upt add_0)
  also have "\<dots> = (crc_shift ^^ 8) (push_bit 24 (ucast ?hi))" by (simp add: crc_entry_def)
  finally show ?thesis
    unfolding crc_byte_def split crc_shifts_xor lo by (simp add: crc32_step_def Let_def xor.commute)
qed

text \<open>The difference between two runs depends on the difference of their inputs only; a
  difference of up to four bytes is shifted into the register whole.\<close>

fun be_bytes :: "u8 list \<Rightarrow> u32" where
  "be_bytes [] = 0"
| "be_bytes (b # bs) = push_bit 24 (ucast b) XOR drop_bit 8 (be_bytes bs)"

lemma be_bytes_low: "i < 32 - 8 * length bs \<Longrightarrow> \<not> bit (be_bytes bs) i"
  by (induction bs arbitrary: i) (auto simp: bit_simps)

lemma crc_fold_be:
  "length bs \<le> 4 \<Longrightarrow> foldl crc_byte crc bs = (crc_shift ^^ (8 * length bs)) (crc XOR be_bytes bs)"
proof (induction bs arbitrary: crc)
  case (Cons b bs)
  let ?d = "drop_bit 8 (be_bytes bs)"
  have "(crc_shift ^^ 8) ?d = push_bit 8 ?d"
    by (rule crc_shifts_low [where k = 24]) (auto simp: bit_simps dest: bit_imp_le_length)
  also have "\<dots> = be_bytes bs"
  proof (rule bit_word_eqI)
    fix n assume "n < LENGTH(32)"
    moreover have "\<not> bit (be_bytes bs) n" if "n < 8" using that Cons.prems by (intro be_bytes_low) simp
    ultimately show "bit (push_bit 8 ?d) n = bit (be_bytes bs) n"
      by (cases "n < 8") (auto simp: bit_simps)
  qed
  finally have "crc_byte crc b XOR be_bytes bs = (crc_shift ^^ 8) ((crc XOR push_bit 24 (ucast b)) XOR ?d)"
    unfolding crc_byte_def crc_shifts_xor by simp
  moreover have "8 * length (b # bs) = 8 * length bs + 8" by simp
  ultimately show ?case
    using Cons.IH [of "crc_byte crc b"] Cons.prems
    by (simp only: foldl_Cons funpow_add o_apply be_bytes.simps xor.assoc)
qed simp

lemma foldl_crc_xor:
  "foldl crc_byte x bs XOR foldl crc_byte y bs = (crc_shift ^^ (8 * length bs)) (x XOR y)"
proof (induction bs arbitrary: x y)
  case (Cons b bs)
  have "crc_byte x b XOR crc_byte y b = (crc_shift ^^ 8) (x XOR y)"
    by (simp add: crc_byte_def crc_shifts_xor ac_simps)
  moreover have "8 * length (b # bs) = 8 * length bs + 8" by simp
  ultimately show ?case using Cons by (simp only: foldl_Cons funpow_add o_apply)
qed simp

lemma be_bytes_inj:
  "\<lbrakk>length xs = length ys; length xs \<le> 4; be_bytes xs = be_bytes ys\<rbrakk> \<Longrightarrow> xs = ys"
proof (induction xs ys rule: list_induct2)
  case (Cons x xs y ys)
  have b: "bit (be_bytes (x # xs)) n \<longleftrightarrow> bit (be_bytes (y # ys)) n" for n using Cons.prems by simp
  have "x = y"
  proof (rule bit_word_eqI)
    fix n assume "n < LENGTH(8)"
    then show "bit x n = bit y n"
      using b [of "n + 24"] by (auto simp: bit_simps dest: bit_imp_le_length)
  qed
  moreover have "be_bytes xs = be_bytes ys"
  proof (rule bit_word_eqI)
    fix n assume "n < LENGTH(32)"
    show "bit (be_bytes xs) n = bit (be_bytes ys) n"
    proof (cases "n < 8")
      case True
      then have "n < 32 - 8 * length xs" "n < 32 - 8 * length ys" using Cons by auto
      then show ?thesis using be_bytes_low by simp
    next
      case False
      then show ?thesis using b [of "n - 8"] \<open>x = y\<close> by (auto simp: bit_simps)
    qed
  qed
  ultimately show ?case using Cons by simp
qed simp

section \<open>Properties\<close>

text \<open>C35. The table-driven checksum is the bitwise division by the polynomial 0x04C11DB7, started
  at 0xFFFFFFFF, highest bit first.\<close>

theorem crc32_table_correct: "calculate_crc32 data = crc_bits data"
  unfolding calculate_crc32_def crc_bits_def
  by (induction data rule: rev_induct) (simp_all add: crc32_step_eq)

text \<open>C36. The checksum detects every change of up to four consecutive bytes.\<close>

theorem crc32_detects_burst:
  assumes "length b = length b'" "length b \<le> 4" "b \<noteq> b'"
  shows "calculate_crc32 (a @ b @ c) \<noteq> calculate_crc32 (a @ b' @ c)"
proof
  have step: "crc32_step = crc_byte" by (simp add: fun_eq_iff crc32_step_eq)
  let ?s = "foldl crc_byte 0xFFFFFFFF a"
  assume "calculate_crc32 (a @ b @ c) = calculate_crc32 (a @ b' @ c)"
  then have "foldl crc_byte (foldl crc_byte ?s b) c XOR foldl crc_byte (foldl crc_byte ?s b') c = 0"
    by (simp add: calculate_crc32_def step)
  then have "foldl crc_byte ?s b XOR foldl crc_byte ?s b' = 0"
    unfolding foldl_crc_xor by (rule crc_shifts_eq_0)
  then have "(crc_shift ^^ (8 * length b)) (be_bytes b XOR be_bytes b') = 0"
    using assms(1,2) by (simp add: crc_fold_be crc_shifts_xor xor.left_commute xor.assoc)
  then have "be_bytes b XOR be_bytes b' = 0" by (rule crc_shifts_eq_0)
  then show False using be_bytes_inj [OF assms(1,2) xor_eq_0D] assms(3) by simp
qed

theorem crc32_detects_burst_witness:
  "calculate_crc32 ([1, 2] @ [3, 4] @ [5]) \<noteq> calculate_crc32 ([1, 2] @ [0xFF, 0] @ [5])"
  by (rule crc32_detects_burst) simp_all

text \<open>C37. The tool succeeds exactly on a readable file of at most 252 bytes given as the only
  argument, when the output can be opened; it then writes the checksum of the whole file, in the
  byte order in which the boot loader reads it as a 32-bit word.\<close>

theorem crc_main_writes_checksum:
  "crc_main env = (case env_file env of
     Some content \<Rightarrow>
       if env_argc env = 2 \<and> env_seek_ok env \<and> env_read_ok env \<and> env_out_ok env \<and> length content \<le> 252
       then (EXIT_SUCCESS, Some (le_bytes32 (calculate_crc32 content))) else (EXIT_FAILURE, None)
   | None \<Rightarrow> (EXIT_FAILURE, None))"
  by (auto simp: crc_main_def le_bytes32_def MAX_FILE_SIZE_def ucast_and_FF Let_def split: option.split)

end
