(* ===== verification/Process.thy ===== *)
theory Process
  imports Prelude
begin

text \<open>
  The process table, \<open>src/src/kernel/process.c\<close>.  The build does not compile this file, and its
  last function (\<open>run_process\<close>) is not C; the table and the two functions before it are
  modelled as written.
\<close>

datatype process_state_t = PROC_NEW | PROC_READY | PROC_RUNNING | PROC_WAITING | PROC_TERM

record pcb_t =
  pid :: u8
  state :: process_state_t
  pc :: u32
  registers :: "u32 list"
  burst_time :: u32
  time_remaining :: u32

definition NUM_REGISTERS :: nat where "NUM_REGISTERS = 14"
definition MAX_PROCESSES :: nat where "MAX_PROCESSES = 8"

record scheduler =
  process_table :: "pcb_t list"
  num_processes :: u8
  next_available_pid :: u8
  current_running_pid :: "16 word"

definition scheduler0 :: "pcb_t list \<Rightarrow> scheduler" where
  "scheduler0 table = \<lparr>process_table = table, num_processes = 0, next_available_pid = 200,
     current_running_pid = - 1\<rparr>"

definition fresh_pcb :: "u8 \<Rightarrow> process_state_t \<Rightarrow> u32 \<Rightarrow> pcb_t" where
  "fresh_pcb p st burst = \<lparr>pid = p, state = st, pc = 0, registers = replicate NUM_REGISTERS 0,
     burst_time = burst, time_remaining = burst\<rparr>"

primrec init_table :: "nat \<Rightarrow> pcb_t list \<Rightarrow> pcb_t list" where
  "init_table 0 table = table"
| "init_table (Suc i) table = (init_table i table)[i := fresh_pcb (- 1) PROC_NEW 0]"

definition init_scheduler :: "scheduler \<Rightarrow> scheduler" where
  "init_scheduler s = s\<lparr>process_table := init_table MAX_PROCESSES (process_table s)\<rparr>"

text \<open>The comparison \<open>process_table[i].pid == -1\<close> promotes the unsigned byte to \<open>int\<close>.\<close>

definition is_unused :: "pcb_t \<Rightarrow> bool" where
  "is_unused p \<longleftrightarrow> uint (pid p) = - 1"

definition find_slot :: "pcb_t list \<Rightarrow> nat option" where
  "find_slot table = find (\<lambda>i. is_unused (table ! i)) [0..<MAX_PROCESSES]"

text \<open>The result: \<open>None\<close> for the \<open>return\<close> without a value.\<close>

definition create_process :: "u8 \<Rightarrow> u32 \<Rightarrow> scheduler \<Rightarrow> int option \<times> scheduler" where
  "create_process p burst s =
     (if MAX_PROCESSES \<le> unat (num_processes s) then (None, s)
      else case find_slot (process_table s) of
        None \<Rightarrow> (Some (- 1), s)
      | Some idx \<Rightarrow>
          (let new_pid = next_available_pid s
           in (Some (uint new_pid),
               s\<lparr>process_table := (process_table s)[idx := fresh_pcb new_pid PROC_READY burst],
                 next_available_pid := new_pid + 1, num_processes := num_processes s + 1\<rparr>)))"

section \<open>What the table does\<close>

lemma length_init_table [simp]: "length (init_table n table) = length table"
  by (induction n) simp_all

lemma init_table_nth:
  "n \<le> length table \<Longrightarrow> i < length table \<Longrightarrow>
     init_table n table ! i = (if i < n then fresh_pcb (- 1) PROC_NEW 0 else table ! i)"
  by (induction n) (auto simp: nth_list_update less_Suc_eq)

lemma init_scheduler_resets:
  assumes "length (process_table s) = 8"
  shows "process_table (init_scheduler s) = replicate 8 (fresh_pcb (- 1) PROC_NEW 0)"
  by (rule nth_equalityI)
    (use assms in \<open>simp_all add: init_scheduler_def init_table_nth MAX_PROCESSES_def\<close>)

lemma no_unused: "\<not> is_unused p"
proof -
  have "0 \<le> uint (pid p)" by simp
  then show ?thesis unfolding is_unused_def by linarith
qed

text \<open>C39. No process can ever be created: the process id is an unsigned byte, so that no entry of
  the table, not even one that \<open>init_scheduler\<close> marked with -1, compares equal to -1.  Every call
  leaves the table, the counter and the next id as they are.\<close>

theorem create_process_never_succeeds:
  "create_process p burst s = (if num_processes s < 8 then Some (- 1) else None, s)"
proof -
  have "find_slot (process_table s) = None" by (simp add: find_slot_def find_None_iff no_unused)
  then show ?thesis by (simp add: create_process_def MAX_PROCESSES_def word_less_nat_alt)
qed

end
