(* ===== verification/Fat_Client.thy ===== *)
theory Fat_Client
  imports Fat_Props
begin

unbundle bit_operations_syntax

text \<open>
  The file system as its callers see it: a state machine whose steps are the calls of \<open>FAT32.h\<close>, in any
  order and with any arguments, over a device of which nothing is assumed.  It may fail, answer with
  wrong data or change its answers.  The invariant is about the table of handles.
\<close>

section \<open>What the calls change\<close>

text \<open>Most of the driver changes nothing but the device.\<close>

definition device_only :: "'w fs \<Rightarrow> 'w fs \<Rightarrow> bool" where
  "device_only s s' \<longleftrightarrow> (\<exists>w. s' = s\<lparr>sd := w\<rparr>)"

lemma device_onlyI [simp, intro]: "device_only s (s\<lparr>sd := w\<rparr>)"
  by (auto simp: device_only_def)

lemma device_only_refl [simp, intro]: "device_only s s"
  using device_onlyI [of s "sd s"] by simp

lemma device_only_trans [trans]: "device_only s s' \<Longrightarrow> device_only s' s'' \<Longrightarrow> device_only s s''"
  by (auto simp: device_only_def)

lemma getNextCluster_device_only: "getNextCluster dev c s = Some (r, s') \<Longrightarrow> device_only s s'"
  by (auto simp: getNextCluster_def Let_def split: if_splits bind_splits option.splits)

lemma read_dir_sector_device_only: "read_dir_sector dev st = Some (r, st') \<Longrightarrow> device_only (d_fs st) (d_fs st')"
  by (auto simp: read_dir_sector_def Let_def split: bind_splits option.splits)

lemma next_dir_sector_device_only: "next_dir_sector dev st = Some (r, st') \<Longrightarrow> device_only (d_fs st) (d_fs st')"
  using getNextCluster_device_only [of dev _ "d_fs st"] read_dir_sector_device_only [of dev _ r st']
  by (fastforce simp: next_dir_sector_def Let_def split: if_splits bind_splits option.splits intro: device_only_trans)

lemma load_dir_sector_device_only: "load_dir_sector dev st = Some (r, st') \<Longrightarrow> device_only (d_fs st) (d_fs st')"
  using next_dir_sector_device_only [of dev st r st'] by (auto simp: load_dir_sector_def Let_def split: if_splits)

lemma process_entry_fs: "process_entry st = Some (r, st') \<Longrightarrow> d_fs st' = d_fs st"
  by (auto simp: process_entry_def Let_def split: if_splits bind_splits)

lemma dir_step_device_only: "dir_step dev st = Some (r, st') \<Longrightarrow> device_only (d_fs st) (d_fs st')"
  using load_dir_sector_device_only [of dev st] process_entry_fs [of _ r st']
  by (fastforce simp: dir_step_def split: bind_splits option.splits)

lemma dir_loop_device_only: "dir_loop dev st = Some (e, st') \<Longrightarrow> device_only (d_fs st) (d_fs st')"
proof -
  have "device_only (d_fs st) (d_fs (snd y))" if "dir_loop dev st = Some y" for st :: "'a dir_state" and y
    using that
    by (rule dir_loop.raw_induct [where P = "\<lambda>dev st y. device_only (d_fs st) (d_fs (snd y))", rotated])
      (fastforce split: bind_splits option.splits dest: dir_step_device_only intro: device_only_trans)
  then show "dir_loop dev st = Some (e, st') \<Longrightarrow> device_only (d_fs st) (d_fs st')" by fastforce
qed

lemma read_next_device_only:
  "fat_read_next_dir_entry dev junk it info s = Some (e, it', info', s') \<Longrightarrow> device_only s s'"
  using dir_loop_device_only [of dev] by (fastforce simp: fat_read_next_dir_entry_def split: if_splits option.splits bind_splits)

lemma find_entry_device_only: "find_entry dev junk nm fin st = Some (r, st') \<Longrightarrow> device_only (s_fs st) (s_fs st')"
proof -
  have "device_only (s_fs st) (s_fs (snd y))" if "find_entry dev junk nm fin st = Some y" for st :: "'a search" and y
    using that
    by (rule find_entry.raw_induct [where P = "\<lambda>dev junk nm fin st y. device_only (s_fs st) (s_fs (snd y))", rotated])
      (fastforce simp: Let_def split: bind_splits if_splits prod.splits dest: read_next_device_only intro: device_only_trans)
  then show "find_entry dev junk nm fin st = Some (r, st') \<Longrightarrow> device_only (s_fs st) (s_fs st')" by fastforce
qed

lemma get_file_loop_device_only: "get_file_loop dev junk path st = Some (e, st') \<Longrightarrow> device_only (s_fs st) (s_fs st')"
proof -
  have "device_only (s_fs st) (s_fs (snd y))" if "get_file_loop dev junk path st = Some y" for path and st :: "'a search" and y
    using that
    by (rule get_file_loop.raw_induct [where P = "\<lambda>dev junk path st y. device_only (s_fs st) (s_fs (snd y))", rotated])
      (fastforce simp: Let_def split: bind_splits if_splits option.splits dest: find_entry_device_only intro: device_only_trans)
  then show "get_file_loop dev junk path st = Some (e, st') \<Longrightarrow> device_only (s_fs st) (s_fs st')" by fastforce
qed

lemma get_file_device_only: "get_file dev junk entry0 path f s = Some (e, f', s') \<Longrightarrow> device_only s s'"
  using get_file_loop_device_only [of dev junk]
  by (fastforce simp: get_file_def Let_def split: option.splits if_splits bind_splits prod.splits)

text \<open>A read through a handle moves its position, by \<open>k\<close>, and its place in the chain of clusters; the other
  handles stay as they are.\<close>

definition moved :: "nat \<Rightarrow> u32 \<Rightarrow> file_handle_t list \<Rightarrow> file_handle_t list \<Rightarrow> bool" where
  "moved i k hs hs' \<longleftrightarrow> length hs' = length hs \<and> (\<forall>j. j \<noteq> i \<longrightarrow> hs' ! j = hs ! j) \<and>
     cluster_start (hs' ! i) = cluster_start (hs ! i) \<and> fh_file_size (hs' ! i) = fh_file_size (hs ! i) \<and>
     mode (hs' ! i) = mode (hs ! i) \<and> is_free (hs' ! i) = is_free (hs ! i) \<and>
     current_file_pos (hs' ! i) = current_file_pos (hs ! i) + k"

lemma moved_0 [simp]: "moved i 0 hs hs"
  by (simp add: moved_def)

lemma moved_trans: "moved i k hs hs' \<Longrightarrow> moved i l hs' hs'' \<Longrightarrow> moved i (k + l) hs hs''"
  by (simp add: moved_def)

lemma sector_left:
  assumes "(ucast (b :: u16) :: u32) \<noteq> 0"
  shows "unat (ucast b - x mod ucast b :: u32) < 65536"
proof -
  have b: "unat b < 65536" by (rule unat_u16_lt)
  have "b \<noteq> 0" using assms by auto
  then have "unat b \<noteq> 0" by (simp add: unsigned_eq_0_iff)
  then have "unat (x mod ucast b) < unat (ucast b :: u32)" by (simp add: unat_mod_u32)
  then have "unat (ucast b - x mod ucast b :: u32) \<le> unat b" by (simp add: unat_sub_u32)
  then show ?thesis using b by (rule le_less_trans)
qed

lemma handles_next_cluster: "getNextCluster dev c s = Some (r, s') \<Longrightarrow> open_file_handles s' = open_file_handles s"
  using getNextCluster_device_only by (fastforce simp: device_only_def)

lemma read_file_step_handle:
  assumes "read_file_step dev i buf act tot s = Some (r, tot', s')" "i < length (open_file_handles s)"
    "k = min_int (act - tot) (ucast (bytes_per_sector (g_fat32_volume_info s)) -
      current_offset (open_file_handles s ! i) mod ucast (bytes_per_sector (g_fat32_volume_info s)))"
  shows "moved i k (open_file_handles s) (open_file_handles s') \<and> tot' = tot + k \<or>
    open_file_handles s' = open_file_handles s \<and> tot' = tot"
  using assms(1,2)
  by (auto simp: read_file_step_def Let_def moved_def handles_next_cluster assms(3) [symmetric]
    split: if_splits bind_splits option.splits)

lemma read_file_step_moves:
  assumes "read_file_step dev i buf act tot s = Some (r, tot', s')" "i < length (open_file_handles s)"
  shows "\<exists>k. moved i k (open_file_handles s) (open_file_handles s') \<and>
    tot' = tot + k \<and> (unat act < 2147483648 \<and> tot \<le> act \<longrightarrow> k \<le> act - tot)"
proof -
  let ?left = "ucast (bytes_per_sector (g_fat32_volume_info s)) -
    current_offset (open_file_handles s ! i) mod ucast (bytes_per_sector (g_fat32_volume_info s)) :: u32"
  define k where "k = min_int (act - tot) ?left"
  have k: "k \<le> act - tot" if "unat act < 2147483648" "tot \<le> act"
  proof -
    have "unat ?left < 65536" by (rule sector_left) (use assms in \<open>auto simp: read_file_step_def\<close>)
    moreover have "unat (act - tot) < 2147483648" using that by (simp add: unat_sub_u32 word_le_nat_alt)
    ultimately have "unat k = min (unat (act - tot)) (unat ?left)" unfolding k_def by (intro unat_min_int) simp_all
    then show ?thesis by (simp add: word_le_nat_alt)
  qed
  from read_file_step_handle [OF assms k_def] show ?thesis
  proof
    assume "moved i k (open_file_handles s) (open_file_handles s') \<and> tot' = tot + k"
    then show ?thesis using k by blast
  next
    assume "open_file_handles s' = open_file_handles s \<and> tot' = tot"
    then show ?thesis by (intro exI [of _ 0]) simp
  qed
qed

lemma advance_twice:
  fixes k l act tot :: u32
  assumes "k \<le> act - tot" "tot \<le> act" "l \<le> act - (tot + k)" "unat act < 2147483648"
  shows "tot + k \<le> act \<and> k + l \<le> act - tot"
proof -
  have 1: "unat k \<le> unat act - unat tot" using assms(1,2) by (simp add: word_le_nat_alt unat_sub_u32)
  have 2: "unat tot \<le> unat act" using assms(2) by (simp add: word_le_nat_alt)
  have 3: "unat (tot + k) = unat tot + unat k" using 1 2 assms(4) by (intro unat_add_u32) simp
  then have "unat l \<le> unat act - (unat tot + unat k)" using assms(3) 1 2 by (simp add: word_le_nat_alt unat_sub_u32)
  moreover from this have "unat (k + l) = unat k + unat l" using 1 2 assms(4) by (intro unat_add_u32) simp
  moreover have "unat (act - tot) = unat act - unat tot" using 2 by (rule unat_sub_u32)
  ultimately show ?thesis using 1 2 3 unfolding word_le_nat_alt by linarith
qed

lemma read_file_loop_moves:
  assumes "read_file_loop dev i buf act tot s = Some (e, s')" "i < length (open_file_handles s)"
  shows "\<exists>k. moved i k (open_file_handles s) (open_file_handles s') \<and>
    (unat act < 2147483648 \<and> tot \<le> act \<longrightarrow> k \<le> act - tot)"
proof -
  define P where "P = (\<lambda>(dev :: 'a blockdev) i (buf :: u32) act tot (s :: 'a fs) (y :: fat_error_t \<times> 'a fs).
    i < length (open_file_handles s) \<longrightarrow> (\<exists>k. moved i k (open_file_handles s) (open_file_handles (snd y)) \<and>
      (unat act < 2147483648 \<and> tot \<le> act \<longrightarrow> k \<le> act - tot)))"
  have "P dev i buf act tot s (e, s')"
    using assms(1)
  proof (rule read_file_loop.raw_induct [where P = P, rotated])
    fix rec dev i buf act tot s y
    assume ih: "\<And>dev i buf act tot s y. rec dev i buf act tot s = Some y \<Longrightarrow> P dev i buf act tot s y"
      and run: "(if tot < act then do {
        (r, tot', s') \<leftarrow> read_file_step dev i buf act tot s;
        case r of None \<Rightarrow> rec dev i buf act tot' s' | Some e \<Rightarrow> Some (e, s')
      } else Some (FAT_SUCCESS, s)) = Some y"
    show "P dev i buf act tot s y"
    proof (cases "tot < act")
      case False
      then show ?thesis using run by (auto simp: P_def intro: exI [of _ 0])
    next
      case True
      then obtain r tot' s1 where st: "read_file_step dev i buf act tot s = Some (r, tot', s1)"
        and y: "(case r of None \<Rightarrow> rec dev i buf act tot' s1 | Some e \<Rightarrow> Some (e, s1)) = Some y"
        using run by (auto split: bind_splits)
      show ?thesis unfolding P_def
      proof
        assume len: "i < length (open_file_handles s)"
        obtain k where k: "moved i k (open_file_handles s) (open_file_handles s1)" "tot' = tot + k"
          "unat act < 2147483648 \<and> tot \<le> act \<longrightarrow> k \<le> act - tot" using read_file_step_moves [OF st len] by blast
        show "\<exists>k. moved i k (open_file_handles s) (open_file_handles (snd y)) \<and>
          (unat act < 2147483648 \<and> tot \<le> act \<longrightarrow> k \<le> act - tot)"
        proof (cases r)
          case (Some e)
          then show ?thesis using y k by auto
        next
          case None
          then have "P dev i buf act tot' s1 y" using y ih by simp
          then obtain l where l: "moved i l (open_file_handles s1) (open_file_handles (snd y))"
            "unat act < 2147483648 \<and> tot' \<le> act \<longrightarrow> l \<le> act - tot'"
            using len k(1) by (auto simp: P_def moved_def)
          have "k + l \<le> act - tot" if "unat act < 2147483648" "tot \<le> act"
            using advance_twice [of k act tot 0] advance_twice [of k act tot l] that k(2,3) l(2) by auto
          then show ?thesis using moved_trans [OF k(1) l(1)] by blast
        qed
      qed
    qed
  qed
  then show ?thesis using assms(2) by (simp add: P_def)
qed

lemma fat32_read_moves:
  assumes "fat32_read dev fid buf n s = Some (b, s')" "length (open_file_handles s) = 16"
  shows "\<exists>k. moved (unat fid) k (open_file_handles s) (open_file_handles s') \<and>
    (is_free (open_file_handles s ! unat fid) \<longrightarrow> open_file_handles s' = open_file_handles s) \<and>
    (n < 0x80000000 \<and> fh_file_size (open_file_handles s ! unat fid) < 0x80000000 \<and>
      current_file_pos (open_file_handles s ! unat fid) \<le> fh_file_size (open_file_handles s ! unat fid) \<longrightarrow>
      k \<le> fh_file_size (open_file_handles s ! unat fid) - current_file_pos (open_file_handles s ! unat fid))"
proof -
  let ?hs = "open_file_handles s" and ?i = "unat fid"
  let ?h = "?hs ! ?i"
  have same: ?thesis if "s' = s" using that by (intro exI [of _ 0]) simp
  define act where "act = min_int n (fh_file_size ?h - current_file_pos ?h)"
  consider "s' = s" | e where "?i < 16" "\<not> is_free ?h" "read_file_loop dev ?i buf act 0 s = Some (e, s')"
    using assms(1) by (auto simp: fat32_read_def fat_read_file_def MAX_OPEN_FILES_def Let_def act_def split: if_splits bind_splits)
  then show ?thesis
  proof cases
    case 2
    then obtain k where k: "moved ?i k ?hs (open_file_handles s')" "unat act < 2147483648 \<longrightarrow> k \<le> act"
      using read_file_loop_moves [of dev ?i buf act 0 s e s'] assms(2) by auto
    have "k \<le> fh_file_size ?h - current_file_pos ?h"
      if "n < 0x80000000" "fh_file_size ?h < 0x80000000" "current_file_pos ?h \<le> fh_file_size ?h"
    proof -
      have "unat (fh_file_size ?h - current_file_pos ?h) < 2147483648"
        using that(2,3) by (simp add: unat_sub_u32 word_le_nat_alt word_less_nat_alt)
      then have "unat act = min (unat n) (unat (fh_file_size ?h - current_file_pos ?h))"
        unfolding act_def using that(1) by (intro unat_min_int) (simp_all add: word_less_nat_alt)
      then show ?thesis using k(2) that(1) by (simp add: word_le_nat_alt word_less_nat_alt)
    qed
    then show ?thesis using k(1) 2(2) by blast
  qed (rule same)
qed

section \<open>The calls as a state machine\<close>

inductive fs_step :: "'w blockdev \<Rightarrow> 'w fs \<Rightarrow> 'w fs \<Rightarrow> bool" for dev where
  call_init: "fat32_init dev s = Some (ok, s') \<Longrightarrow> fs_step dev s s'"
| call_open: "fat32_open dev junk entry0 file0 path md s = Some (fid, s') \<Longrightarrow> fs_step dev s s'"
| call_read: "n < 0x80000000 \<Longrightarrow> fat32_read dev fid buf n s = Some (ok, s') \<Longrightarrow> fs_step dev s s'"
| call_close: "fat32_close fid s = (ok, s') \<Longrightarrow> fs_step dev s s'"

inductive_cases fs_stepE: "fs_step dev s s'"

definition handle_ok :: "file_handle_t \<Rightarrow> bool" where
  "handle_ok h \<longleftrightarrow> is_free h \<or> 0x80000000 \<le> fh_file_size h \<or> current_file_pos h \<le> fh_file_size h"

definition table_ok :: "'w fs \<Rightarrow> bool" where
  "table_ok s \<longleftrightarrow> length (open_file_handles s) = 16 \<and> list_all handle_ok (open_file_handles s)"

lemma table_ok_update:
  "table_ok s \<Longrightarrow> handle_ok h \<Longrightarrow> table_ok (s\<lparr>open_file_handles := (open_file_handles s)[i := h]\<rparr>)"
  using set_update_subset_insert [of "open_file_handles s" i h] by (auto simp: table_ok_def list_all_iff)

lemma parse_handles:
  "parseMBR dev s = Some (ok, s') \<Longrightarrow> open_file_handles s' = open_file_handles s"
  "parseBPB dev s = Some (ok, s') \<Longrightarrow> open_file_handles s' = open_file_handles s"
  by (auto simp: parseMBR_def parseBPB_def Let_def split: bind_splits if_splits option.splits)

lemma handle_ok_free [simp]: "handle_ok (h\<lparr>is_free := True\<rparr>)"
  by (simp add: handle_ok_def)

lemma fat32_init_table: "fat32_init dev s = Some (ok, s') \<Longrightarrow> table_ok s \<Longrightarrow> table_ok s'"
  by (auto simp: fat32_init_def table_ok_def list_all_iff split: bind_splits if_splits dest!: parse_handles)

lemma fat32_open_table:
  assumes "fat32_open dev junk entry0 file0 path md s = Some (fid, s')" "table_ok s"
  shows "table_ok s'"
proof -
  obtain e f s1 where g: "get_file dev junk entry0 path (Some file0) s = Some (e, f, s1)"
    using assms(1) by (auto simp: fat32_open_def split: bind_splits)
  have "table_ok s1" using get_file_device_only [OF g] assms(2) by (auto simp: device_only_def table_ok_def)
  moreover have "handle_ok (handle_of x md)" for x by (simp add: handle_ok_def handle_of_def)
  ultimately show ?thesis
    using assms(1) g by (auto simp: fat32_open_def split: if_splits option.splits intro: table_ok_update)
qed

lemma fat32_read_table:
  assumes "fat32_read dev fid buf n s = Some (ok, s')" "n < 0x80000000" "table_ok s"
  shows "table_ok s'"
proof -
  let ?h = "open_file_handles s ! unat fid" and ?hs' = "open_file_handles s'"
  have len: "length (open_file_handles s) = 16" and ok: "list_all handle_ok (open_file_handles s)"
    using assms(3) by (simp_all add: table_ok_def)
  obtain k where m: "moved (unat fid) k (open_file_handles s) ?hs'" and k: "\<not> 0x80000000 \<le> fh_file_size ?h \<Longrightarrow>
      current_file_pos ?h \<le> fh_file_size ?h \<Longrightarrow> k \<le> fh_file_size ?h - current_file_pos ?h"
    using fat32_read_moves [OF assms(1) len] assms(2) by (auto simp: not_le)
  have "handle_ok (?hs' ! j)" if "j < 16" for j
  proof (cases "j = unat fid")
    case True
    have "handle_ok ?h" using ok len that True by (simp add: list_all_length)
    moreover have "current_file_pos ?h + k \<le> fh_file_size ?h"
      if "current_file_pos ?h \<le> fh_file_size ?h" "k \<le> fh_file_size ?h - current_file_pos ?h"
    proof -
      have "unat (current_file_pos ?h) + unat k \<le> unat (fh_file_size ?h)"
        using that by (simp add: word_le_nat_alt unat_sub_u32)
      moreover from this have "unat (current_file_pos ?h + k) = unat (current_file_pos ?h) + unat k"
        by (intro unat_add_u32) (rule le_less_trans [OF _ unat_u32_lt])
      ultimately show ?thesis by (simp add: word_le_nat_alt)
    qed
    ultimately show ?thesis using m k True by (auto simp: handle_ok_def moved_def)
  next
    case False
    then show ?thesis using ok len that m by (simp add: list_all_length moved_def)
  qed
  then show ?thesis using m len by (simp add: table_ok_def list_all_length moved_def)
qed

lemma fat32_close_table: "fat32_close fid s = (ok, s') \<Longrightarrow> table_ok s \<Longrightarrow> table_ok s'"
  by (auto simp: fat32_close_def split: if_splits intro: table_ok_update)

lemma fs_step_table: "fs_step dev s s' \<Longrightarrow> table_ok s \<Longrightarrow> table_ok s'"
  by (erule fs_stepE) (auto intro: fat32_init_table fat32_open_table fat32_read_table fat32_close_table)

lemma fs_steps_table: "(fs_step dev)\<^sup>*\<^sup>* s s' \<Longrightarrow> table_ok s \<Longrightarrow> table_ok s'"
  by (induction rule: rtranclp_induct) (auto intro: fs_step_table)

section \<open>Properties\<close>

text \<open>C23. The handles are safe from the device: whatever calls are made in whatever order, reads of \<open>2 ^ 31\<close> bytes and
  more excepted, and whatever the device answers, the table keeps its sixteen entries and no open handle of a file of
  less than \<open>2 ^ 31\<close> bytes is ever positioned behind the end of its file.  The two limits are those of the signed comparison in
  \<open>min\<close>: beyond them \<open>min\<close> picks the larger value.\<close>

theorem fs_calls_keep_handles:
  assumes "(fs_step dev)\<^sup>*\<^sup>* s s'" "length (open_file_handles s) = 16" "list_all is_free (open_file_handles s)"
  shows "length (open_file_handles s') = 16 \<and> (\<forall>h \<in> set (open_file_handles s').
    \<not> is_free h \<and> fh_file_size h < 0x80000000 \<longrightarrow> current_file_pos h \<le> fh_file_size h)"
proof -
  have "table_ok s" using assms(2,3) by (simp add: table_ok_def handle_ok_def list_all_iff)
  then have "table_ok s'" using fs_steps_table [OF assms(1)] by blast
  then show ?thesis by (auto simp: table_ok_def handle_ok_def list_all_iff not_le [symmetric])
qed

theorem fs_calls_keep_handles_witness:
  "\<exists>s1. fat32_init ram_dev fs1 = Some (True, s1) \<and> length (open_file_handles (snd (fat32_close 3 s1))) = 16"
proof -
  obtain w where "fat32_init ram_dev fs1 = Some (True, fs1\<lparr>sd := w, g_fat32_volume_info := geometry mbr1 0 bpb1,
      open_file_handles := map (\<lambda>h. h\<lparr>is_free := True\<rparr>) (open_file_handles fs1)\<rparr>)"
    by (rule ramdisk.fat32_init_spec [of fs1 mbr1 0 bpb1]) (use mount1 sectors_disk1 in \<open>auto simp: fs1_def\<close>)
  then obtain s1 where s1: "fat32_init ram_dev fs1 = Some (True, s1)" by blast
  have "fat32_close 3 s1 = (fst (fat32_close 3 s1), snd (fat32_close 3 s1))" by simp
  then have "(fs_step ram_dev)\<^sup>*\<^sup>* fs1 (snd (fat32_close 3 s1))"
    using call_init [OF s1] call_close by (meson converse_rtranclp_into_rtranclp r_into_rtranclp)
  from fs_calls_keep_handles [OF this] show ?thesis using s1 by (simp add: fs1_def free_handle_def list_all_iff)
qed

end
