(* ===== verification/System.thy ===== *)
theory System
  imports Console
begin

unbundle bit_operations_syntax

text \<open>
  The clock and interrupt set-up, \<open>SystemInit\<close> of \<open>system_rp2040.c\<close>, over the registers of
  \<open>hardware_structs/clocks.h\<close>, \<open>resets.h\<close> and \<open>m0plus.h\<close>.

  The contract \<open>registers\<close> describes control registers: \<open>reg d\<close> is the content of the fields that
  software writes, \<open>rw_bits\<close> says which bits these are, and \<open>settles\<close> says which bits of a status
  register come up for which content of the control registers.  A status bit may take any number
  of polls.
\<close>

section \<open>Registers\<close>

definition REF_CTRL :: u32 where "REF_CTRL = 0x40008030"
definition REF_SELECTED :: u32 where "REF_SELECTED = 0x40008038"
definition SYS_CTRL :: u32 where "SYS_CTRL = 0x4000803C"
definition SYS_SELECTED :: u32 where "SYS_SELECTED = 0x40008044"
definition PERI_CTRL :: u32 where "PERI_CTRL = 0x40008048"
definition XOSC_CTRL :: u32 where "XOSC_CTRL = 0x40024000"
definition XOSC_STATUS :: u32 where "XOSC_STATUS = 0x40024004"
definition ROSC_CTRL :: u32 where "ROSC_CTRL = 0x40060000"
definition PLL_SYS_CS :: u32 where "PLL_SYS_CS = 0x40028000"
definition PLL_SYS_PWR :: u32 where "PLL_SYS_PWR = 0x40028004"
definition PLL_SYS_FBDIV_INT :: u32 where "PLL_SYS_FBDIV_INT = 0x40028008"
definition PLL_SYS_PRIM :: u32 where "PLL_SYS_PRIM = 0x4002800C"
definition WATCHDOG_TICK :: u32 where "WATCHDOG_TICK = 0x4005802C"
definition RESETS_RESET :: u32 where "RESETS_RESET = 0x4000C000"
definition RESETS_RESET_DONE :: u32 where "RESETS_RESET_DONE = 0x4000C008"
definition SHPR2 :: u32 where "SHPR2 = 0xE000ED1C"
definition SHPR3 :: u32 where "SHPR3 = 0xE000ED20"
definition SYST_CSR :: u32 where "SYST_CSR = 0xE0000010"
definition SYST_RVR :: u32 where "SYST_RVR = 0xE0000014"
definition SYST_CVR :: u32 where "SYST_CVR = 0xE0000018"

definition XOSC_HZ :: u32 where "XOSC_HZ = 12000000"
definition SYSTICK_RELOAD_VAL :: u32 where "SYSTICK_RELOAD_VAL = CLK_SYS_HZ div (1000 div 10) - 1"
definition PRIORITY_0_HIGHEST :: u32 where "PRIORITY_0_HIGHEST = 0x00"
definition PRIORITY_2 :: u32 where "PRIORITY_2 = 0x80"
definition PRIORITY_3_LOWEST :: u32 where "PRIORITY_3_LOWEST = 0xC0"

lemmas system_regs = REF_CTRL_def REF_SELECTED_def SYS_CTRL_def SYS_SELECTED_def PERI_CTRL_def XOSC_CTRL_def
  XOSC_STATUS_def ROSC_CTRL_def PLL_SYS_CS_def PLL_SYS_PWR_def PLL_SYS_FBDIV_INT_def PLL_SYS_PRIM_def
  WATCHDOG_TICK_def RESETS_RESET_def RESETS_RESET_DONE_def SHPR2_def SHPR3_def SYST_CSR_def SYST_RVR_def SYST_CVR_def

text \<open>No two of them are the same, stated in both orders for the simplifier.\<close>

lemma system_regs_distinct:
  "distinct
    [REF_CTRL, SYS_CTRL, PERI_CTRL, XOSC_CTRL, ROSC_CTRL, PLL_SYS_PWR, PLL_SYS_FBDIV_INT, PLL_SYS_PRIM,
     WATCHDOG_TICK, RESETS_RESET, SHPR2, SHPR3, SYST_CSR, SYST_RVR, SYST_CVR, XOSC_STATUS,
     RESETS_RESET_DONE, PLL_SYS_CS, REF_SELECTED, SYS_SELECTED]"
  "distinct (rev
    [REF_CTRL, SYS_CTRL, PERI_CTRL, XOSC_CTRL, ROSC_CTRL, PLL_SYS_PWR, PLL_SYS_FBDIV_INT, PLL_SYS_PRIM,
     WATCHDOG_TICK, RESETS_RESET, SHPR2, SHPR3, SYST_CSR, SYST_RVR, SYST_CVR, XOSC_STATUS,
     RESETS_RESET_DONE, PLL_SYS_CS, REF_SELECTED, SYS_SELECTED])"
  by (simp_all only: distinct_rev) (simp_all add: system_regs)

lemmas system_regs_neq = system_regs_distinct [simplified]

text \<open>\<open>REG = (REG & ~bits) | v\<close>, and releasing a peripheral from reset and waiting for it.\<close>

definition reg_update :: "'d bus \<Rightarrow> u32 \<Rightarrow> u32 \<Rightarrow> u32 \<Rightarrow> 'd \<Rightarrow> 'd" where
  "reg_update bus reg bits v d =
     (let (x, d') = bus_read bus reg d in bus_write bus reg ((x AND NOT bits) OR v) d')"

definition unreset :: "'d bus \<Rightarrow> nat \<Rightarrow> 'd \<Rightarrow> 'd option" where
  "unreset bus k d = wait_set bus RESETS_RESET_DONE (push_bit k 1) (reg_and_not bus RESETS_RESET (push_bit k 1) d)"

section \<open>Initialisation\<close>

definition SystemInit :: "'d bus \<Rightarrow> 'd \<Rightarrow> 'd option" where
  "SystemInit bus d = do {
     let d = bus_write bus XOSC_CTRL 0xAA0 d;
     let d = reg_or bus XOSC_CTRL (push_bit 12 0xFAB) d;
     d \<leftarrow> wait_set bus XOSC_STATUS (push_bit 31 1) d;
     d \<leftarrow> unreset bus 12 d;
     let d = bus_write bus PLL_SYS_FBDIV_INT 100 d;
     let d = reg_and_not bus PLL_SYS_PWR (push_bit 0 1 OR push_bit 5 1) d;
     d \<leftarrow> wait_set bus PLL_SYS_CS (push_bit 31 1) d;
     let d = bus_write bus PLL_SYS_PRIM (push_bit 16 6 OR push_bit 12 1) d;
     let d = reg_and_not bus PLL_SYS_PWR (push_bit 3 1) d;
     let d = reg_or bus REF_CTRL (push_bit 0 2) d;
     d \<leftarrow> wait_set bus REF_SELECTED (push_bit 2 1) d;
     let d = reg_or bus SYS_CTRL (push_bit 0 1) d;
     d \<leftarrow> wait_set bus SYS_SELECTED (push_bit 1 1) d;
     let d = bus_write bus PERI_CTRL (push_bit 11 1) d;
     let d = reg_update bus ROSC_CTRL 0x00FFF000 (push_bit 12 0xD1E) d;
     let d = reg_or bus WATCHDOG_TICK (push_bit 0 12) d;
     d \<leftarrow> unreset bus 21 d;
     let d = reg_update bus SHPR2 (push_bit 0 0xFF) (push_bit 0 PRIORITY_0_HIGHEST) d;
     let d = reg_update bus SHPR3 (push_bit 24 0xFF) (push_bit 24 PRIORITY_2) d;
     let d = reg_update bus SHPR3 (push_bit 16 0xFF) (push_bit 16 PRIORITY_3_LOWEST) d;
     let d = bus_write bus SYST_RVR SYSTICK_RELOAD_VAL d;
     let d = bus_write bus SYST_CVR 0 d;
     Some (reg_or bus SYST_CSR (push_bit 2 1 OR push_bit 1 1 OR push_bit 0 1) d)
   }"

section \<open>The contract of the control registers\<close>

definition rw_bits :: "u32 \<Rightarrow> u32" where
  "rw_bits r =
     (if r = REF_CTRL then 0x63 else if r = SYS_CTRL then 0xE1 else if r = PERI_CTRL then 0xCE0
      else if r = XOSC_CTRL then 0xFFFFFF else if r = ROSC_CTRL then 0xFFFFFF
      else if r = PLL_SYS_PWR then 0x2D else if r = PLL_SYS_FBDIV_INT then 0xFFF else if r = PLL_SYS_PRIM then 0x77000
      else if r = WATCHDOG_TICK then 0x3FF else if r = RESETS_RESET then 0x1FFFFFF
      else if r = SHPR2 then 0xC0000000 else if r = SHPR3 then 0xC0C00000
      else if r = SYST_RVR then 0xFFFFFF else if r = SYST_CSR then 0x7 else 0)"

lemma rw_bits_simps [simp]:
  "rw_bits REF_CTRL = 0x63" "rw_bits SYS_CTRL = 0xE1" "rw_bits PERI_CTRL = 0xCE0" "rw_bits XOSC_CTRL = 0xFFFFFF"
  "rw_bits ROSC_CTRL = 0xFFFFFF" "rw_bits PLL_SYS_PWR = 0x2D" "rw_bits PLL_SYS_FBDIV_INT = 0xFFF" "rw_bits PLL_SYS_PRIM = 0x77000"
  "rw_bits WATCHDOG_TICK = 0x3FF" "rw_bits RESETS_RESET = 0x1FFFFFF" "rw_bits SHPR2 = 0xC0000000" "rw_bits SHPR3 = 0xC0C00000"
  "rw_bits SYST_RVR = 0xFFFFFF" "rw_bits SYST_CSR = 0x7" "rw_bits SYST_CVR = 0" "rw_bits XOSC_STATUS = 0"
  "rw_bits RESETS_RESET_DONE = 0" "rw_bits PLL_SYS_CS = 0" "rw_bits REF_SELECTED = 0" "rw_bits SYS_SELECTED = 0"
  by (simp_all add: rw_bits_def system_regs_neq)

text \<open>The crystal oscillator becomes stable once enabled; a peripheral reports when it is out of reset;
  the loop locks when it is out of reset, powered and has a divisor; a clock multiplexer reports the
  selected source.\<close>

definition settles :: "(u32 \<Rightarrow> u32) \<Rightarrow> u32 \<Rightarrow> nat \<Rightarrow> bool" where
  "settles g r k \<longleftrightarrow>
     (r = XOSC_STATUS \<and> k = 31 \<and> drop_bit 12 (g XOSC_CTRL) = 0xFAB) \<or>
     (r = RESETS_RESET_DONE \<and> k < 25 \<and> \<not> bit (g RESETS_RESET) k) \<or>
     (r = PLL_SYS_CS \<and> k = 31 \<and> \<not> bit (g RESETS_RESET) 12 \<and> \<not> bit (g PLL_SYS_PWR) 0 \<and>
        \<not> bit (g PLL_SYS_PWR) 5 \<and> g PLL_SYS_FBDIV_INT \<noteq> 0) \<or>
     (r = REF_SELECTED \<and> k = unat (g REF_CTRL AND 3)) \<or>
     (r = SYS_SELECTED \<and> k = unat (g SYS_CTRL AND 1))"

lemma and_exp_bit: "v AND push_bit k 1 \<noteq> 0 \<longleftrightarrow> bit (v :: u32) k"
  using and_exp_eq_0_iff_not_bit [of v k] by (simp add: push_bit_eq_mult)

lemma bit_and_not_exp: "bit (v AND NOT (push_bit k 1)) n \<longleftrightarrow> bit (v :: u32) n \<and> n \<noteq> k"
  using bit_imp_le_length [of v n] by (auto simp: bit_simps)

text \<open>The registers after \<open>SystemInit\<close>.\<close>

definition initialised :: "(u32 \<Rightarrow> u32) \<Rightarrow> u32 \<Rightarrow> u32" where
  "initialised g = g(XOSC_CTRL := 0xFABAA0, RESETS_RESET := g RESETS_RESET AND NOT 0x1000,
     PLL_SYS_FBDIV_INT := 100, PLL_SYS_PWR := g PLL_SYS_PWR AND NOT 0x21,
     PLL_SYS_PRIM := 0x61000, PLL_SYS_PWR := (g PLL_SYS_PWR AND NOT 0x21) AND NOT 8,
     REF_CTRL := g REF_CTRL OR 2, SYS_CTRL := g SYS_CTRL OR 1, PERI_CTRL := 0x800,
     ROSC_CTRL := (g ROSC_CTRL AND NOT 0xFFF000) OR 0xD1E000, WATCHDOG_TICK := g WATCHDOG_TICK OR 12,
     RESETS_RESET := (g RESETS_RESET AND NOT 0x1000) AND NOT 0x200000, SHPR2 := g SHPR2 AND NOT 0xFF,
     SHPR3 := ((g SHPR3 AND NOT 0xFF000000) OR 0x80000000) AND NOT 0xFF0000 OR 0xC00000,
     SYST_RVR := 1999999, SYST_CSR := g SYST_CSR OR 7)"

locale registers =
  fixes bus :: "'d bus"
    and reg :: "'d \<Rightarrow> u32 \<Rightarrow> u32"
    and lag :: "'d \<Rightarrow> u32 \<Rightarrow> nat"
  assumes rd: "rw_bits r \<noteq> 0 \<Longrightarrow> bus_read bus r d = (v, d') \<Longrightarrow> v AND rw_bits r = reg d r \<and> reg d' = reg d"
    and wr: "rw_bits r \<noteq> 0 \<Longrightarrow> reg (bus_write bus r v d) = (reg d)(r := v AND rw_bits r)"
    and clear_current: "reg (bus_write bus SYST_CVR v d) = reg d"
    and status: "settles (reg d) r k \<Longrightarrow> bus_read bus r d = (v, d') \<Longrightarrow>
      reg d' = reg d \<and> (bit v k \<or> lag d' r < lag d r)"
begin

lemma reg_masked: "rw_bits r \<noteq> 0 \<Longrightarrow> reg d r AND rw_bits r = reg d r"
proof -
  assume r: "rw_bits r \<noteq> 0"
  obtain v d' where "bus_read bus r d = (v, d')" by fastforce
  then show ?thesis using rd [OF r] by (metis and.assoc and.idem)
qed

lemma or_reg: "rw_bits r \<noteq> 0 \<Longrightarrow> reg (reg_or bus r b d) = (reg d)(r := reg d r OR (b AND rw_bits r))"
proof -
  assume r: "rw_bits r \<noteq> 0"
  obtain v d' where v: "bus_read bus r d = (v, d')" by fastforce
  note rd [OF r v]
  then show ?thesis using wr [OF r] by (simp add: reg_or_def v bit.conj_disj_distrib2)
qed

lemma update_reg:
  "rw_bits r \<noteq> 0 \<Longrightarrow> reg (reg_update bus r b v d) = (reg d)(r := (reg d r AND NOT b) OR (v AND rw_bits r))"
proof -
  assume r: "rw_bits r \<noteq> 0"
  obtain x d' where x: "bus_read bus r d = (x, d')" by fastforce
  have "(x AND NOT b) AND rw_bits r = reg d r AND NOT b" using rd [OF r x] by (metis and.assoc and.commute)
  then show ?thesis using wr [OF r] rd [OF r x] by (simp add: reg_update_def x bit.conj_disj_distrib2)
qed

lemma and_not_reg: "rw_bits r \<noteq> 0 \<Longrightarrow> reg (reg_and_not bus r b d) = (reg d)(r := reg d r AND NOT b)"
proof -
  assume r: "rw_bits r \<noteq> 0"
  have "reg_and_not bus r b d = reg_update bus r b 0 d" by (simp add: reg_and_not_def reg_update_def)
  then show ?thesis using update_reg [OF r] by simp
qed

lemma wait_settled:
  "settles (reg d) r k \<Longrightarrow> \<exists>d'. wait_set bus r (push_bit k 1) d = Some d' \<and> reg d' = reg d"
proof (induction "lag d r" arbitrary: d rule: less_induct)
  case less
  obtain v d1 where v: "bus_read bus r d = (v, d1)" by fastforce
  note st = status [OF less.prems v]
  have b: "v AND push_bit k 1 \<noteq> 0 \<longleftrightarrow> bit v k" by (rule and_exp_bit)
  show ?case
  proof (cases "bit v k")
    case True
    then show ?thesis using st b by (subst wait_set.simps) (simp add: v)
  next
    case False
    then have "wait_set bus r (push_bit k 1) d = wait_set bus r (push_bit k 1) d1"
      using b by (subst wait_set.simps) (simp add: v)
    then show ?thesis using less.hyps [of d1] st False less.prems by auto
  qed
qed

lemma unreset_spec:
  assumes "k < 25"
  shows "\<exists>d'. unreset bus k d = Some d' \<and>
    reg d' = (reg d)(RESETS_RESET := reg d RESETS_RESET AND NOT (push_bit k 1))"
proof -
  let ?d = "reg_and_not bus RESETS_RESET (push_bit k 1) d"
  have r: "reg ?d = (reg d)(RESETS_RESET := reg d RESETS_RESET AND NOT (push_bit k 1))"
    by (rule and_not_reg) (simp add: system_regs_neq)
  then have "\<not> bit (reg ?d RESETS_RESET) k" by (simp add: bit_simps)
  then have "settles (reg ?d) RESETS_RESET_DONE k" using assms by (simp add: settles_def)
  then show ?thesis using wait_settled [of ?d] r by (auto simp: unreset_def)
qed

lemma SystemInit_spec:
  assumes "\<not> bit (reg d REF_CTRL) 0"
  shows "\<exists>d'. SystemInit bus d = Some d' \<and> reg d' = initialised (reg d)"
proof -
  define d1 where "d1 = reg_or bus XOSC_CTRL (push_bit 12 0xFAB) (bus_write bus XOSC_CTRL 0xAA0 d)"
  have g1: "reg d1 = (reg d)(XOSC_CTRL := 0xFABAA0)"
    unfolding d1_def by (subst or_reg; simp add: wr system_regs_neq)
  have "settles (reg d1) XOSC_STATUS 31" unfolding g1 by (simp add: settles_def)
  then obtain d2 where d2: "wait_set bus XOSC_STATUS (push_bit 31 1) d1 = Some d2" "reg d2 = reg d1"
    using wait_settled by blast
  obtain d3 where d3: "unreset bus 12 d2 = Some d3"
    "reg d3 = (reg d2)(RESETS_RESET := reg d2 RESETS_RESET AND NOT (push_bit 12 1))" using unreset_spec [of 12 d2] by auto
  define d4 where "d4 = reg_and_not bus PLL_SYS_PWR (push_bit 0 1 OR push_bit 5 1) (bus_write bus PLL_SYS_FBDIV_INT 100 d3)"
  have g4: "reg d4 = (reg d3)(PLL_SYS_FBDIV_INT := 100, PLL_SYS_PWR := reg d3 PLL_SYS_PWR AND NOT 0x21)"
    unfolding d4_def by (subst and_not_reg; simp add: wr system_regs_neq)
  have "settles (reg d4) PLL_SYS_CS 31" unfolding g4 d3(2) by (simp add: settles_def bit_simps system_regs_neq)
  then obtain d5 where d5: "wait_set bus PLL_SYS_CS (push_bit 31 1) d4 = Some d5" "reg d5 = reg d4"
    using wait_settled by blast
  define d6 where "d6 = reg_or bus REF_CTRL (push_bit 0 2) (reg_and_not bus PLL_SYS_PWR (push_bit 3 1)
    (bus_write bus PLL_SYS_PRIM (push_bit 16 6 OR push_bit 12 1) d5))"
  have g6: "reg d6 = (reg d5)(PLL_SYS_PRIM := 0x61000, PLL_SYS_PWR := reg d5 PLL_SYS_PWR AND NOT 8,
      REF_CTRL := reg d5 REF_CTRL OR 2)"
    unfolding d6_def by (subst or_reg; simp add: and_not_reg wr system_regs_neq)
  have "(x OR 2) AND 3 = 2" if "\<not> bit x 0" for x :: u32
    using that by (intro bit_word_eqI) (auto simp: bit_simps bit_numeral_rec split: nat.splits)
  then have "unat (reg d6 REF_CTRL AND 3) = 2"
    using assms unfolding g6 d5(2) g4 d3(2) d2(2) g1 by (simp add: system_regs_neq)
  then have "settles (reg d6) REF_SELECTED 2" by (simp add: settles_def)
  then obtain d7 where d7: "wait_set bus REF_SELECTED (push_bit 2 1) d6 = Some d7" "reg d7 = reg d6"
    using wait_settled by blast
  define d8 where "d8 = reg_or bus SYS_CTRL (push_bit 0 1) d7"
  have g8: "reg d8 = (reg d7)(SYS_CTRL := reg d7 SYS_CTRL OR 1)"
    unfolding d8_def by (subst or_reg; simp add: system_regs_neq)
  have "unat (reg d8 SYS_CTRL AND 1) = 1" unfolding g8 by (simp add: bit.conj_disj_distrib2)
  then have "settles (reg d8) SYS_SELECTED 1" by (simp add: settles_def)
  then obtain d9 where d9: "wait_set bus SYS_SELECTED (push_bit 1 1) d8 = Some d9" "reg d9 = reg d8"
    using wait_settled by blast
  define d10 where "d10 = reg_or bus WATCHDOG_TICK (push_bit 0 12)
    (reg_update bus ROSC_CTRL 0x00FFF000 (push_bit 12 0xD1E) (bus_write bus PERI_CTRL (push_bit 11 1) d9))"
  have g10: "reg d10 = (reg d9)(PERI_CTRL := 0x800, ROSC_CTRL := (reg d9 ROSC_CTRL AND NOT 0xFFF000) OR 0xD1E000,
      WATCHDOG_TICK := reg d9 WATCHDOG_TICK OR 12)"
    unfolding d10_def by (subst or_reg; simp add: update_reg wr system_regs_neq)
  obtain d11 where d11: "unreset bus 21 d10 = Some d11"
    "reg d11 = (reg d10)(RESETS_RESET := reg d10 RESETS_RESET AND NOT (push_bit 21 1))" using unreset_spec [of 21 d10] by auto
  define d12 where "d12 = reg_or bus SYST_CSR (push_bit 2 1 OR push_bit 1 1 OR push_bit 0 1)
    (bus_write bus SYST_CVR 0 (bus_write bus SYST_RVR SYSTICK_RELOAD_VAL
      (reg_update bus SHPR3 (push_bit 16 0xFF) (push_bit 16 PRIORITY_3_LOWEST)
        (reg_update bus SHPR3 (push_bit 24 0xFF) (push_bit 24 PRIORITY_2)
          (reg_update bus SHPR2 (push_bit 0 0xFF) (push_bit 0 PRIORITY_0_HIGHEST) d11)))))"
  have g12: "reg d12 = (reg d11)(SHPR2 := reg d11 SHPR2 AND NOT 0xFF,
      SHPR3 := ((reg d11 SHPR3 AND NOT 0xFF000000) OR 0x80000000) AND NOT 0xFF0000 OR 0xC00000,
      SYST_RVR := 1999999, SYST_CSR := reg d11 SYST_CSR OR 7)"
    unfolding d12_def by (subst or_reg; simp add: update_reg wr clear_current system_regs_neq
      PRIORITY_0_HIGHEST_def PRIORITY_2_def PRIORITY_3_LOWEST_def SYSTICK_RELOAD_VAL_def CLK_SYS_HZ_def)
  have "SystemInit bus d = Some d12"
    unfolding SystemInit_def Let_def
    using d2(1) d3(1) d5(1) d7(1) d9(1) d11(1) unfolding d1_def d4_def d6_def d8_def d10_def d12_def by simp
  moreover have "reg d12 = initialised (reg d)"
    unfolding g12 d11(2) g10 d9(2) g8 d7(2) g6 d5(2) g4 d3(2) d2(2) g1 initialised_def
    by (simp add: system_regs_neq)
  ultimately show ?thesis by blast
qed

end

section \<open>Two views of the registers\<close>

text \<open>The registers \<open>SystemInit\<close> uses.\<close>

definition control_regs :: "u32 set" where
  "control_regs = {r. rw_bits r \<noteq> 0} \<union>
     {SYST_CVR, XOSC_STATUS, RESETS_RESET_DONE, PLL_SYS_CS, REF_SELECTED, SYS_SELECTED}"

lemma in_control_regs [simp]:
  "rw_bits r \<noteq> 0 \<Longrightarrow> r \<in> control_regs" "SYST_CVR \<in> control_regs" "XOSC_STATUS \<in> control_regs"
  "RESETS_RESET_DONE \<in> control_regs" "PLL_SYS_CS \<in> control_regs" "REF_SELECTED \<in> control_regs" "SYS_SELECTED \<in> control_regs"
  by (simp_all add: control_regs_def)

text \<open>A second bus on which the accesses to these registers do the same: what \<open>SystemInit\<close> does on the first bus it
  does on the second.  (With the same bus twice, \<open>R\<close> is what the accesses keep.)\<close>

locale register_view =
  fixes b1 :: "'d bus" and b2 :: "'e bus" and R :: "'d \<Rightarrow> 'e \<Rightarrow> bool"
  assumes same_read: "\<lbrakk>r \<in> control_regs; R d e; bus_read b1 r d = (v, d'); bus_read b2 r e = (u, e')\<rbrakk> \<Longrightarrow> u = v \<and> R d' e'"
    and same_write: "\<lbrakk>r \<in> control_regs; R d e\<rbrakk> \<Longrightarrow> R (bus_write b1 r v d) (bus_write b2 r v e)"
begin

lemma same_reg_update: "r \<in> control_regs \<Longrightarrow> R d e \<Longrightarrow> R (reg_update b1 r b v d) (reg_update b2 r b v e)"
  unfolding reg_update_def
  using same_read [of r d e] same_write [of r] by (fastforce split: prod.splits)

lemma same_reg_and_not: "r \<in> control_regs \<Longrightarrow> R d e \<Longrightarrow> R (reg_and_not b1 r b d) (reg_and_not b2 r b e)"
  using same_reg_update [of r d e b 0] by (simp add: reg_and_not_def reg_update_def)

lemma same_reg_or: "r \<in> control_regs \<Longrightarrow> R d e \<Longrightarrow> R (reg_or b1 r b d) (reg_or b2 r b e)"
  using same_reg_update [of r d e 0 b] by (simp add: reg_or_def reg_update_def)

definition sim :: "'d option \<Rightarrow> 'e option \<Rightarrow> bool" where
  "sim x y \<longleftrightarrow> (\<forall>d'. x = Some d' \<longrightarrow> (\<exists>e'. y = Some e' \<and> R d' e'))"

lemma sim_Some: "R d e \<Longrightarrow> sim (Some d) (Some e)"
  by (simp add: sim_def)

lemma sim_bind: "sim x y \<Longrightarrow> (\<And>d e. R d e \<Longrightarrow> sim (f d) (g e)) \<Longrightarrow> sim (x \<bind> f) (y \<bind> g)"
  unfolding sim_def by (cases x) fastforce+

lemma sim_wait:
  assumes "r \<in> control_regs" "R d e"
  shows "sim (wait_set b1 r b d) (wait_set b2 r b e)"
proof -
  have "x = b1 \<and> q = r \<longrightarrow> (\<forall>e. R d e \<longrightarrow> (\<exists>e'. wait_set b2 q k e = Some e' \<and> R d' e'))" if "wait_set x q k d = Some d'" for x q k d d'
    using that
  proof (rule wait_set.raw_induct [where P = "\<lambda>x q k d d'. x = b1 \<and> q = r \<longrightarrow>
      (\<forall>e. R d e \<longrightarrow> (\<exists>e'. wait_set b2 q k e = Some e' \<and> R d' e'))", rotated], goal_cases)
    case (1 f x q k d d')
    show ?case
    proof (intro impI allI)
      fix e assume q: "x = b1 \<and> q = r" and R: "R d e"
      obtain v d1 where v: "bus_read b1 r d = (v, d1)" by fastforce
      obtain u e1 where u: "bus_read b2 r e = (u, e1)" by fastforce
      have s: "u = v" "R d1 e1" using same_read [OF assms(1) R v u] by auto
      show "\<exists>e'. wait_set b2 q k e = Some e' \<and> R d' e'"
      proof (cases "v AND k = 0")
        case True
        then have "f x r k d1 = Some d'" using 1(2) q v by simp
        then show ?thesis using 1(1) s q True u by (subst wait_set.simps) (simp add: u)
      next
        case False
        then show ?thesis using 1(2) q s v by (subst wait_set.simps) (simp add: u)
      qed
    qed
  qed
  then show ?thesis using assms(2) by (simp add: sim_def)
qed

lemma sim_unreset: "R d e \<Longrightarrow> sim (unreset b1 k d) (unreset b2 k e)"
  unfolding unreset_def by (intro sim_wait same_reg_and_not) simp_all

lemmas sim_rules = sim_bind sim_Some sim_wait sim_unreset same_write same_reg_or same_reg_and_not same_reg_update

lemma sim_SystemInit: "R d e \<Longrightarrow> sim (SystemInit b1 d) (SystemInit b2 e)"
  unfolding SystemInit_def Let_def by (rule sim_rules | assumption | simp)+

end

section \<open>A register file to compute with\<close>

text \<open>Every status bit comes up at the third poll.\<close>

record reg_file =
  rf_reg :: "u32 \<Rightarrow> u32"
  rf_lag :: "u32 \<Rightarrow> nat"

definition status_regs :: "u32 list" where
  "status_regs = [XOSC_STATUS, RESETS_RESET_DONE, PLL_SYS_CS, REF_SELECTED, SYS_SELECTED]"

definition rf_content :: "reg_file \<Rightarrow> u32 \<Rightarrow> u32" where
  "rf_content d r = rf_reg d r AND rw_bits r"

definition rf_read :: "u32 \<Rightarrow> reg_file \<Rightarrow> u32 \<times> reg_file" where
  "rf_read r d =
     (if r \<in> set status_regs then
        (if rf_lag d r = 0 then (horner_sum of_bool 2 (map (settles (rf_content d) r) [0..<32]), d)
         else (0, d\<lparr>rf_lag := (rf_lag d)(r := rf_lag d r - 1)\<rparr>))
      else (rf_content d r, d))"

definition rf_write :: "u32 \<Rightarrow> u32 \<Rightarrow> reg_file \<Rightarrow> reg_file" where
  "rf_write r v d =
     (if rw_bits r = 0 then d else d\<lparr>rf_reg := (rf_reg d)(r := v AND rw_bits r), rf_lag := \<lambda>_. 2\<rparr>)"

definition rf_bus :: "reg_file bus" where
  "rf_bus = \<lparr>bus_read = rf_read, bus_write = rf_write\<rparr>"

lemma settles_status: "settles g r k \<Longrightarrow> r \<in> set status_regs \<and> k < 32"
proof -
  have "x AND 3 \<le> 3" "x AND 1 \<le> 1" for x :: u32 by (simp_all add: word_and_le1)
  then have "unat (x AND 3) < 32" "unat (x AND 1) < 32" for x :: u32
    unfolding word_le_nat_alt using le_less_trans [of "unat (x AND 3)" 3 32] le_less_trans [of "unat (x AND 1)" 1 32]
    by simp_all
  then show "settles g r k \<Longrightarrow> r \<in> set status_regs \<and> k < 32"
    by (auto simp: settles_def status_regs_def)
qed

lemma status_not_rw: "r \<in> set status_regs \<Longrightarrow> rw_bits r = 0"
  by (auto simp: status_regs_def system_regs_neq)

lemma rf_status_bit:
  "k < 32 \<Longrightarrow> bit (horner_sum of_bool 2 (map f [0..<32]) :: u32) k = f k"
  by (simp add: bit_simps)

interpretation rf: registers rf_bus rf_content rf_lag
proof
  show "v AND rw_bits r = rf_content d r \<and> rf_content d' = rf_content d"
    if "rw_bits r \<noteq> 0" "bus_read rf_bus r d = (v, d')" for r d v d'
  proof -
    have "r \<notin> set status_regs" using that(1) status_not_rw by blast
    then show ?thesis using that by (auto simp: rf_bus_def rf_read_def rf_content_def and.assoc)
  qed
  show "rf_content (bus_write rf_bus r v d) = (rf_content d)(r := v AND rw_bits r)" if "rw_bits r \<noteq> 0" for r v d
    using that by (auto simp: rf_bus_def rf_write_def rf_content_def and.assoc)
  show "rf_content (bus_write rf_bus SYST_CVR v d) = rf_content d" for v d
    by (simp add: rf_bus_def rf_write_def system_regs_neq)
  show "rf_content d' = rf_content d \<and> (bit v k \<or> rf_lag d' r < rf_lag d r)"
    if "settles (rf_content d) r k" "bus_read rf_bus r d = (v, d')" for d r k v d'
    using that settles_status [OF that(1)] rf_status_bit [of k "settles (rf_content d) r"]
    by (auto simp: rf_bus_def rf_read_def rf_content_def fun_eq_iff split: if_splits)
qed

section \<open>Properties\<close>

text \<open>What the registers say about the clocks: the system clock when it comes from the loop (with a
  reference divider of 1), the rate of the timer tick and the rate of the SysTick exception.\<close>

definition sys_hz :: "(u32 \<Rightarrow> u32) \<Rightarrow> nat option" where
  "sys_hz g =
     (if drop_bit 12 (g XOSC_CTRL) = 0xFAB \<and> g SYS_CTRL AND 0xE1 = 1 \<and> \<not> bit (g RESETS_RESET) 12 \<and>
         g PLL_SYS_PWR AND 0x29 = 0
      then Some (unat XOSC_HZ * unat (g PLL_SYS_FBDIV_INT) div
        (unat (drop_bit 16 (g PLL_SYS_PRIM) AND 7) * unat (drop_bit 12 (g PLL_SYS_PRIM) AND 7)))
      else None)"

text \<open>The microseconds between two SysTick exceptions, when the counter runs from the system clock and its exception is
  enabled.\<close>

definition tick_us :: "(u32 \<Rightarrow> u32) \<Rightarrow> nat option" where
  "tick_us g = (if g SYST_CSR AND 7 = 7 then map_option (\<lambda>hz. (unat (g SYST_RVR) + 1) * 1000000 div hz) (sys_hz g) else None)"

text \<open>What \<open>initialised\<close> leaves of the clocks, from the reset state; the release of other peripherals keeps it.\<close>

lemma initialised_hz:
  assumes "g REF_CTRL = 0" "g SYS_CTRL = 0"
  shows "sys_hz (initialised g) = Some (unat CLK_SYS_HZ)"
  by (simp add: sys_hz_def initialised_def system_regs_neq assms CLK_SYS_HZ_def XOSC_HZ_def and.assoc bit_simps)

lemma tick_us_cong:
  assumes "\<And>r. r \<noteq> RESETS_RESET \<Longrightarrow> g' r = g r" "bit (g' RESETS_RESET) 12 = bit (g RESETS_RESET) 12"
  shows "tick_us g' = tick_us g"
  using assms(1) [of XOSC_CTRL] assms(1) [of SYS_CTRL] assms(1) [of PLL_SYS_PWR] assms(1) [of PLL_SYS_FBDIV_INT]
    assms(1) [of PLL_SYS_PRIM] assms(1) [of SYST_CSR] assms(1) [of SYST_RVR] assms(2)
  by (simp add: tick_us_def sys_hz_def system_regs_neq)

lemma initialised_tick:
  assumes "g REF_CTRL = 0" "g SYS_CTRL = 0"
  shows "tick_us (initialised g) = Some 10000"
proof -
  have "(x OR 7) AND 7 = 7" for x :: u32 by (rule bit_word_eqI) (auto simp: bit_or_iff bit_and_iff)
  then show ?thesis using initialised_hz [OF assms] by (simp add: tick_us_def initialised_def system_regs_neq CLK_SYS_HZ_def)
qed

text \<open>C19. \<open>SystemInit\<close> returns, whatever the number of polls the oscillator, the loop and the multiplexers
  need.  From the reset state it leaves a system clock of exactly \<open>CLK_SYS_HZ\<close>, releases the loop and the
  timer from reset and nothing else, and enables the SysTick exception a hundred times a second at the
  third priority, above PendSV.  Its write for the priority of SVC misses the field: the register
  keeps its content.\<close>

theorem system_init_clocks:
  assumes "registers bus reg lag" "reg d REF_CTRL = 0" "reg d SYS_CTRL = 0"
  shows "\<exists>d'. SystemInit bus d = Some d' \<and> sys_hz (reg d') = Some (unat CLK_SYS_HZ) \<and>
    (\<forall>k. bit (reg d' RESETS_RESET) k \<longleftrightarrow> bit (reg d RESETS_RESET) k \<and> k \<noteq> 12 \<and> k \<noteq> 21) \<and>
    (unat (reg d' SYST_RVR) + 1) * 100 = unat CLK_SYS_HZ \<and> reg d' SYST_CSR = 7 \<and>
    reg d' SHPR3 = 0x80C00000 \<and> reg d' SHPR2 = reg d SHPR2"
proof -
  obtain d' where d': "SystemInit bus d = Some d'" "reg d' = initialised (reg d)"
    using registers.SystemInit_spec [OF assms(1), of d] assms(2) by auto
  have m: "reg d r AND rw_bits r = reg d r" if "rw_bits r \<noteq> 0" for r
    using registers.reg_masked [OF assms(1) that] .
  have csr: "reg d SYST_CSR AND 7 = reg d SYST_CSR" and s3: "reg d SHPR3 AND 0xC0C00000 = reg d SHPR3"
    and s2: "reg d SHPR2 AND 0xC0000000 = reg d SHPR2" using m [of SYST_CSR] m [of SHPR3] m [of SHPR2] by simp_all
  have "reg d SYST_CSR OR 7 = 7" by (subst csr [symmetric], rule bit_word_eqI) (auto simp: bit_or_iff bit_and_iff)
  moreover have "((reg d SHPR3 AND NOT 0xFF000000) OR 0x80000000) AND NOT 0xFF0000 OR 0xC00000 = 0x80C00000"
    by (subst s3 [symmetric]) (simp add: bit.conj_disj_distrib2 and.assoc)
  moreover have "reg d SHPR2 AND NOT 0xFF = reg d SHPR2"
    by (subst (1 2) s2 [symmetric]) (simp add: and.assoc)
  moreover have "sys_hz (initialised (reg d)) = Some (unat CLK_SYS_HZ)" using assms(2,3) by (rule initialised_hz)
  moreover have "bit (initialised (reg d) RESETS_RESET) k \<longleftrightarrow> bit (reg d RESETS_RESET) k \<and> k \<noteq> 12 \<and> k \<noteq> 21" for k
  proof -
    have "initialised (reg d) RESETS_RESET = (reg d RESETS_RESET AND NOT (push_bit 12 1)) AND NOT (push_bit 21 1)"
      by (simp add: initialised_def system_regs_neq)
    then show ?thesis by (simp only: bit_and_not_exp) auto
  qed
  ultimately show ?thesis using d' by (simp add: initialised_def system_regs_neq CLK_SYS_HZ_def)
qed

definition reg_file0 :: reg_file where
  "reg_file0 = \<lparr>rf_reg = (\<lambda>_. 0)(RESETS_RESET := 0x1FFFFFF, PLL_SYS_PWR := 0x2D), rf_lag = \<lambda>_. 7\<rparr>"

theorem system_init_clocks_witness:
  "\<exists>d'. SystemInit rf_bus reg_file0 = Some d' \<and> sys_hz (rf_content d') = Some 200000000 \<and>
     rf_content d' SYST_CSR = 7"
  using system_init_clocks [OF rf.registers_axioms, of reg_file0]
  by (auto simp: reg_file0_def rf_content_def system_regs_neq CLK_SYS_HZ_def)

end
