(* ===== verification/Dma.thy ===== *)
theory Dma
  imports Console Memory
begin

unbundle bit_operations_syntax

text \<open>
  The DMA driver, \<open>src/src/driver/dma/dma.c\<close> over the registers of \<open>hardware_structs/dma_channels.h\<close>,
  and \<open>libc/src/string/memcpy.c\<close>, which is a DMA transfer.  The contract \<open>dma_channel\<close>: a channel
  that is busy has some outstanding work, which shrinks with every poll; \<open>final\<close> is what the
  memory will be when it is done.  It binds only a channel that is \<open>live\<close>, that is, out of reset; the
  contract \<open>held_dma\<close> says what one does that is held in reset.
\<close>

section \<open>Configuration words\<close>

definition DMA_BASE :: u32 where "DMA_BASE = 0x50000000"
definition DMA_CTRL_EN :: u32 where "DMA_CTRL_EN = 1"
definition DMA_CTRL_DATA_SIZE_1BYTE :: u32 where "DMA_CTRL_DATA_SIZE_1BYTE = 0"
definition DMA_CTRL_INCR_READ :: u32 where "DMA_CTRL_INCR_READ = push_bit 4 1"
definition DMA_CTRL_INCR_WRITE :: u32 where "DMA_CTRL_INCR_WRITE = push_bit 5 1"
definition DMA_CTRL_RING_SEL :: u32 where "DMA_CTRL_RING_SEL = push_bit 10 1"
definition DMA_CTRL_BUSY :: u32 where "DMA_CTRL_BUSY = push_bit 24 1"
definition DMA_TREQ_PERMANENT :: u32 where "DMA_TREQ_PERMANENT = 0x3F"

definition DMA_CTRL_CHAIN_TO :: "u32 \<Rightarrow> u32" where "DMA_CTRL_CHAIN_TO x = push_bit 11 x"
definition DMA_CTRL_TREQ_SEL :: "u32 \<Rightarrow> u32" where "DMA_CTRL_TREQ_SEL x = push_bit 15 x"

type_synonym dma_channel_config_t = u32

definition dma_get_default_config :: "u8 \<Rightarrow> dma_channel_config_t" where
  "dma_get_default_config channel =
     DMA_CTRL_DATA_SIZE_1BYTE OR DMA_CTRL_INCR_READ OR DMA_CTRL_INCR_WRITE OR
     DMA_CTRL_CHAIN_TO (ucast channel) OR DMA_CTRL_TREQ_SEL DMA_TREQ_PERMANENT"

definition dma_config_set_data_size :: "dma_channel_config_t \<Rightarrow> u8 \<Rightarrow> dma_channel_config_t" where
  "dma_config_set_data_size config sz =
     (config AND NOT (push_bit 2 3)) OR push_bit 2 (ucast sz AND 3)"

definition dma_config_set_read_increment :: "dma_channel_config_t \<Rightarrow> bool \<Rightarrow> dma_channel_config_t" where
  "dma_config_set_read_increment config enable =
     (config AND NOT DMA_CTRL_INCR_READ) OR (if enable then DMA_CTRL_INCR_READ else 0)"

definition dma_config_set_write_increment :: "dma_channel_config_t \<Rightarrow> bool \<Rightarrow> dma_channel_config_t" where
  "dma_config_set_write_increment config enable =
     (config AND NOT DMA_CTRL_INCR_WRITE) OR (if enable then DMA_CTRL_INCR_WRITE else 0)"

definition dma_config_set_chain :: "dma_channel_config_t \<Rightarrow> u8 \<Rightarrow> dma_channel_config_t" where
  "dma_config_set_chain config channel =
     (config AND NOT (push_bit 11 15)) OR push_bit 11 (ucast channel AND 15)"

definition dma_config_set_treq :: "dma_channel_config_t \<Rightarrow> u8 \<Rightarrow> dma_channel_config_t" where
  "dma_config_set_treq config treq =
     (config AND NOT (push_bit 15 63)) OR push_bit 15 (ucast treq AND 63)"

definition dma_config_set_ring :: "dma_channel_config_t \<Rightarrow> bool \<Rightarrow> u8 \<Rightarrow> dma_channel_config_t" where
  "dma_config_set_ring config wr expo =
     (let config = (config AND NOT (push_bit 6 15)) OR push_bit 6 (ucast expo AND 15)
      in (config AND NOT DMA_CTRL_RING_SEL) OR (if wr then DMA_CTRL_RING_SEL else 0))"

text \<open>The transfer requests a channel can be paced by, with their numbers; \<open>DMA_TREQ_PERMANENT\<close> is the unpaced one.\<close>

datatype dma_treq =
  DMA_DREQ_PIO0_TX0 | DMA_DREQ_PIO0_TX1 | DMA_DREQ_PIO0_TX2 | DMA_DREQ_PIO0_TX3 | DMA_DREQ_PIO0_RX0
  | DMA_DREQ_PIO0_RX1 | DMA_DREQ_PIO0_RX2 | DMA_DREQ_PIO0_RX3 | DMA_DREQ_PIO1_TX0 | DMA_DREQ_PIO1_TX1
  | DMA_DREQ_PIO1_TX2 | DMA_DREQ_PIO1_TX3 | DMA_DREQ_PIO1_RX0 | DMA_DREQ_PIO1_RX1 | DMA_DREQ_PIO1_RX2
  | DMA_DREQ_PIO1_RX3 | DMA_DREQ_SPI0_TX | DMA_DREQ_SPI0_RX | DMA_DREQ_SPI1_TX | DMA_DREQ_SPI1_RX
  | DMA_DREQ_UART0_TX | DMA_DREQ_UART0_RX | DMA_DREQ_UART1_TX | DMA_DREQ_UART1_RX | DMA_DREQ_PWM_WRAP0
  | DMA_DREQ_PWM_WRAP1 | DMA_DREQ_PWM_WRAP2 | DMA_DREQ_PWM_WRAP3 | DMA_DREQ_PWM_WRAP4 | DMA_DREQ_PWM_WRAP5
  | DMA_DREQ_PWM_WRAP6 | DMA_DREQ_PWM_WRAP7 | DMA_DREQ_I2C0_TX | DMA_DREQ_I2C0_RX | DMA_DREQ_I2C1_TX
  | DMA_DREQ_I2C1_RX | DMA_DREQ_ADC | DMA_DREQ_XIP_STREAM | DMA_DREQ_XIP_SSITX | DMA_DREQ_XIP_SSIRX
  | DMA_TREQ_TIMER0 | DMA_TREQ_TIMER1 | DMA_TREQ_TIMER2 | DMA_TREQ_TIMER3

primrec treq_number :: "dma_treq \<Rightarrow> u8" where
  "treq_number DMA_DREQ_PIO0_TX0 = 0"
| "treq_number DMA_DREQ_PIO0_TX1 = 1"
| "treq_number DMA_DREQ_PIO0_TX2 = 2"
| "treq_number DMA_DREQ_PIO0_TX3 = 3"
| "treq_number DMA_DREQ_PIO0_RX0 = 4"
| "treq_number DMA_DREQ_PIO0_RX1 = 5"
| "treq_number DMA_DREQ_PIO0_RX2 = 6"
| "treq_number DMA_DREQ_PIO0_RX3 = 7"
| "treq_number DMA_DREQ_PIO1_TX0 = 8"
| "treq_number DMA_DREQ_PIO1_TX1 = 9"
| "treq_number DMA_DREQ_PIO1_TX2 = 10"
| "treq_number DMA_DREQ_PIO1_TX3 = 11"
| "treq_number DMA_DREQ_PIO1_RX0 = 12"
| "treq_number DMA_DREQ_PIO1_RX1 = 13"
| "treq_number DMA_DREQ_PIO1_RX2 = 14"
| "treq_number DMA_DREQ_PIO1_RX3 = 15"
| "treq_number DMA_DREQ_SPI0_TX = 16"
| "treq_number DMA_DREQ_SPI0_RX = 17"
| "treq_number DMA_DREQ_SPI1_TX = 18"
| "treq_number DMA_DREQ_SPI1_RX = 19"
| "treq_number DMA_DREQ_UART0_TX = 20"
| "treq_number DMA_DREQ_UART0_RX = 21"
| "treq_number DMA_DREQ_UART1_TX = 22"
| "treq_number DMA_DREQ_UART1_RX = 23"
| "treq_number DMA_DREQ_PWM_WRAP0 = 24"
| "treq_number DMA_DREQ_PWM_WRAP1 = 25"
| "treq_number DMA_DREQ_PWM_WRAP2 = 26"
| "treq_number DMA_DREQ_PWM_WRAP3 = 27"
| "treq_number DMA_DREQ_PWM_WRAP4 = 28"
| "treq_number DMA_DREQ_PWM_WRAP5 = 29"
| "treq_number DMA_DREQ_PWM_WRAP6 = 30"
| "treq_number DMA_DREQ_PWM_WRAP7 = 31"
| "treq_number DMA_DREQ_I2C0_TX = 32"
| "treq_number DMA_DREQ_I2C0_RX = 33"
| "treq_number DMA_DREQ_I2C1_TX = 34"
| "treq_number DMA_DREQ_I2C1_RX = 35"
| "treq_number DMA_DREQ_ADC = 36"
| "treq_number DMA_DREQ_XIP_STREAM = 37"
| "treq_number DMA_DREQ_XIP_SSITX = 38"
| "treq_number DMA_DREQ_XIP_SSIRX = 39"
| "treq_number DMA_TREQ_TIMER0 = 0x3B"
| "treq_number DMA_TREQ_TIMER1 = 0x3C"
| "treq_number DMA_TREQ_TIMER2 = 0x3D"
| "treq_number DMA_TREQ_TIMER3 = 0x3E"

text \<open>The sizes of a transfer, and the number of bytes each stands for.\<close>

datatype dma_size = DMA_SIZE_8BIT | DMA_SIZE_16BIT | DMA_SIZE_32BIT

primrec size_number :: "dma_size \<Rightarrow> u8" where
  "size_number DMA_SIZE_8BIT = 0"
| "size_number DMA_SIZE_16BIT = 1"
| "size_number DMA_SIZE_32BIT = 2"

section \<open>Transfers\<close>

text \<open>The registers of a channel: \<open>al0\<close> at the start of its 64 bytes, \<open>al1\<close> at 16.\<close>

definition al0_READ_ADDR :: "u8 \<Rightarrow> u32" where "al0_READ_ADDR ch = DMA_BASE + 64 * ucast ch"
definition al0_WRITE_ADDR :: "u8 \<Rightarrow> u32" where "al0_WRITE_ADDR ch = DMA_BASE + 64 * ucast ch + 4"
definition al0_TRANS_COUNT :: "u8 \<Rightarrow> u32" where "al0_TRANS_COUNT ch = DMA_BASE + 64 * ucast ch + 8"
definition al0_CTRL_TRIG :: "u8 \<Rightarrow> u32" where "al0_CTRL_TRIG ch = DMA_BASE + 64 * ucast ch + 12"
definition al1_CTRL :: "u8 \<Rightarrow> u32" where "al1_CTRL ch = DMA_BASE + 64 * ucast ch + 16"
definition dma_chann_trig :: u32 where "dma_chann_trig = DMA_BASE + 0x430"

definition dma_channel_busy :: "'d bus \<Rightarrow> u8 \<Rightarrow> 'd \<Rightarrow> bool \<times> 'd" where
  "dma_channel_busy bus channel d =
     (let (v, d') = bus_read bus (al1_CTRL channel) d in (v AND DMA_CTRL_BUSY \<noteq> 0, d'))"

partial_function (option) dma_transfer_await :: "'d bus \<Rightarrow> u8 \<Rightarrow> 'd \<Rightarrow> 'd option" where
  "dma_transfer_await bus channel d =
     (let (busy, d1) = dma_channel_busy bus channel d in
      if busy then do {
        (_, d2) \<leftarrow> usleep bus 1000 d1;
        dma_transfer_await bus channel d2
      }
      else Some d1)"

declare dma_transfer_await.simps [code]

definition dma_channel_configure ::
  "'d bus \<Rightarrow> u8 \<Rightarrow> dma_channel_config_t \<Rightarrow> u32 \<Rightarrow> u32 \<Rightarrow> u32 \<Rightarrow> bool \<Rightarrow> 'd \<Rightarrow> 'd option" where
  "dma_channel_configure bus channel config src dst n start d = do {
     d \<leftarrow> dma_transfer_await bus channel d;
     let d = bus_write bus (al0_READ_ADDR channel) src d;
     let d = bus_write bus (al0_WRITE_ADDR channel) dst d;
     let d = bus_write bus (al0_TRANS_COUNT channel) n d;
     Some (if start then bus_write bus (al0_CTRL_TRIG channel) (config OR DMA_CTRL_EN) d
           else bus_write bus (al1_CTRL channel) (config OR DMA_CTRL_EN) d)
   }"

definition dma_channel_start :: "'d bus \<Rightarrow> u8 \<Rightarrow> 'd \<Rightarrow> 'd" where
  "dma_channel_start bus channel d = bus_write bus dma_chann_trig (push_bit (unat (channel AND 15)) 1) d"

definition dma_transfer_start :: "'d bus \<Rightarrow> u32 \<Rightarrow> u32 \<Rightarrow> u32 \<Rightarrow> u8 \<Rightarrow> 'd \<Rightarrow> 'd option" where
  "dma_transfer_start bus src dst n channel d = do {
     d \<leftarrow> dma_transfer_await bus channel d;
     let config = DMA_CTRL_DATA_SIZE_1BYTE OR DMA_CTRL_INCR_READ OR DMA_CTRL_INCR_WRITE OR
           DMA_CTRL_CHAIN_TO (ucast channel) OR DMA_CTRL_TREQ_SEL DMA_TREQ_PERMANENT;
     dma_channel_configure bus channel config src dst n True d
   }"

definition memcpy :: "'d bus \<Rightarrow> u32 \<Rightarrow> u32 \<Rightarrow> u32 \<Rightarrow> 'd \<Rightarrow> (u32 \<times> 'd) option" where
  "memcpy bus destination source num d = do {
     d \<leftarrow> dma_transfer_start bus source destination num 0 d;
     d \<leftarrow> dma_transfer_await bus 0 d;
     Some (destination, d)
   }"

section \<open>The contract of a channel\<close>

text \<open>A control word for an unpaced copy of single bytes, both addresses counting up, that does
  not chain to another channel, swap bytes or feed the sniffer.\<close>

definition plain_copy :: "u8 \<Rightarrow> u32 \<Rightarrow> bool" where
  "plain_copy ch v \<longleftrightarrow> bit v 0 \<and> \<not> bit v 2 \<and> \<not> bit v 3 \<and> bit v 4 \<and> bit v 5 \<and> drop_bit 6 v AND 15 = 0 \<and>
     drop_bit 11 v AND 15 = ucast ch \<and> drop_bit 15 v AND 63 = 63 \<and> \<not> bit v 22 \<and> \<not> bit v 23"

definition blit :: "mem \<Rightarrow> u32 \<Rightarrow> u32 \<Rightarrow> u32 \<Rightarrow> mem" where
  "blit m src dst n = (\<lambda>x. if x - dst < n then m (src + (x - dst)) else m x)"

definition no_overlap :: "u32 \<Rightarrow> u32 \<Rightarrow> u32 \<Rightarrow> bool" where
  "no_overlap p q n \<longleftrightarrow> n = 0 \<or> n \<le> p - q \<and> n \<le> q - p"

lemma config_plain:
  assumes "ch < 12"
  shows "plain_copy ch (dma_get_default_config ch OR DMA_CTRL_EN)"
proof -
  have "unat ch < 12" using assms by (simp add: word_less_nat_alt)
  then have "unat ch \<in> {0, 1, 2, 3, 4, 5, 6, 7, 8, 9, 10, 11}"
    by (simp only: insert_iff empty_iff) arith
  then have "of_nat (unat ch) \<in> (of_nat ` {0, 1, 2, 3, 4, 5, 6, 7, 8, 9, 10, 11} :: u8 set)" by (rule imageI)
  then have "ch \<in> {0, 1, 2, 3, 4, 5, 6, 7, 8, 9, 10, 11}" by simp
  then show ?thesis
    by (auto simp: plain_copy_def dma_get_default_config_def DMA_CTRL_EN_def DMA_CTRL_DATA_SIZE_1BYTE_def
      DMA_CTRL_INCR_READ_def DMA_CTRL_INCR_WRITE_def DMA_CTRL_CHAIN_TO_def DMA_CTRL_TREQ_SEL_def DMA_TREQ_PERMANENT_def)
qed

locale dma_channel =
  timer bus clk latched period "\<lambda>d. (final d, programmed d, live d)" work
  for bus :: "'d bus" and clk :: "'d \<Rightarrow> nat" and latched :: "'d \<Rightarrow> u32" and period :: nat
    and final :: "'d \<Rightarrow> mem" and programmed :: "'d \<Rightarrow> u32 \<times> u32 \<times> u32" and live :: "'d \<Rightarrow> bool"
    and work :: "'d \<Rightarrow> nat" +
  fixes ram :: "'d \<Rightarrow> mem" and ch :: u8
  assumes settled: "work d = 0 \<Longrightarrow> ram d = final d"
    and poll: "\<lbrakk>live d; bus_read bus (al1_CTRL ch) d = (v, d')\<rbrakk> \<Longrightarrow>
      (bit v 24 \<longleftrightarrow> work d \<noteq> 0) \<and> live d' \<and> final d' = final d \<and> programmed d' = programmed d \<and>
      (if work d = 0 then work d' = 0 else work d' < work d)"
    and set_read: "\<lbrakk>live d; work d = 0; programmed d = (a, b, n); bus_write bus (al0_READ_ADDR ch) a' d = d'\<rbrakk> \<Longrightarrow>
      work d' = 0 \<and> live d' \<and> final d' = final d \<and> programmed d' = (a', b, n)"
    and set_write: "\<lbrakk>live d; work d = 0; programmed d = (a, b, n); bus_write bus (al0_WRITE_ADDR ch) b' d = d'\<rbrakk> \<Longrightarrow>
      work d' = 0 \<and> live d' \<and> final d' = final d \<and> programmed d' = (a, b', n)"
    and set_count: "\<lbrakk>live d; work d = 0; programmed d = (a, b, n); bus_write bus (al0_TRANS_COUNT ch) n' d = d'\<rbrakk> \<Longrightarrow>
      work d' = 0 \<and> live d' \<and> final d' = final d \<and> programmed d' = (a, b, n')"
    and trigger: "\<lbrakk>live d; work d = 0; programmed d = (a, b, n); plain_copy ch v; no_overlap a b n;
      bus_write bus (al0_CTRL_TRIG ch) v d = d'\<rbrakk> \<Longrightarrow> live d' \<and> final d' = blit (final d) a b n"
begin

lemma busy_bit: "(v AND DMA_CTRL_BUSY \<noteq> 0) = bit v 24"
  using and_exp_eq_0_iff_not_bit [of v 24] by (simp add: DMA_CTRL_BUSY_def)

lemma await_settles:
  "live d \<Longrightarrow> \<exists>d'. dma_transfer_await bus ch d = Some d' \<and> work d' = 0 \<and> live d' \<and> final d' = final d \<and>
    programmed d' = programmed d"
proof (induction "work d" arbitrary: d rule: less_induct)
  case less
  obtain v d1 where r: "bus_read bus (al1_CTRL ch) d = (v, d1)" by fastforce
  note p = poll [OF less.prems r]
  show ?case
  proof (cases "work d = 0")
    case True
    then show ?thesis using p by (subst dma_transfer_await.simps) (simp add: dma_channel_busy_def r busy_bit)
  next
    case False
    obtain d2 where d2: "usleep bus 1000 d1 = Some (0, d2)" "final d2 = final d1" "programmed d2 = programmed d1"
      "live d2 = live d1" "work d2 \<le> work d1" using usleep_returns [of 1000 d1] by auto
    then have "dma_transfer_await bus ch d = dma_transfer_await bus ch d2"
      using p False by (subst dma_transfer_await.simps) (simp add: dma_channel_busy_def r busy_bit)
    then show ?thesis using less.hyps [of d2] p d2 False by auto
  qed
qed

lemma transfer_copies:
  assumes "live d" "no_overlap src dst n" "ch < 12"
  shows "\<exists>d'. dma_transfer_start bus src dst n ch d = Some d' \<and> live d' \<and> final d' = blit (final d) src dst n"
proof -
  obtain d1 where d1: "dma_transfer_await bus ch d = Some d1" "live d1" "final d1 = final d"
    using await_settles [OF assms(1)] by blast
  obtain d2 where d2: "dma_transfer_await bus ch d1 = Some d2" "work d2 = 0" "live d2" "final d2 = final d1"
    using await_settles [OF d1(2)] by blast
  obtain a b k where p: "programmed d2 = (a, b, k)" by (cases "programmed d2")
  define d3 where "d3 = bus_write bus (al0_READ_ADDR ch) src d2"
  define d4 where "d4 = bus_write bus (al0_WRITE_ADDR ch) dst d3"
  define d5 where "d5 = bus_write bus (al0_TRANS_COUNT ch) n d4"
  have w3: "work d3 = 0" "live d3" "final d3 = final d2" "programmed d3 = (src, b, k)"
    using set_read [OF d2(3,2) p d3_def [symmetric]] by simp_all
  have w4: "work d4 = 0" "live d4" "final d4 = final d2" "programmed d4 = (src, dst, k)"
    using set_write [OF w3(2,1,4) d4_def [symmetric]] w3(3) by simp_all
  have w5: "work d5 = 0" "live d5" "final d5 = final d2" "programmed d5 = (src, dst, n)"
    using set_count [OF w4(2,1,4) d5_def [symmetric]] w4(3) by simp_all
  have "live (bus_write bus (al0_CTRL_TRIG ch) (dma_get_default_config ch OR DMA_CTRL_EN) d5) \<and>
      final (bus_write bus (al0_CTRL_TRIG ch) (dma_get_default_config ch OR DMA_CTRL_EN) d5) = blit (final d) src dst n"
    using trigger [OF w5(2,1,4) config_plain [OF assms(3)] assms(2) refl] w5(3) d1(3) d2(4) by simp
  then show ?thesis
    using d1 d2 by (simp add: dma_transfer_start_def dma_channel_configure_def Let_def d3_def d4_def d5_def
      dma_get_default_config_def or.assoc)
qed

end

text \<open>A channel that is held in reset does nothing: it is never busy, and it takes no writes.  So \<open>memcpy\<close> returns at
  once and has copied nothing.\<close>

locale held_dma =
  fixes bus :: "'d bus" and held :: "'d \<Rightarrow> bool"
  assumes not_busy: "held d \<Longrightarrow> bus_read bus (al1_CTRL 0) d = (v, d') \<Longrightarrow> \<not> bit v 24 \<and> d' = d"
    and ignored: "held d \<Longrightarrow> r \<in> {al0_READ_ADDR 0, al0_WRITE_ADDR 0, al0_TRANS_COUNT 0, al0_CTRL_TRIG 0} \<Longrightarrow>
      bus_write bus r v d = d"
begin

lemma memcpy_held:
  assumes "held d"
  shows "memcpy bus destination source num d = Some (destination, d)"
proof -
  obtain v where v: "bus_read bus (al1_CTRL 0) d = (v, d)" "\<not> bit v 24"
    using not_busy [OF assms] by (metis surj_pair)
  have "v AND DMA_CTRL_BUSY = 0" using v(2) and_exp_eq_0_iff_not_bit [of v 24] by (simp add: DMA_CTRL_BUSY_def)
  then have "dma_transfer_await bus 0 d = Some d"
    by (subst dma_transfer_await.simps) (simp add: dma_channel_busy_def v(1))
  then show ?thesis
    using ignored [OF assms] by (simp add: memcpy_def dma_transfer_start_def dma_channel_configure_def Let_def)
qed

end

text \<open>Replacing a field, and a flag, of a word.\<close>

lemma set_field_bits:
  fixes c :: u32 and v :: u8
  assumes "k + w \<le> 32"
  shows "bit ((c AND NOT (push_bit k (mask w))) OR push_bit k (ucast v AND mask w)) n \<longleftrightarrow>
    (if n \<in> {k..<k + w} then bit v (n - k) else bit c n)"
  using assms bit_imp_le_length [of c n] by (auto simp: bit_simps)

lemma set_flag_bits:
  fixes c :: u32
  assumes "k < 32"
  shows "bit ((c AND NOT (push_bit k 1)) OR (if b then push_bit k 1 else 0)) n \<longleftrightarrow> (if n = k then b else bit c n)"
  using assms bit_imp_le_length [of c n] by (auto simp: bit_simps)

section \<open>A channel to compute with\<close>

text \<open>The engine beside the memory: it waits for a number of polls, then copies at once.\<close>

record engine =
  en_clk :: nat
  en_latch :: u32
  en_prog :: "u32 \<times> u32 \<times> u32"
  en_left :: nat

definition engine_read :: "u32 \<Rightarrow> mem \<times> engine \<Rightarrow> u32 \<times> mem \<times> engine" where
  "engine_read reg d =
     (let (m, e) = d in
      if reg = TIMER_LR then
        (of_nat (en_clk e + 1), m, e\<lparr>en_clk := en_clk e + 1, en_latch := of_nat ((en_clk e + 1) div 4294967296)\<rparr>)
      else if reg = TIMER_HR then (en_latch e, m, e\<lparr>en_clk := en_clk e + 1\<rparr>)
      else if reg = al1_CTRL 0 then
        (if en_left e = 0 then (0, m, e)
         else (0x1000000,
               if en_left e = 1 then (let (src, dst, n) = en_prog e in blit m src dst n) else m,
               e\<lparr>en_left := en_left e - 1\<rparr>))
      else (0, m, e))"

definition engine_write :: "u32 \<Rightarrow> u32 \<Rightarrow> mem \<times> engine \<Rightarrow> mem \<times> engine" where
  "engine_write reg v d =
     (let (m, e) = d; (src, dst, n) = en_prog e in
      if reg = al0_READ_ADDR 0 then (m, e\<lparr>en_prog := (v, dst, n)\<rparr>)
      else if reg = al0_WRITE_ADDR 0 then (m, e\<lparr>en_prog := (src, v, n)\<rparr>)
      else if reg = al0_TRANS_COUNT 0 then (m, e\<lparr>en_prog := (src, dst, v)\<rparr>)
      else if reg = al0_CTRL_TRIG 0 then (m, e\<lparr>en_left := unat n + 1\<rparr>)
      else d)"

definition engine_bus :: "(mem \<times> engine) bus" where
  "engine_bus = \<lparr>bus_read = engine_read, bus_write = engine_write\<rparr>"

definition engine_final :: "mem \<times> engine \<Rightarrow> mem" where
  "engine_final d =
     (let (m, e) = d; (src, dst, n) = en_prog e in if en_left e = 0 then m else blit m src dst n)"

lemmas dma_regs = al0_READ_ADDR_def al0_WRITE_ADDR_def al0_TRANS_COUNT_def al0_CTRL_TRIG_def al1_CTRL_def
  DMA_BASE_def TIMER_LR_def TIMER_HR_def

interpretation engine: dma_channel engine_bus "\<lambda>d. en_clk (snd d)" "\<lambda>d. en_latch (snd d)" 1 engine_final
  "\<lambda>d. en_prog (snd d)" "\<lambda>_. True" "\<lambda>d. en_left (snd d)" fst 0
  by unfold_locales
    (auto simp: engine_bus_def engine_read_def engine_write_def engine_final_def dma_regs Let_def
      split: if_splits prod.splits)

section \<open>Properties\<close>

lemma memcpy_blits:
  assumes "dma_channel bus clk latched period final programmed live work ram 0" "live d" "no_overlap source destination num"
  shows "\<exists>d'. memcpy bus destination source num d = Some (destination, d') \<and> work d' = 0 \<and> live d' \<and>
    ram d' = blit (final d) source destination num"
proof -
  obtain d1 where d1: "dma_transfer_start bus source destination num 0 d = Some d1" "live d1"
    "final d1 = blit (final d) source destination num"
    using dma_channel.transfer_copies [OF assms] by auto
  obtain d2 where d2: "dma_transfer_await bus 0 d1 = Some d2" "work d2 = 0" "live d2" "final d2 = final d1"
    using dma_channel.await_settles [OF assms(1) d1(2)] by blast
  then show ?thesis using d1 dma_channel.settled [OF assms(1) d2(2)] by (simp add: memcpy_def)
qed

text \<open>C14. \<open>memcpy\<close> returns the destination after the transfer is complete, provided the channel is out of
  reset: a transfer that was still under way ends first, then exactly the \<open>num\<close> bytes at the destination hold what
  the bytes at the source held, provided the two ranges do not overlap.\<close>

theorem memcpy_copies:
  assumes "dma_channel bus clk latched period final programmed live work ram 0" "live d" "no_overlap source destination num"
  shows "\<exists>d'. memcpy bus destination source num d = Some (destination, d') \<and> work d' = 0 \<and> live d' \<and>
    ram d' = blit (final d) source destination num"
  using memcpy_blits [OF assms] .

definition engine0 :: engine where
  "engine0 = \<lparr>en_clk = 0, en_latch = 0, en_prog = (0, 0, 0), en_left = 0\<rparr>"

theorem memcpy_copies_witness:
  "\<exists>m e. memcpy engine_bus 0x20000100 0x20000000 3 (\<lambda>a. ucast a, engine0) = Some (0x20000100, m, e) \<and>
     m 0x20000102 = 2 \<and> m 0x20000103 = 3"
proof -
  have "no_overlap 0x20000000 0x20000100 3" by (simp add: no_overlap_def)
  from memcpy_copies [OF engine.dma_channel_axioms TrueI this, of "(\<lambda>a. ucast a, engine0)"]
  show ?thesis by (auto simp: blit_def engine_final_def engine0_def)
qed

text \<open>Each configuration function changes the bits of its own field, to the low bits of its
  argument, and no others.\<close>

lemma dma_config_fields:
  "bit (dma_config_set_data_size c v) n = (if n \<in> {2, 3} then bit v (n - 2) else bit c n) \<and>
   bit (dma_config_set_read_increment c b) n = (if n = 4 then b else bit c n) \<and>
   bit (dma_config_set_write_increment c b) n = (if n = 5 then b else bit c n) \<and>
   bit (dma_config_set_chain c v) n = (if n \<in> {11..<15} then bit v (n - 11) else bit c n) \<and>
   bit (dma_config_set_treq c v) n = (if n \<in> {15..<21} then bit v (n - 15) else bit c n) \<and>
   bit (dma_config_set_ring c b v) n =
     (if n \<in> {6..<10} then bit v (n - 6) else if n = 10 then b else bit c n)"
proof (intro conjI)
  show "bit (dma_config_set_data_size c v) n = (if n \<in> {2, 3} then bit v (n - 2) else bit c n)"
    using set_field_bits [of 2 2 c v n] by (auto simp: dma_config_set_data_size_def mask_eq_exp_minus_1)
  show "bit (dma_config_set_chain c v) n = (if n \<in> {11..<15} then bit v (n - 11) else bit c n)"
    using set_field_bits [of 11 4 c v n] by (simp add: dma_config_set_chain_def mask_eq_exp_minus_1)
  show "bit (dma_config_set_treq c v) n = (if n \<in> {15..<21} then bit v (n - 15) else bit c n)"
    using set_field_bits [of 15 6 c v n] by (simp add: dma_config_set_treq_def mask_eq_exp_minus_1)
  show "bit (dma_config_set_read_increment c b) n = (if n = 4 then b else bit c n)"
    unfolding dma_config_set_read_increment_def DMA_CTRL_INCR_READ_def by (rule set_flag_bits) simp
  show "bit (dma_config_set_write_increment c b) n = (if n = 5 then b else bit c n)"
    unfolding dma_config_set_write_increment_def DMA_CTRL_INCR_WRITE_def by (rule set_flag_bits) simp
  show "bit (dma_config_set_ring c b v) n =
      (if n \<in> {6..<10} then bit v (n - 6) else if n = 10 then b else bit c n)"
    unfolding dma_config_set_ring_def DMA_CTRL_RING_SEL_def Let_def
    using set_field_bits [of 6 4 c v n] by (subst set_flag_bits) (auto simp: mask_eq_exp_minus_1)
qed

text \<open>Every request and every size fits its field, so the field holds its number; a paced channel is no plain copy.\<close>

lemma treq_field: "drop_bit 15 (dma_config_set_treq c v) AND 63 = ucast (v AND 63)"
proof (rule bit_word_eqI)
  fix n assume "n < LENGTH(32)"
  have "bit (63 :: u32) n \<longleftrightarrow> n < 6" "bit (63 :: u8) n \<longleftrightarrow> n < 6"
    using bit_mask_iff [where 'a = u32, of 6 n] bit_mask_iff [where 'a = u8, of 6 n] by (auto simp: mask_eq_exp_minus_1)
  then show "bit (drop_bit 15 (dma_config_set_treq c v) AND 63) n \<longleftrightarrow> bit (ucast (v AND 63) :: u32) n"
    using dma_config_fields [of c v "15 + n"] by (auto simp: bit_simps)
qed

lemma size_field: "drop_bit 2 (dma_config_set_data_size c v) AND 3 = ucast (v AND 3)"
proof (rule bit_word_eqI)
  fix n assume "n < LENGTH(32)"
  have "bit (3 :: u32) n \<longleftrightarrow> n < 2" "bit (3 :: u8) n \<longleftrightarrow> n < 2"
    using bit_mask_iff [where 'a = u32, of 2 n] bit_mask_iff [where 'a = u8, of 2 n] by (auto simp: mask_eq_exp_minus_1)
  then show "bit (drop_bit 2 (dma_config_set_data_size c v) AND 3) n \<longleftrightarrow> bit (ucast (v AND 3) :: u32) n"
    using dma_config_fields [of c v "2 + n"] by (auto simp: bit_simps less_Suc_eq numeral_2_eq_2)
qed

lemma dma_constants_fit:
  "drop_bit 15 (dma_config_set_treq c (treq_number t)) AND 63 = ucast (treq_number t)"
  "drop_bit 2 (dma_config_set_data_size c (size_number z)) AND 3 = ucast (size_number z)"
  "\<not> plain_copy ch (dma_config_set_treq c (treq_number t))"
proof -
  have t: "treq_number t AND 63 = treq_number t" "(ucast (treq_number t) :: u32) \<noteq> 63" by (cases t; simp)+
  have z: "size_number z AND 3 = size_number z" by (cases z) simp_all
  show "drop_bit 15 (dma_config_set_treq c (treq_number t)) AND 63 = ucast (treq_number t)" by (simp add: treq_field t)
  show "drop_bit 2 (dma_config_set_data_size c (size_number z)) AND 3 = ucast (size_number z)" by (simp add: size_field z)
  show "\<not> plain_copy ch (dma_config_set_treq c (treq_number t))" by (simp add: plain_copy_def treq_field t)
qed

end
