(* ===== verification/Realloc.thy ===== *)
theory Realloc
  imports Heap_Props Dma
begin

text \<open>
  \<open>realloc\<close> of \<open>libc/src/stdlib/heap.c\<close>: the allocator together with the DMA copy.  The hardware
  state is the memory and the peripherals side by side, so that the copy and the allocator work
  on the same memory.
\<close>

definition realloc ::
  "(mem \<times> 'w) bus \<Rightarrow> u32 \<Rightarrow> u32 \<Rightarrow> heap_state \<Rightarrow> 'w \<Rightarrow> (u32 \<times> heap_state \<times> 'w) option" where
  "realloc bus ptr sz st w = do {
     let memory_space = ptr - sizeof_memory_space;
     let oldSize = ms_size (heap_mem st) memory_space;
     (new, st) \<leftarrow> malloc sz st;
     if new = 0 then Some (0, st, w)
     else do {
       let toCopy = (if oldSize < sz then oldSize else sz);
       (_, m, w) \<leftarrow> memcpy bus new ptr toCopy (heap_mem st, w);
       Some (new, free ptr (st\<lparr>heap_mem := m\<rparr>), w)
     }
   }"

section \<open>Allocated blocks stay where they are\<close>

fun alloc_at :: "block list \<Rightarrow> nat \<Rightarrow> nat \<Rightarrow> bool" where
  "alloc_at [] off s \<longleftrightarrow> False"
| "alloc_at ((t, a) # bs) off s \<longleftrightarrow>
     a \<and> t = s \<and> off = 16 \<or> 16 + t \<le> off \<and> alloc_at bs (off - (16 + t)) s"

lemma alloc_at_iff: "alloc_at bs off s \<longleftrightarrow> (\<exists>xs ys. bs = xs @ (s, True) # ys \<and> off = span xs + 16)"
proof (induction bs arbitrary: off)
  case (Cons b bs)
  obtain t a where b: "b = (t, a)" by (cases b)
  show ?case
  proof
    assume "alloc_at (b # bs) off s"
    then consider "a" "t = s" "off = 16" | "16 + t \<le> off" "alloc_at bs (off - (16 + t)) s" by (auto simp: b)
    then show "\<exists>xs ys. b # bs = xs @ (s, True) # ys \<and> off = span xs + 16"
    proof cases
      case 2
      then obtain xs ys where "bs = xs @ (s, True) # ys" "off - (16 + t) = span xs + 16" using Cons by auto
      then show ?thesis using 2(1) by (intro exI [of _ "b # xs"] exI [of _ ys]) (auto simp: b)
    qed (auto simp: b intro: exI [of _ "[]"])
  next
    assume "\<exists>xs ys. b # bs = xs @ (s, True) # ys \<and> off = span xs + 16"
    then show "alloc_at (b # bs) off s" using Cons by (auto simp: b Cons_eq_append_conv)
  qed
qed simp

lemma alloc_at_16: "alloc_at bs off s \<Longrightarrow> 16 \<le> off"
  by (auto simp: alloc_at_iff)

lemma alloc_at_coalesce: "alloc_at (coalesce s ys) off k = alloc_at ((s, False) # ys) off k"
  by (cases "(s, ys)" rule: coalesce.cases) (auto dest: alloc_at_16 simp: add.assoc diff_diff_eq)

lemma alloc_at_carve:
  "n \<le> s \<Longrightarrow> alloc_at ((s, False) # ys) off k \<Longrightarrow> alloc_at (carve n s ys) off k"
  by (auto simp: carve_def alloc_at_coalesce dest: alloc_at_16)

lemma spec_malloc_keeps:
  "spec_malloc n bs = Some (o', bs') \<Longrightarrow> alloc_at bs off k \<Longrightarrow> alloc_at bs' off k"
proof (induction bs arbitrary: o' bs' off)
  case (Cons b bs)
  obtain t a where b: "b = (t, a)" by (cases b)
  show ?case
  proof (cases "\<not> a \<and> n \<le> t")
    case True
    then show ?thesis using Cons.prems alloc_at_carve [of n t bs off k] by (auto simp: b)
  next
    case False
    then show ?thesis using Cons by (auto simp: b)
  qed
qed simp

section \<open>The payload of a block\<close>

definition payload :: "u32 \<Rightarrow> nat \<Rightarrow> u32 \<Rightarrow> bool" where
  "payload p s x \<longleftrightarrow> unat p \<le> unat x \<and> unat x < unat p + s"

lemma payload_mono: "payload p k x \<Longrightarrow> k \<le> k' \<Longrightarrow> payload p k' x"
  by (auto simp: payload_def)

lemma in_alloc_block:
  assumes "heap_ok st lim (xs @ (s, True) # ys)" "ptr = head st + of_nat (span xs + 16)"
  shows "in_alloc (head st) (xs @ (s, True) # ys) x \<longleftrightarrow>
      in_alloc (head st) (xs @ (s, False) # ys) x \<or> payload ptr s x"
    "payload ptr s x \<Longrightarrow> \<not> in_alloc (head st) (xs @ (s, False) # ys) x"
    "unat ptr + s \<le> lim"
proof -
  have ch: "chain (heap_mem st) lim (head st) (xs @ (s, True) # ys)" and lim: "lim < 4294967280"
    using assms(1) by (simp_all add: heap_ok_def)
  obtain q where sg: "seg (heap_mem st) lim (head st) xs q" and cq: "chain (heap_mem st) lim q ((s, True) # ys)"
    using ch by (auto simp: chain_append)
  have le: "unat q + 16 + s \<le> lim" using cq by (cases ys) auto
  have "ptr = q + 16" using assms(2) seg_addr [OF sg] by (simp add: add.assoc)
  then have p: "unat ptr = unat q + 16" using le lim unat_add_u32 [of q 16] by simp
  then show "unat ptr + s \<le> lim" using le by simp
  have aft: "after q (s, True) = after q (s, False)" by (simp add: after_def)
  show "in_alloc (head st) (xs @ (s, True) # ys) x \<longleftrightarrow>
      in_alloc (head st) (xs @ (s, False) # ys) x \<or> payload ptr s x"
    using in_alloc_append [OF sg] p aft by (auto simp: payload_def)
  assume "payload ptr s x"
  moreover have "\<not> in_alloc (after q (s, True)) ys x" if "payload ptr s x"
  proof (cases "ys = []")
    case False
    then have "unat (after q (s, True)) = unat q + 16 + s" "chain (heap_mem st) lim (after q (s, True)) ys"
      using cq lim by (auto simp: chain_Cons unat_after)
    then show ?thesis using in_alloc_chain [of "heap_mem st" lim "after q (s, True)" ys x] lim that p
      by (auto simp: payload_def)
  qed simp
  moreover have "\<not> in_alloc (head st) xs x" if "payload ptr s x"
    using in_alloc_seg [OF sg, of x] lim that p by (auto simp: payload_def)
  ultimately show "\<not> in_alloc (head st) (xs @ (s, False) # ys) x"
    using in_alloc_append [OF sg] aft by auto
qed

lemma block_size:
  assumes "heap_ok st lim (xs @ (s, a) # ys)" "ptr = head st + of_nat (span xs + 16)"
  shows "unat (ms_size (heap_mem st) (ptr - 16)) = s"
proof -
  have ch: "chain (heap_mem st) lim (head st) (xs @ (s, a) # ys)" using assms(1) by (simp add: heap_ok_def)
  obtain q where sg: "seg (heap_mem st) lim (head st) xs q" and cq: "chain (heap_mem st) lim q ((s, a) # ys)"
    using ch by (auto simp: chain_append)
  have "ptr - 16 = q" using assms(2) seg_addr [OF sg] by simp
  then show ?thesis using cq by (cases ys) (auto simp: blk_def)
qed

lemma payloads_no_overlap:
  assumes "\<And>x. payload p k x \<Longrightarrow> \<not> payload q k x" "unat p + k < 4294967296" "unat q + k < 4294967296"
    "unat n \<le> k"
  shows "no_overlap p q n"
proof (cases "n = 0")
  case False
  then have k: "0 < k" using assms(4) by (metis gr0I le_zero_eq unat_eq_zero)
  have "\<not> payload q k p" "\<not> payload p k q" using assms(1) [of p] assms(1) [of q] k by (auto simp: payload_def)
  then consider "unat p + k \<le> unat q" | "unat q + k \<le> unat p" unfolding payload_def by linarith
  then show ?thesis
  proof cases
    case 1
    then have d: "unat (q - p) = unat q - unat p" by (intro unat_sub_u32) simp
    moreover have "q \<noteq> p" using 1 k by auto
    then have "unat (p - q) = 4294967296 - unat (q - p)" by (rule unat_diff_rev_u32)
    ultimately have "unat n \<le> unat (q - p)" "unat n \<le> unat (p - q)" using 1 assms(2-4) by linarith+
    then show ?thesis by (simp add: no_overlap_def word_le_nat_alt)
  next
    case 2
    then have d: "unat (p - q) = unat p - unat q" by (intro unat_sub_u32) simp
    moreover have "p \<noteq> q" using 2 k by auto
    then have "unat (q - p) = 4294967296 - unat (p - q)" by (rule unat_diff_rev_u32)
    ultimately have "unat n \<le> unat (p - q)" "unat n \<le> unat (q - p)" using 2 assms(2-4) by linarith+
    then show ?thesis by (simp add: no_overlap_def word_le_nat_alt)
  qed
qed (simp add: no_overlap_def)

lemma in_range_payload:
  assumes "x - p < n" "unat p + unat n < 4294967296"
  shows "payload p (unat n) x"
proof -
  have u: "unat (x - p) < unat n" using assms(1) by (simp add: word_less_nat_alt)
  moreover have "x = p + (x - p)" by simp
  ultimately have "unat x = unat p + unat (x - p)" using assms(2) unat_add_u32 [of p "x - p"] by simp
  then show ?thesis using u by (simp add: payload_def)
qed

text \<open>Copying into the payload of an allocated block keeps the heap.\<close>

lemma blit_linked:
  assumes "linked st lim bs" "\<And>x. payload dst (unat n) x \<Longrightarrow> in_alloc (head st) bs x"
    "unat dst + unat n < 4294967296"
  shows "linked (st\<lparr>heap_mem := blit (heap_mem st) src dst n\<rparr>) lim bs"
proof -
  have ch: "chain (heap_mem st) lim (head st) bs" "lim < 4294967280" "backs (heap_mem st) 0 (head st) bs"
    using assms(1) by (simp_all add: linked_def heap_ok_def)
  have "blit (heap_mem st) src dst n x = heap_mem st x" if "\<not> in_alloc (head st) bs x" for x
    using in_range_payload [OF _ assms(3), of x] assms(2) [of x] that by (auto simp: blit_def)
  then have "chain (blit (heap_mem st) src dst n) lim (head st) bs"
    "backs (blit (heap_mem st) src dst n) 0 (head st) bs"
    using client_write_chain [OF ch(1), of "blit (heap_mem st) src dst n"] ch(2,3) by auto
  then show ?thesis using ch(2) by (simp add: linked_def heap_ok_def)
qed

text \<open>A successful \<open>malloc\<close> beside an allocated block: the block is still there, and the new payload
  has no byte in common with it.\<close>

lemma malloc_beside:
  assumes "linked st lim (xs @ (s, True) # ys)" "ptr = head st + of_nat (span xs + 16)"
    "n = unat (ALIGN_4BYTE sz)" "spec_malloc n (xs @ (s, True) # ys) = Some (off, bs')"
    "spec_split_ok n (xs @ (s, True) # ys)"
  obtains new st1 xs' ys' where "malloc sz st = Some (new, st1)" "new = head st + of_nat off" "new \<noteq> 0"
    "linked st1 lim bs'" "head st1 = head st" "bs' = xs' @ (s, True) # ys'" "span xs' = span xs"
    "unat new + n \<le> lim" "unat ptr + s \<le> lim" "lim < 4294967280"
    "\<forall>x. in_alloc (head st) (xs @ (s, True) # ys) x \<longrightarrow> heap_mem st1 x = heap_mem st x \<and> in_alloc (head st) bs' x"
    "\<forall>x. payload new n x \<longrightarrow> in_alloc (head st) bs' x \<and> \<not> in_alloc (head st) (xs @ (s, True) # ys) x"
    "\<forall>x. payload ptr s x \<longrightarrow> in_alloc (head st) (xs @ (s, True) # ys) x"
    "\<forall>x. in_alloc (head st) bs' x \<and> \<not> payload ptr s x \<longrightarrow> in_alloc (head st) (xs' @ (s, False) # ys') x"
proof -
  let ?bs = "xs @ (s, True) # ys" and ?h = "head st" and ?new = "head st + of_nat off"
  have ok: "heap_ok st lim ?bs" using assms(1) by (simp add: linked_def)
  have lim: "lim < 4294967280" using ok by (simp add: heap_ok_def)
  obtain st1 where st1: "malloc sz st = Some (?new, st1)" "heap_ok st1 lim bs'" "head st1 = ?h"
    and keep: "\<And>x. in_alloc ?h ?bs x \<Longrightarrow> heap_mem st1 x = heap_mem st x"
    and still: "\<And>x. in_alloc ?h ?bs x \<Longrightarrow> in_alloc ?h bs' x"
    and fresh: "\<And>x. unat ?h + off \<le> unat x \<Longrightarrow> unat x < unat ?h + off + n \<Longrightarrow>
      in_alloc ?h bs' x \<and> \<not> in_alloc ?h ?bs x"
    and room: "unat ?h + off + n \<le> lim" "0 < off"
    using ok assms(3,4) by (cases rule: malloc_spec [where sz = sz]) auto
  have new: "unat ?new = unat ?h + off"
    using room lim by (intro trans [OF unat_add_u32]) simp_all
  then have new0: "?new \<noteq> 0" using room(2) by (metis add_is_0 less_irrefl unat_0)
  have ln1: "linked st1 lim bs'" using malloc_links [OF assms(1) st1(1)] assms(3,4,5) by simp
  have "alloc_at ?bs (span xs + 16) s" by (auto simp: alloc_at_iff)
  then obtain xs' ys' where bs': "bs' = xs' @ (s, True) # ys'" "span xs' = span xs"
    using spec_malloc_keeps [OF assms(4)] by (force simp: alloc_at_iff)
  have "ptr = head st1 + of_nat (span xs' + 16)" using assms(2) st1(3) bs'(2) by simp
  note old1 = in_alloc_block [OF st1(2) [unfolded bs'(1)] this, folded bs'(1)]
  show thesis
    by (rule that [of ?new st1 xs' ys'])
      (use st1 new0 ln1 bs' new room lim keep still fresh in_alloc_block [OF ok assms(2)] old1 in
        \<open>auto simp: payload_def\<close>)
qed

section \<open>Property\<close>

text \<open>C13. \<open>realloc\<close> of an allocated block moves it: it returns, the new block holds the old content
  up to the smaller of the two sizes, the old block is free and merged with its free neighbours,
  the links are intact, and no byte of another allocated block has changed.  (The new block is
  the one \<open>malloc\<close> picks, under the same condition on splitting.)\<close>

theorem realloc_moves:
  assumes "dma_channel bus clk latched period final programmed (\<lambda>d. live (snd d)) (\<lambda>d. wk (snd d)) fst 0" "live w \<and> wk w = 0"
    "linked st lim (xs @ (s, True) # ys)" "ptr = head st + of_nat (span xs + 16)"
    "n = unat (ALIGN_4BYTE sz)" "unat sz \<le> n"
    "spec_malloc n (xs @ (s, True) # ys) = Some (off, bs')" "spec_split_ok n (xs @ (s, True) # ys)"
  shows "\<exists>st' w'. realloc bus ptr sz st w = Some (head st + of_nat off, st', w') \<and>
    linked st' lim (spec_free (span xs + 16) bs') \<and>
    (\<forall>i < min s (unat sz). heap_mem st' (head st + of_nat off + of_nat i) = heap_mem st (ptr + of_nat i)) \<and>
    (\<forall>x. in_alloc (head st) (xs @ (s, False) # ys) x \<longrightarrow> heap_mem st' x = heap_mem st x)"
proof -
  let ?bs = "xs @ (s, True) # ys" and ?h = "head st"
  obtain new st1 xs' ys' where st1: "malloc sz st = Some (new, st1)" "new = ?h + of_nat off" "new \<noteq> 0"
    "linked st1 lim bs'" "head st1 = ?h" and bs': "bs' = xs' @ (s, True) # ys'" "span xs' = span xs"
    and room: "unat new + n \<le> lim" "unat ptr + s \<le> lim" "lim < 4294967280"
    and keep: "\<forall>x. in_alloc ?h ?bs x \<longrightarrow> heap_mem st1 x = heap_mem st x \<and> in_alloc ?h bs' x"
    and newp: "\<forall>x. payload new n x \<longrightarrow> in_alloc ?h bs' x \<and> \<not> in_alloc ?h ?bs x"
    and oldp: "\<forall>x. payload ptr s x \<longrightarrow> in_alloc ?h ?bs x"
    and rest: "\<forall>x. in_alloc ?h bs' x \<and> \<not> payload ptr s x \<longrightarrow> in_alloc ?h (xs' @ (s, False) # ys') x"
    using malloc_beside [OF assms(3,4,5,7,8)] .
  have ok: "heap_ok st lim ?bs" using assms(3) by (simp add: linked_def)
  define tc where "tc = (if ms_size (heap_mem st) (ptr - 16) < sz then ms_size (heap_mem st) (ptr - 16) else sz)"
  have "unat (ms_size (heap_mem st) (ptr - 16)) = s"
    using block_size [OF ok assms(4)] .
  then have tc: "unat tc = min s (unat sz)" by (auto simp: tc_def word_less_nat_alt)
  then have tcb: "unat tc \<le> s" "unat tc \<le> n" using assms(6) by (simp_all add: min.coboundedI2)
  have no: "no_overlap ptr new tc"
  proof (rule payloads_no_overlap [where k = "unat tc"])
    show "\<not> payload new (unat tc) x" if "payload ptr (unat tc) x" for x
    proof -
      have "payload ptr s x" using that tcb(1) by (rule payload_mono)
      then have "\<not> payload new n x" using newp oldp by blast
      then show ?thesis using payload_mono [OF _ tcb(2)] by blast
    qed
  qed (use room tcb in linarith)+
  define m2 where "m2 = blit (heap_mem st1) ptr new tc"
  have "final (heap_mem st1, w) = heap_mem st1"
    using dma_channel.settled [OF assms(1), of "(heap_mem st1, w)"] assms(2) by simp
  then obtain w' where cp: "memcpy bus new ptr tc (heap_mem st1, w) = Some (new, m2, w')"
    using memcpy_blits [OF assms(1) _ no, of "(heap_mem st1, w)"] assms(2) by (auto simp: m2_def)
  let ?st2 = "st1\<lparr>heap_mem := m2\<rparr>"
  have ln2: "linked ?st2 lim bs'" unfolding m2_def
  proof (rule blit_linked [OF st1(4)])
    show "in_alloc (head st1) bs' x" if "payload new (unat tc) x" for x
      using newp payload_mono [OF that tcb(2)] st1(5) by auto
  qed (use room tcb in linarith)
  have fr: "linked (free ptr ?st2) lim (spec_free (span xs + 16) bs')"
    "\<And>x. in_alloc ?h (xs' @ (s, False) # ys') x \<Longrightarrow> heap_mem (free ptr ?st2) x = m2 x"
    using free_spec [OF ln2 [unfolded bs'(1)], of ptr] assms(4) st1(5) bs' by auto
  have run: "realloc bus ptr sz st w = Some (new, free ptr ?st2, w')"
    using st1(1,3) cp by (simp add: realloc_def Let_def sizeof_memory_space_def tc_def)
  have content: "heap_mem (free ptr ?st2) (new + of_nat i) = heap_mem st (ptr + of_nat i)"
    if i: "i < min s (unat sz)" for i
  proof -
    let ?x = "new + of_nat i"
    have i': "i < unat tc" "i < s" "i < n" using i tc assms(6) by auto
    then have ux: "unat (of_nat i :: u32) = i" using room by (intro unat_of_nat_u32) linarith
    have x: "unat ?x = unat new + i" "unat (ptr + of_nat i) = unat ptr + i"
      using unat_add_u32 [of new "of_nat i"] unat_add_u32 [of ptr "of_nat i"] ux i' room by simp_all
    have nx: "payload new n ?x" "payload ptr s (ptr + of_nat i)" using x i' by (auto simp: payload_def)
    have "in_alloc ?h (xs' @ (s, False) # ys') ?x" using nx(1) newp rest oldp by blast
    then have "heap_mem (free ptr ?st2) ?x = m2 ?x" by (rule fr(2))
    also have "\<dots> = heap_mem st1 (ptr + of_nat i)"
      using i' ux by (simp add: m2_def blit_def word_less_nat_alt)
    also have "\<dots> = heap_mem st (ptr + of_nat i)" using keep oldp nx(2) by simp
    finally show ?thesis .
  qed
  have others: "heap_mem (free ptr ?st2) x = heap_mem st x" if "in_alloc ?h (xs @ (s, False) # ys) x" for x
  proof -
    have x: "in_alloc ?h ?bs x" "\<not> payload ptr s x" using in_alloc_block(1,2) [OF ok assms(4)] that by auto
    then have "in_alloc ?h (xs' @ (s, False) # ys') x" using keep rest by blast
    then have "heap_mem (free ptr ?st2) x = m2 x" by (rule fr(2))
    also have "\<dots> = heap_mem st1 x"
      using in_range_payload [of x new tc] payload_mono [OF _ tcb(2)] newp x(1) room
        tcb(2) by (auto simp: m2_def blit_def)
    finally show ?thesis using keep x(1) by simp
  qed
  show ?thesis using run fr(1) content others st1(2) by blast
qed

theorem realloc_moves_witness:
  "\<exists>st' w'. realloc engine_bus 0x20001010 100 heap1 engine0 = Some (0x20001060, st', w') \<and>
     linked st' 0x20009000 [(64, False), (100, True), (32556, False)]"
proof -
  have a: "unat (ALIGN_4BYTE 100) = 100" by (simp add: ALIGN_4BYTE_push)
  have l: "linked heap1 0x20009000 ([] @ (64, True) # [(32672, False)])" using heap1_links by simp
  have m: "spec_malloc 100 ([] @ (64, True) # [(32672, False)]) =
      Some (96, [(64, True), (100, True), (32556, False)])" by (simp add: carve_def)
  show ?thesis
    using realloc_moves [where live = "\<lambda>_. True" and wk = en_left, OF engine.dma_channel_axioms _ l _ a [symmetric] _ m, of engine0 "0x20001010"]
    by (auto simp: heap1_links engine0_def split_ok_def)
qed

end
