(* ===== verification/Elf.thy ===== *)
theory Elf
  imports Fat_Props Realloc
begin

unbundle bit_operations_syntax

text \<open>
  The ELF loader, \<open>src/src/lib/elf/elf.c\<close>, which ties the components together: it opens and reads a
  file through the FAT driver into memory from the allocator, copies the loadable segments with
  \<open>memcpy\<close> and clears the rest with \<open>memset\<close>.  The memory is the one of the FAT state; the
  peripherals are shared by the card driver (\<open>dev\<close>) and the DMA engine (\<open>bus\<close>).

  \<open>elf_segments\<close> reads the program headers of a file as data, and \<open>load_image\<close> is the memory with
  the segments in place.  The loader produces it, when the headers lie in the first 64 KiB of the
  file, for the offsets of \<open>read_le32\<close> have 16 bits.
\<close>

section \<open>The loader\<close>

definition ELF_INVALID_EXECUTABLE :: u32 where
  "ELF_INVALID_EXECUTABLE = 1"

text \<open>A pointer as a byte array, as \<open>read_le32\<close> and \<open>read_le16\<close> take it.\<close>

definition array_at :: "mem \<Rightarrow> u32 \<Rightarrow> nat \<Rightarrow> u8" where
  "array_at m p i = m (p + of_nat i)"

text \<open>One round of the loop over the program headers.  The offsets are computed in 32 bits and
  passed to \<open>read_le32\<close> in 16.\<close>

definition load_segment ::
  "(mem \<times> 'w) bus \<Rightarrow> u32 \<Rightarrow> u32 \<Rightarrow> u32 \<Rightarrow> u16 \<Rightarrow> mem \<times> 'w \<Rightarrow> (mem \<times> 'w) option" where
  "load_segment bus data e_phoff e_phentsize i st =
     (let offset = e_phoff + ucast i * e_phentsize;
          field = (\<lambda>k. read_le32 (array_at (fst st) data) (ucast (offset + k)));
          p_type = field 0
      in
      if p_type \<noteq> 1 then Some st
      else
        let p_offset = field 0x04; p_vaddr = field 0x08; p_filesz = field 0x10; p_memsz = field 0x14
        in do {
          (_, m, w) \<leftarrow> memcpy bus p_vaddr (data + p_offset) p_filesz st;
          Some (if p_filesz < p_memsz
                then (snd (memset m (p_vaddr + p_filesz) 0 (p_memsz - p_filesz)), w) else (m, w))
        })"

primrec load_segments ::
  "(mem \<times> 'w) bus \<Rightarrow> u32 \<Rightarrow> u32 \<Rightarrow> u32 \<Rightarrow> nat \<Rightarrow> mem \<times> 'w \<Rightarrow> (mem \<times> 'w) option" where
  "load_segments bus data e_phoff e_phentsize 0 st = Some st"
| "load_segments bus data e_phoff e_phentsize (Suc i) st = do {
     st \<leftarrow> load_segments bus data e_phoff e_phentsize i st;
     load_segment bus data e_phoff e_phentsize (of_nat i) st
   }"

definition valid_header :: "(nat \<Rightarrow> u8) \<Rightarrow> bool" where
  "valid_header data \<longleftrightarrow>
     \<not> (data 0 \<noteq> 0x7F \<or> data 1 \<noteq> 0x45 \<or> data 2 \<noteq> 0x4C \<or> data 3 \<noteq> 0x46) \<and>
     data 4 \<noteq> 2 \<and> data 5 \<noteq> 2 \<and> data 0x10 = 2 \<and> data 0x12 = 0x28"

text \<open>The state: the FAT state with the memory, and the head of the heap.\<close>

definition loadELF ::
  "'w blockdev \<Rightarrow> (mem \<times> 'w) bus \<Rightarrow> (nat \<Rightarrow> lfn_locals) \<Rightarrow> fat_file_info_t \<Rightarrow> fat_file_info_t \<Rightarrow>
    u8 list option \<Rightarrow> 'w fs \<Rightarrow> u32 \<Rightarrow> (u32 \<times> 'w fs \<times> u32) option" where
  "loadELF dev bus junk entry0 file0 path s hp = do {
     (file_id, s) \<leftarrow> fat32_open dev junk entry0 file0 path 0 s;
     let sz = fat32_get_size file_id s;
     (data, h) \<leftarrow> malloc (1 * sz) \<lparr>heap_mem = ram s, head = hp\<rparr>;
     let s = s\<lparr>ram := heap_mem h\<rparr>;
     let hp = head h;
     if data = 0 then Some (2, s, hp)
     else do {
       (_, s) \<leftarrow> fat32_read dev file_id data sz s;
       let a = array_at (ram s) data;
       if \<not> valid_header a then Some (ELF_INVALID_EXECUTABLE, s, hp)
       else do {
         let e_entry = read_le32 a 0x18;
         let e_phoff = read_le32 a 0x1C;
         let e_phentsize = (ucast (read_le16 a 0x2A) :: u32);
         let e_phnum = read_le16 a 0x2C;
         (m, w) \<leftarrow> load_segments bus data e_phoff e_phentsize (unat e_phnum) (ram s, sd s);
         let h = free data \<lparr>heap_mem = m, head = hp\<rparr>;
         Some (e_entry, s\<lparr>ram := heap_mem h, sd := w\<rparr>, head h)
       }
     }
   }"

section \<open>Segments as data\<close>

record segment =
  seg_offset :: u32
  seg_vaddr :: u32
  seg_filesz :: u32
  seg_memsz :: u32

definition word_in :: "u8 list \<Rightarrow> nat \<Rightarrow> u32" where
  "word_in bs k = read_le32 (\<lambda>i. bs ! (k + i)) 0"

definition elf_header :: "u8 list \<Rightarrow> nat \<Rightarrow> nat" where
  "elf_header bs i = unat (word_in bs 0x1C) + i * unat (read_le16 (\<lambda>i. bs ! (0x2A + i)) 0)"

definition elf_count :: "u8 list \<Rightarrow> nat" where
  "elf_count bs = unat (read_le16 (\<lambda>i. bs ! (0x2C + i)) 0)"

definition segment_at :: "u8 list \<Rightarrow> nat \<Rightarrow> segment" where
  "segment_at bs k = \<lparr>seg_offset = word_in bs (k + 4), seg_vaddr = word_in bs (k + 8),
     seg_filesz = word_in bs (k + 16), seg_memsz = word_in bs (k + 20)\<rparr>"

definition elf_segments :: "u8 list \<Rightarrow> segment list" where
  "elf_segments bs = map (segment_at bs)
     (filter (\<lambda>k. word_in bs k = 1) (map (elf_header bs) [0..<elf_count bs]))"

definition load_image :: "u8 list \<Rightarrow> segment \<Rightarrow> mem \<Rightarrow> mem" where
  "load_image bs g m = (\<lambda>x.
     if x - seg_vaddr g < seg_filesz g then bs ! (unat (seg_offset g) + unat (x - seg_vaddr g))
     else if x - seg_vaddr g < seg_memsz g then 0 else m x)"

text \<open>The headers are in the file and within reach of 16-bit offsets; each segment's data is in the
  file and its place is outside the heap.\<close>

definition segment_ok :: "nat \<Rightarrow> nat \<Rightarrow> u8 list \<Rightarrow> segment \<Rightarrow> bool" where
  "segment_ok lo hi bs g \<longleftrightarrow> unat (seg_offset g) + unat (seg_filesz g) \<le> length bs \<and>
     unat (seg_vaddr g) + max (unat (seg_filesz g)) (unat (seg_memsz g)) < 4294967296 \<and>
     (unat (seg_vaddr g) + max (unat (seg_filesz g)) (unat (seg_memsz g)) \<le> lo \<or> hi \<le> unat (seg_vaddr g))"

definition elf_ok :: "nat \<Rightarrow> nat \<Rightarrow> u8 list \<Rightarrow> bool" where
  "elf_ok lo hi bs \<longleftrightarrow> valid_header ((!) bs) \<and> 52 \<le> length bs \<and>
     (\<forall>i < elf_count bs. elf_header bs i + 24 \<le> min (length bs) 65536) \<and>
     list_all (segment_ok lo hi bs) (elf_segments bs)"

section \<open>Reading the file in memory\<close>

definition holds_file :: "mem \<Rightarrow> u32 \<Rightarrow> u8 list \<Rightarrow> bool" where
  "holds_file m data bs \<longleftrightarrow> (\<forall>i < length bs. array_at m data i = bs ! i)"

lemma holds_word:
  assumes "holds_file m data bs" "k + 4 \<le> length bs" "unat off = k"
  shows "read_le32 (array_at m data) off = word_in bs k"
  unfolding word_in_def
  by (rule read_le32_cong) (use assms in \<open>simp add: holds_file_def\<close>)

lemma holds_half:
  assumes "holds_file m data bs" "k + 2 \<le> length bs" "unat off = k"
  shows "read_le16 (array_at m data) off = read_le16 (\<lambda>i. bs ! (k + i)) 0"
  using assms by (simp add: holds_file_def read_le16_def Let_def)

lemma holds_header:
  assumes "holds_file m data bs" "52 \<le> length bs"
  shows "valid_header (array_at m data) = valid_header ((!) bs)"
proof -
  have "0 < length bs" using assms(2) by linarith
  then show ?thesis using assms by (simp add: holds_file_def valid_header_def)
qed

text \<open>The offset of a program header, computed in 32 bits and cut to 16.\<close>

lemma header_offset:
  assumes "elf_header bs i + 24 \<le> 65536" "i < elf_count bs" "k \<le> 20"
  shows "unat (ucast (word_in bs 0x1C + ucast (of_nat i :: u16) *
      (ucast (read_le16 (\<lambda>i. bs ! (0x2A + i)) 0) :: u32) + of_nat k) :: u16) = elf_header bs i + k"
proof -
  have "elf_count bs < 65536" using unat_u16_lt by (simp add: elf_count_def)
  then have "i < 65536" using assms(2) by simp
  then have i: "(ucast (of_nat i :: u16) :: u32) = of_nat i"
    by (metis of_nat_unat unat_of_nat_u16)
  have "word_in bs 0x1C + of_nat i * (ucast (read_le16 (\<lambda>i. bs ! (0x2A + i)) 0) :: u32) + of_nat k =
      of_nat (elf_header bs i + k)" by (simp add: elf_header_def)
  moreover have "unat (of_nat (elf_header bs i + k) :: u32) = elf_header bs i + k"
    using assms by (intro unat_of_nat_u32) simp
  ultimately show ?thesis using assms i by (simp only: unat_ucast_u32_u16)
qed

section \<open>Loading a segment\<close>

lemma load_image_local: "m x = m' x \<Longrightarrow> load_image bs g m x = load_image bs g m' x"
  by (simp add: load_image_def)

lemma fold_load_image_local:
  "m x = m' x \<Longrightarrow> fold (load_image bs) gs m x = fold (load_image bs) gs m' x"
proof (induction gs arbitrary: m m')
  case (Cons g gs)
  have "load_image bs g m x = load_image bs g m' x" using Cons.prems by (rule load_image_local)
  then show ?case using Cons.IH [of "load_image bs g m" "load_image bs g m'"] by simp
qed simp

lemma load_image_outside:
  assumes "segment_ok lo hi bs g" "lo \<le> unat x" "unat x < hi"
  shows "load_image bs g m x = m x"
proof -
  have "\<not> x - seg_vaddr g < n" if "n = seg_filesz g \<or> n = seg_memsz g" for n
  proof
    assume "x - seg_vaddr g < n"
    then have "payload (seg_vaddr g) (unat n) x"
      by (rule in_range_payload) (use assms(1) that in \<open>auto simp: segment_ok_def\<close>)
    then show False using assms that by (auto simp: payload_def segment_ok_def)
  qed
  then show ?thesis by (simp add: load_image_def)
qed

lemma range_shift:
  fixes x v f s :: u32
  assumes "f < s"
  shows "x - (v + f) < s - f \<longleftrightarrow> f \<le> x - v \<and> x - v < s"
proof -
  have eq: "unat (x - (v + f)) = unat ((x - v) - f)" by (simp add: diff_diff_add)
  have s: "unat (s - f) = unat s - unat f" using assms by (intro unat_sub_u32) (simp add: word_less_nat_alt)
  show ?thesis
  proof (cases "f \<le> x - v")
    case True
    then have "unat (x - v - f) = unat (x - v) - unat f" by (intro unat_sub_u32) (simp add: word_le_nat_alt)
    then show ?thesis using True s assms unfolding word_less_nat_alt word_le_nat_alt eq by linarith
  next
    case False
    then have lt: "unat (x - v) < unat f" by (simp add: word_le_nat_alt)
    have "x - v - f \<noteq> 0" using lt by auto
    then have ne: "f \<noteq> x - v" by auto
    have "unat (f - (x - v)) = unat f - unat (x - v)" using lt by (intro unat_sub_u32) simp
    moreover have "unat (x - v - f) = 4294967296 - unat (f - (x - v))"
      using ne by (rule unat_diff_rev_u32)
    ultimately have "unat s - unat f < unat (x - v - f)" using lt unat_u32_lt [of s] assms
      unfolding word_less_nat_alt by linarith
    then show ?thesis using False s unfolding word_less_nat_alt eq by simp
  qed
qed

text \<open>The segments of the first program headers, and their memory.\<close>

definition first_segments :: "u8 list \<Rightarrow> nat \<Rightarrow> segment list" where
  "first_segments bs n =
     map (segment_at bs) (filter (\<lambda>k. word_in bs k = 1) (map (elf_header bs) [0..<n]))"

lemma first_segments_all: "first_segments bs (elf_count bs) = elf_segments bs"
  by (simp add: first_segments_def elf_segments_def)

lemma first_segments_ok:
  "elf_ok lo hi bs \<Longrightarrow> n \<le> elf_count bs \<Longrightarrow> list_all (segment_ok lo hi bs) (first_segments bs n)"
  by (auto simp: elf_ok_def elf_segments_def first_segments_def list_all_iff)

lemma fold_load_image_outside:
  assumes "list_all (segment_ok lo hi bs) gs" "lo \<le> unat x" "unat x < hi"
  shows "fold (load_image bs) gs m x = m x"
  using assms(1) by (induction gs arbitrary: m) (simp_all add: load_image_outside [OF _ assms(2,3)])

lemma holds_file_outside:
  assumes "holds_file m data bs" "list_all (segment_ok lo hi bs) gs" "lo \<le> unat data"
    "unat data + length bs \<le> hi" "hi < 4294967296"
  shows "holds_file (fold (load_image bs) gs m) data bs"
  unfolding holds_file_def array_at_def
proof (intro allI impI)
  fix i assume i: "i < length bs"
  then have "unat (data + of_nat i) = unat data + i"
    using assms(4,5) by (intro trans [OF unat_add_u32]) simp_all
  then show "fold (load_image bs) gs m (data + of_nat i) = bs ! i"
    using fold_load_image_outside [OF assms(2), of "data + of_nat i" m] assms i
    by (simp add: holds_file_def array_at_def)
qed

text \<open>The channel beside the peripherals: when it is idle, the memory is what it is.\<close>

locale copier =
  dma_channel bus clk latched period final programmed "\<lambda>d. live (snd d)" "\<lambda>d. wk (snd d)" fst 0
  for bus :: "(mem \<times> 'w) bus" and clk latched period final programmed and live :: "'w \<Rightarrow> bool" and wk :: "'w \<Rightarrow> nat"
begin

definition rested :: "'w \<Rightarrow> bool" where
  "rested w \<longleftrightarrow> live w \<and> wk w = 0"

lemma copy_idle:
  assumes "rested w" "no_overlap src dst n"
  shows "\<exists>w'. memcpy bus dst src n (m, w) = Some (dst, blit m src dst n, w') \<and> rested w'"
proof -
  have "final (m, w) = m" using settled [of "(m, w)"] assms(1) by (simp add: rested_def)
  then show ?thesis using memcpy_blits [OF dma_channel_axioms _ assms(2), of "(m, w)"] assms(1) by (auto simp: rested_def)
qed

lemma load_segment_spec:
  assumes "rested w" "holds_file m data bs" "lo \<le> unat data" "unat data + length bs \<le> hi" "hi < 4294967296"
    "i < elf_count bs" "elf_header bs i + 24 \<le> length bs" "elf_header bs i + 24 \<le> 65536"
    "word_in bs (elf_header bs i) = 1 \<Longrightarrow> segment_ok lo hi bs (segment_at bs (elf_header bs i))"
  shows "\<exists>w'. load_segment bus data (word_in bs 0x1C) (ucast (read_le16 (\<lambda>i. bs ! (0x2A + i)) 0)) (of_nat i) (m, w) =
      Some (if word_in bs (elf_header bs i) = 1 then load_image bs (segment_at bs (elf_header bs i)) m else m, w') \<and>
    rested w'"
proof -
  let ?k = "elf_header bs i" and ?g = "segment_at bs (elf_header bs i)"
  let ?off = "word_in bs 0x1C + ucast (of_nat i :: u16) * ucast (read_le16 (\<lambda>i. bs ! (0x2A + i)) 0)"
  have fld: "read_le32 (array_at m data) (ucast (?off + of_nat j)) = word_in bs (?k + j)" if "j \<le> 20" for j
    by (rule holds_word [OF assms(2)]) (use header_offset [OF assms(8,6) that] assms(7) that in simp_all)
  have f: "read_le32 (array_at m data) (ucast ?off) = word_in bs ?k"
    "read_le32 (array_at m data) (ucast (?off + 4)) = seg_offset ?g"
    "read_le32 (array_at m data) (ucast (?off + 8)) = seg_vaddr ?g"
    "read_le32 (array_at m data) (ucast (?off + 16)) = seg_filesz ?g"
    "read_le32 (array_at m data) (ucast (?off + 20)) = seg_memsz ?g"
    using fld [of 0] fld [of 4] fld [of 8] fld [of 16] fld [of 20] by (simp_all add: segment_at_def)
  show ?thesis
  proof (cases "word_in bs ?k = 1")
    case False
    then show ?thesis using f assms(1) by (simp add: load_segment_def)
  next
    case True
    note ok = assms(9) [OF True, unfolded segment_ok_def]
    have src: "unat (data + seg_offset ?g) = unat data + unat (seg_offset ?g)"
      using ok assms(4,5) by (intro unat_add_u32) linarith
    have "no_overlap (data + seg_offset ?g) (seg_vaddr ?g) (seg_filesz ?g)"
      by (rule payloads_no_overlap [where k = "unat (seg_filesz ?g)"])
        (use ok src assms(3-5) in \<open>auto simp: payload_def\<close>)
    then obtain w' where cp: "memcpy bus (seg_vaddr ?g) (data + seg_offset ?g) (seg_filesz ?g) (m, w) =
        Some (seg_vaddr ?g, blit m (data + seg_offset ?g) (seg_vaddr ?g) (seg_filesz ?g), w')" "rested w'"
      using copy_idle [OF assms(1)] by blast
    have content: "m (data + seg_offset ?g + (x - seg_vaddr ?g)) =
        bs ! (unat (seg_offset ?g) + unat (x - seg_vaddr ?g))" if "x - seg_vaddr ?g < seg_filesz ?g" for x
    proof -
      have "unat (x - seg_vaddr ?g) < unat (seg_filesz ?g)" using that by (simp add: word_less_nat_alt)
      then have "unat (seg_offset ?g) + unat (x - seg_vaddr ?g) < length bs" using ok by linarith
      then show ?thesis using assms(2) unfolding holds_file_def array_at_def by (auto simp: add.assoc)
    qed
    define m1 where "m1 = blit m (data + seg_offset ?g) (seg_vaddr ?g) (seg_filesz ?g)"
    have image: "(if seg_filesz ?g < seg_memsz ?g
          then snd (memset m1 (seg_vaddr ?g + seg_filesz ?g) 0 (seg_memsz ?g - seg_filesz ?g)) else m1) =
        load_image bs ?g m"
    proof
      fix x
      show "(if seg_filesz ?g < seg_memsz ?g
          then snd (memset m1 (seg_vaddr ?g + seg_filesz ?g) 0 (seg_memsz ?g - seg_filesz ?g)) else m1) x =
        load_image bs ?g m x"
        using content [of x] range_shift [of "seg_filesz ?g" "seg_memsz ?g" x "seg_vaddr ?g"]
        by (auto simp: memset_correct load_image_def m1_def blit_def)
    qed
    have "load_segment bus data (word_in bs 0x1C) (ucast (read_le16 (\<lambda>i. bs ! (0x2A + i)) 0)) (of_nat i) (m, w) =
        Some (load_image bs ?g m, w')"
      using f cp(1) True image [symmetric] unfolding m1_def
      by (simp add: load_segment_def Let_def)
    then show ?thesis using True cp(2) by simp
  qed
qed

lemma load_segments_spec:
  assumes "rested w" "holds_file m data bs" "lo \<le> unat data" "unat data + length bs \<le> hi" "hi < 4294967296"
    "elf_ok lo hi bs" "n \<le> elf_count bs"
  shows "\<exists>w'. load_segments bus data (word_in bs 0x1C) (ucast (read_le16 (\<lambda>i. bs ! (0x2A + i)) 0)) n (m, w) =
      Some (fold (load_image bs) (first_segments bs n) m, w') \<and> rested w'"
  using assms(7)
proof (induction n)
  case 0
  then show ?case using assms(1) by (simp add: first_segments_def)
next
  case (Suc n)
  let ?m1 = "fold (load_image bs) (first_segments bs n) m"
  obtain w1 where w1: "load_segments bus data (word_in bs 0x1C) (ucast (read_le16 (\<lambda>i. bs ! (0x2A + i)) 0)) n (m, w) =
      Some (?m1, w1)" "rested w1" using Suc by auto
  have hold: "holds_file ?m1 data bs"
    using holds_file_outside [OF assms(2) first_segments_ok [OF assms(6)] assms(3-5)] Suc.prems by simp
  have n: "n < elf_count bs" "elf_header bs n + 24 \<le> length bs" "elf_header bs n + 24 \<le> 65536"
    using Suc.prems assms(6) by (auto simp: elf_ok_def)
  have ok: "segment_ok lo hi bs (segment_at bs (elf_header bs n))" if "word_in bs (elf_header bs n) = 1"
    using first_segments_ok [OF assms(6) Suc.prems] that by (simp add: first_segments_def)
  obtain w2 where "load_segment bus data (word_in bs 0x1C) (ucast (read_le16 (\<lambda>i. bs ! (0x2A + i)) 0)) (of_nat n) (?m1, w1) =
      Some (if word_in bs (elf_header bs n) = 1 then load_image bs (segment_at bs (elf_header bs n)) ?m1 else ?m1, w2)"
    "rested w2"
    using load_segment_spec [OF w1(2) hold assms(3-5) n ok] by blast
  then show ?case using w1(1) by (simp add: first_segments_def)
qed

end

interpretation engine_copier: copier engine_bus "\<lambda>d. en_clk (snd d)" "\<lambda>d. en_latch (snd d)" 1 engine_final
  "\<lambda>d. en_prog (snd d)" "\<lambda>_. True" en_left
  by unfold_locales

end
