(* ===== verification/Startup.thy ===== *)
theory Startup
  imports System Elf Spi
begin

unbundle bit_operations_syntax

text \<open>
  The way from reset to \<open>main\<close>: the second boot stage (\<open>boot2/bootStage2QuadIO.c\<close>), the vector table,
  the reset handler and the default handler (\<open>startup_rp2040.c\<close>), and the start of user programs
  (\<open>crt0.c\<close>).  A function that ends in an endless empty loop returns the state with which it enters
  that loop; \<open>None\<close> still means that an earlier step does not return.
\<close>

section \<open>The second boot stage\<close>

definition XIP_BASE :: u32 where "XIP_BASE = 0x10000000"
definition SSI_CTRLR0 :: u32 where "SSI_CTRLR0 = 0x18000000"
definition SSI_SSIENR :: u32 where "SSI_SSIENR = 0x18000008"
definition SSI_BAUDR :: u32 where "SSI_BAUDR = 0x18000014"
definition SSI_SR :: u32 where "SSI_SR = 0x18000028"
definition SSI_DR0 :: u32 where "SSI_DR0 = 0x18000060"
definition SSI_SPI_CTRLR0 :: u32 where "SSI_SPI_CTRLR0 = 0x180000F4"
definition M0PLUS_VTOR :: u32 where "M0PLUS_VTOR = 0xE000ED08"

lemmas ssi_regs = SSI_CTRLR0_def SSI_SSIENR_def SSI_BAUDR_def SSI_SR_def SSI_DR0_def SSI_SPI_CTRLR0_def
  M0PLUS_VTOR_def

text \<open>\<open>while ((~SSI_SR & (1 << 2)) || (SSI_SR & 1));\<close> reads the register a second time only if the
  first test fails.\<close>

partial_function (option) ssi_wait :: "'d bus \<Rightarrow> 'd \<Rightarrow> 'd option" where
  "ssi_wait bus d =
     (let (v, d) = bus_read bus SSI_SR d in
      if NOT v AND 4 \<noteq> 0 then ssi_wait bus d
      else let (v, d) = bus_read bus SSI_SR d in
        if v AND 1 \<noteq> 0 then ssi_wait bus d else Some d)"

declare ssi_wait.simps [code]

primrec bus_writes :: "'d bus \<Rightarrow> u32 \<Rightarrow> u32 list \<Rightarrow> 'd \<Rightarrow> 'd" where
  "bus_writes bus reg [] d = d"
| "bus_writes bus reg (v # vs) d = bus_writes bus reg vs (bus_write bus reg v d)"

text \<open>The result is the stack pointer, the address the processor jumps to, and the peripherals.  The
  words of the vector table are read from the flash, at the address in the register.\<close>

definition bootStage2 :: "'d bus \<Rightarrow> mem \<Rightarrow> 'd \<Rightarrow> (u32 \<times> u32 \<times> 'd) option" where
  "bootStage2 bus flash d = do {
     let d = bus_write bus SSI_SSIENR 0 d;
     let d = bus_write bus SSI_BAUDR 4 d;
     let d = bus_write bus SSI_CTRLR0 (push_bit 16 7) d;
     let d = bus_write bus SSI_SSIENR 1 d;
     let d = bus_writes bus SSI_DR0 [0x05, 0x35] d;
     d \<leftarrow> ssi_wait bus d;
     let (v, d) = bus_read bus SSI_DR0 d;
     let stReg1 = (ucast v :: u8);
     let (v, d) = bus_read bus SSI_DR0 d;
     let stReg2 = (ucast v :: u8);
     let d = (if stReg2 AND push_bit 1 1 = 0
              then bus_writes bus SSI_DR0 [0x06, 0x01, ucast stReg1, ucast stReg2 OR push_bit 1 1, 0x04] d else d);
     let d = bus_write bus SSI_SSIENR 0 d;
     let d = bus_write bus SSI_CTRLR0 (push_bit 8 3 OR push_bit 16 31 OR push_bit 21 2) d;
     let d = bus_write bus SSI_SPI_CTRLR0 (push_bit 2 8 OR push_bit 8 2 OR push_bit 11 4 OR push_bit 0 1) d;
     let d = bus_write bus SSI_SSIENR 1 d;
     let d = bus_writes bus SSI_DR0 [0xEB, 0xA0] d;
     d \<leftarrow> ssi_wait bus d;
     let d = bus_write bus SSI_SSIENR 0 d;
     let d = bus_write bus SSI_SPI_CTRLR0 (push_bit 2 8 OR push_bit 8 0 OR push_bit 24 0xA0 OR push_bit 11 4 OR push_bit 0 2) d;
     let d = bus_write bus SSI_SSIENR 1 d;
     let d = bus_write bus M0PLUS_VTOR (XIP_BASE + 0x100) d;
     let (vtor, d) = bus_read bus M0PLUS_VTOR d;
     let msp = load32 flash (vtor + 0);
     let (vtor, d) = bus_read bus M0PLUS_VTOR d;
     Some (msp, load32 flash (vtor + 4), d)
   }"

section \<open>The vector table\<close>

datatype vectFunc = V_null | V_stack | V_resetHandler | V_defaultHandler | V_svCallHandler
  | V_nmiHandler | V_hardFaultHandler | V_pendSvHandler | V_sysTickHandler
  | V_timerIrq0 | V_timerIrq1 | V_timerIrq2 | V_timerIrq3 | V_pwmIrqWrap | V_usbctrlIrq | V_xipIrq
  | V_pio0Irq0 | V_pio0Irq1 | V_pio1Irq0 | V_pio1Irq1 | V_dmaIrq0 | V_dmaIrq1 | V_ioIrqBank0 | V_ioIrqQspi
  | V_sioIrqProc0 | V_sioIrqProc1 | V_clocksIrq | V_spi0Irq | V_spi1Irq | V_uart0Irq | V_uart1Irq | V_adcIrqFifo
  | V_i2c0Irq | V_i2c1Irq | V_rtcIrq

definition vector :: "vectFunc list" where
  "vector =
     [V_stack, V_resetHandler, V_nmiHandler, V_hardFaultHandler, V_null, V_null, V_null, V_null, V_null, V_null,
      V_null, V_svCallHandler, V_null, V_null, V_pendSvHandler, V_sysTickHandler,
      V_timerIrq0, V_timerIrq1, V_timerIrq2, V_timerIrq3, V_pwmIrqWrap, V_usbctrlIrq, V_xipIrq,
      V_pio0Irq0, V_pio0Irq1, V_pio1Irq0, V_pio1Irq1, V_dmaIrq0, V_dmaIrq1, V_ioIrqBank0, V_ioIrqQspi,
      V_sioIrqProc0, V_sioIrqProc1, V_clocksIrq, V_spi0Irq, V_spi1Irq, V_uart0Irq, V_uart1Irq, V_adcIrqFifo,
      V_i2c0Irq, V_i2c1Irq, V_rtcIrq, V_null, V_null, V_null, V_null, V_null, V_null]"

text \<open>The weak symbols are aliases of the default handler.  No file of the kernel defines one of them.\<close>

definition linked_handler :: "vectFunc \<Rightarrow> vectFunc" where
  "linked_handler v =
     (if v \<in> {V_null, V_stack, V_resetHandler, V_svCallHandler} then v else V_defaultHandler)"

section \<open>The handlers\<close>

definition SIO_OUT_XOR :: u32 where "SIO_OUT_XOR = 0xD000001C"

definition blink_round :: "'d bus \<Rightarrow> 'd \<Rightarrow> 'd option" where
  "blink_round bus d = do {
     (_, d) \<leftarrow> usleep bus 50000 d;
     Some (reg_or bus SIO_OUT_XOR (push_bit 25 1) d)
   }"

partial_function (option) blink_loop :: "'d bus \<Rightarrow> 'd \<Rightarrow> 'd option" where
  "blink_loop bus d = do {
     d \<leftarrow> blink_round bus d;
     blink_loop bus d
   }"

definition defaultHandler :: "'d bus \<Rightarrow> 'd \<Rightarrow> 'd option" where
  "defaultHandler bus d = do {
     d \<leftarrow> unreset bus 5 d;
     let d = bus_write bus (gpio_ctrl 25) 5 d;
     let d = reg_or bus SIO_OE_SET (push_bit 25 1) d;
     blink_loop bus d
   }"

text \<open>The symbols of the linker script.  The pointers are to words, so their difference counts words.\<close>

record linker_symbols =
  data_start :: u32
  data_end :: u32
  sdataf :: u32
  bss_start :: u32
  bss_end :: u32

definition words_between :: "u32 \<Rightarrow> u32 \<Rightarrow> u32" where
  "words_between a b = drop_bit 2 (b - a)"

text \<open>\<open>main\<close> is an argument, and so is the bus.  The statements run one after the other: the exception that \<open>SystemInit\<close>
  enables is not part of this definition, and a statement on the run after \<open>SystemInit\<close> has to account for it.\<close>

definition resetHandler ::
  "(mem \<times> 'w) bus \<Rightarrow> linker_symbols \<Rightarrow> (mem \<times> 'w \<Rightarrow> 'r option) \<Rightarrow> mem \<times> 'w \<Rightarrow> 'r option" where
  "resetHandler bus ld main st = do {
     (_, m, w) \<leftarrow> memcpy bus (data_start ld) (sdataf ld) (words_between (data_start ld) (data_end ld) * 4) st;
     let (_, m) = memset m (bss_start ld) 0 (words_between (bss_start ld) (bss_end ld) * 4);
     st \<leftarrow> SystemInit bus (m, w);
     main st
   }"

text \<open>The C part of the start code of user programs.\<close>

definition start_c :: "u32 \<Rightarrow> u32 \<Rightarrow> (heap_state \<Rightarrow> 'r option) \<Rightarrow> heap_state \<Rightarrow> 'r option" where
  "start_c heap_start heap_end main st = main (init_malloc heap_start heap_end st)"

section \<open>The flash controller\<close>

text \<open>The configuration registers of the controller and the vector table offset, of which the low eight
  bits are fixed; what was queued is sent within some number of polls.\<close>

definition ssi_config :: "u32 set" where
  "ssi_config = {SSI_SSIENR, SSI_BAUDR, SSI_CTRLR0, SSI_SPI_CTRLR0}"

locale flash_controller =
  fixes bus :: "'d bus"
    and cfg :: "'d \<Rightarrow> u32 \<Rightarrow> u32"
    and pending :: "'d \<Rightarrow> nat"
  assumes config: "r \<in> ssi_config \<Longrightarrow> cfg (bus_write bus r v d) = (cfg d)(r := v)"
    and vtor: "cfg (bus_write bus M0PLUS_VTOR v d) = (cfg d)(M0PLUS_VTOR := v AND NOT 0xFF)"
    and vtor_read: "bus_read bus M0PLUS_VTOR d = (v, d') \<Longrightarrow> v = cfg d M0PLUS_VTOR \<and> cfg d' = cfg d"
    and send: "cfg (bus_write bus SSI_DR0 v d) = cfg d"
    and receive: "bus_read bus SSI_DR0 d = (v, d') \<Longrightarrow> cfg d' = cfg d"
    and poll: "bus_read bus SSI_SR d = (v, d') \<Longrightarrow> cfg d' = cfg d \<and>
      (if pending d = 0 then bit v 2 \<and> \<not> bit v 0 \<and> pending d' = 0 else pending d' < pending d)"
begin

lemma wait_sent: "\<exists>d'. ssi_wait bus d = Some d' \<and> cfg d' = cfg d"
proof (induction "pending d" arbitrary: d rule: less_induct)
  case less
  obtain v d1 where r1: "bus_read bus SSI_SR d = (v, d1)" by fastforce
  obtain u d2 where r2: "bus_read bus SSI_SR d1 = (u, d2)" by fastforce
  note p1 = poll [OF r1] and p2 = poll [OF r2]
  have b: "NOT v AND 4 \<noteq> 0 \<longleftrightarrow> \<not> bit v 2" "u AND 1 \<noteq> 0 \<longleftrightarrow> bit u 0"
    using and_exp_bit [of "NOT v" 2] and_exp_bit [of u 0] by (simp_all add: bit_not_iff_eq)
  have step: "ssi_wait bus d = (if \<not> bit v 2 then ssi_wait bus d1 else if bit u 0 then ssi_wait bus d2 else Some d2)"
    by (subst ssi_wait.simps) (simp only: r1 r2 b Let_def split_conv)
  show ?case
  proof (cases "pending d = 0")
    case True
    then show ?thesis using p1 p2 step by auto
  next
    case False
    then have "pending d1 < pending d" "pending d2 < pending d" using p1 p2 by (auto split: if_splits)
    then show ?thesis using less.hyps [of d1] less.hyps [of d2] p1 p2 step by auto
  qed
qed

lemma writes_DR0: "cfg (bus_writes bus SSI_DR0 vs d) = cfg d"
  by (induction vs arbitrary: d) (simp_all add: send)

lemma bootStage2_spec:
  "\<exists>d'. bootStage2 bus flash d = Some (load32 flash 0x10000100, load32 flash 0x10000104, d') \<and>
    cfg d' = (cfg d)(SSI_BAUDR := 4, SSI_CTRLR0 := 0x5F0300, SSI_SPI_CTRLR0 := 0xA0002022, SSI_SSIENR := 1,
      M0PLUS_VTOR := 0x10000100)"
proof -
  have in_config: "SSI_SSIENR \<in> ssi_config" "SSI_BAUDR \<in> ssi_config" "SSI_CTRLR0 \<in> ssi_config"
    "SSI_SPI_CTRLR0 \<in> ssi_config" by (simp_all add: ssi_config_def)
  define d1 where "d1 = bus_writes bus SSI_DR0 [0x05, 0x35] (bus_write bus SSI_SSIENR 1
    (bus_write bus SSI_CTRLR0 (push_bit 16 7) (bus_write bus SSI_BAUDR 4 (bus_write bus SSI_SSIENR 0 d))))"
  have c1: "cfg d1 = (cfg d)(SSI_SSIENR := 0, SSI_BAUDR := 4, SSI_CTRLR0 := 0x70000, SSI_SSIENR := 1)"
    unfolding d1_def writes_DR0 by (simp only: config in_config) simp
  obtain d2 where d2: "ssi_wait bus d1 = Some d2" "cfg d2 = cfg d1" using wait_sent by blast
  obtain v d3 where d3: "bus_read bus SSI_DR0 d2 = (v, d3)" by fastforce
  obtain u d4 where d4: "bus_read bus SSI_DR0 d3 = (u, d4)" by fastforce
  define d5 where "d5 = (if (ucast u :: u8) AND push_bit 1 1 = 0 then bus_writes bus SSI_DR0
    [0x06, 0x01, ucast (ucast v :: u8), ucast (ucast u :: u8) OR push_bit 1 1, 0x04] d4 else d4)"
  have c5: "cfg d5 = cfg d1"
    using receive [OF d3] receive [OF d4] d2(2) unfolding d5_def by (simp del: bus_writes.simps add: writes_DR0)
  define d6 where "d6 = bus_writes bus SSI_DR0 [0xEB, 0xA0] (bus_write bus SSI_SSIENR 1 (bus_write bus SSI_SPI_CTRLR0
    (push_bit 2 8 OR push_bit 8 2 OR push_bit 11 4 OR push_bit 0 1) (bus_write bus SSI_CTRLR0
    (push_bit 8 3 OR push_bit 16 31 OR push_bit 21 2) (bus_write bus SSI_SSIENR 0 d5))))"
  have c6: "cfg d6 = (cfg d1)(SSI_SSIENR := 0, SSI_CTRLR0 := 0x5F0300, SSI_SPI_CTRLR0 := 0x2221, SSI_SSIENR := 1)"
    unfolding d6_def writes_DR0 by (simp only: config in_config c5) simp
  obtain d7 where d7: "ssi_wait bus d6 = Some d7" "cfg d7 = cfg d6" using wait_sent by blast
  define d8 where "d8 = bus_write bus M0PLUS_VTOR (XIP_BASE + 0x100) (bus_write bus SSI_SSIENR 1
    (bus_write bus SSI_SPI_CTRLR0 (push_bit 2 8 OR push_bit 8 0 OR push_bit 24 0xA0 OR push_bit 11 4 OR push_bit 0 2)
      (bus_write bus SSI_SSIENR 0 d7)))"
  have c8: "cfg d8 = (cfg d6)(SSI_SSIENR := 0, SSI_SPI_CTRLR0 := 0xA0002022, SSI_SSIENR := 1, M0PLUS_VTOR := 0x10000100)"
    unfolding d8_def vtor by (simp only: config in_config d7(2)) (simp add: XIP_BASE_def)
  obtain x d9 where d9: "bus_read bus M0PLUS_VTOR d8 = (x, d9)" by fastforce
  obtain y d10 where d10: "bus_read bus M0PLUS_VTOR d9 = (y, d10)" by fastforce
  have xy: "x = 0x10000100" "y = 0x10000100" "cfg d10 = cfg d8"
    using vtor_read [OF d9] vtor_read [OF d10] c8 by simp_all
  have "bootStage2 bus flash d = Some (load32 flash (x + 0), load32 flash (y + 4), d10)"
    unfolding bootStage2_def Let_def
    using d2(1) d7(1) d9 d10 by (simp only: d1_def [symmetric] d3 d4 d5_def [symmetric] d6_def [symmetric]
      d8_def [symmetric] bind.bind_lunit split_conv)
  moreover have "cfg d10 = (cfg d)(SSI_BAUDR := 4, SSI_CTRLR0 := 0x5F0300, SSI_SPI_CTRLR0 := 0xA0002022,
      SSI_SSIENR := 1, M0PLUS_VTOR := 0x10000100)"
    unfolding xy(3) c8 c6 c1 by (rule ext) (simp add: ssi_regs)
  ultimately show ?thesis using xy(1,2) by simp
qed

end

text \<open>A controller to compute with: every queued word takes one poll.\<close>

record flash_port =
  fp_cfg :: "u32 \<Rightarrow> u32"
  fp_pending :: nat

definition fp_read :: "u32 \<Rightarrow> flash_port \<Rightarrow> u32 \<times> flash_port" where
  "fp_read r d =
     (if r = SSI_SR then (if fp_pending d = 0 then (4, d) else (1, d\<lparr>fp_pending := fp_pending d - 1\<rparr>))
      else if r = SSI_DR0 then (0, d) else (fp_cfg d r, d))"

definition fp_write :: "u32 \<Rightarrow> u32 \<Rightarrow> flash_port \<Rightarrow> flash_port" where
  "fp_write r v d =
     (if r = SSI_DR0 then d\<lparr>fp_pending := fp_pending d + 1\<rparr>
      else d\<lparr>fp_cfg := (fp_cfg d)(r := if r = M0PLUS_VTOR then v AND NOT 0xFF else v)\<rparr>)"

definition fp_bus :: "flash_port bus" where
  "fp_bus = \<lparr>bus_read = fp_read, bus_write = fp_write\<rparr>"

interpretation fp: flash_controller fp_bus fp_cfg fp_pending
  by unfold_locales (auto simp: fp_bus_def fp_read_def fp_write_def ssi_config_def ssi_regs split: if_splits)

section \<open>Properties\<close>

lemma blink_loop_none:
  fixes bus :: "'d bus"
  shows "blink_loop bus d = None"
proof (cases "blink_loop bus d")
  case (Some y)
  have False if "blink_loop b d = Some y" for b :: "'d bus" and d y
    using that by (rule blink_loop.raw_induct [where P = "\<lambda>b d y. False", rotated]) (auto split: bind_splits)
  with Some show ?thesis by blast
qed simp

lemma defaultHandler_none: "defaultHandler bus d = None"
  by (simp add: defaultHandler_def blink_loop_none Let_def split: bind_splits)

text \<open>C20. The second boot stage returns, however long the flash takes: the controller is left enabled in
  quad mode with the continuous-read byte, the vector table is the one behind the boot stage, and the
  processor continues with the stack pointer and at the reset handler that table holds.\<close>

theorem boot_stage2_jumps:
  assumes "flash_controller bus cfg pending"
  shows "\<exists>d'. bootStage2 bus flash d = Some (load32 flash 0x10000100, load32 flash 0x10000104, d') \<and>
    cfg d' = (cfg d)(SSI_BAUDR := 4, SSI_CTRLR0 := 0x5F0300, SSI_SPI_CTRLR0 := 0xA0002022, SSI_SSIENR := 1,
      M0PLUS_VTOR := 0x10000100)"
  using flash_controller.bootStage2_spec [OF assms] .

theorem boot_stage2_jumps_witness:
  "\<exists>d'. bootStage2 fp_bus (store32 (store32 (\<lambda>_. 0) 0x10000100 0x20040000) 0x10000104 0x10000201)
       \<lparr>fp_cfg = \<lambda>_. 0, fp_pending = 0\<rparr> = Some (0x20040000, 0x10000201, d') \<and> fp_cfg d' SSI_SSIENR = 1"
  using boot_stage2_jumps [OF fp.flash_controller_axioms, of
      "store32 (store32 (\<lambda>_. 0) 0x10000100 0x20040000) 0x10000104 0x10000201" "\<lparr>fp_cfg = \<lambda>_. 0, fp_pending = 0\<rparr>"]
  by (auto simp: load32_store32 load32_store32_apart ssi_regs)

text \<open>C40. The SysTick exception ends the kernel: \<open>SystemInit\<close> enables it, the entry of the vector table is
  an alias of the default handler, as is the one of every other interrupt, and the default handler
  does not return on any hardware.\<close>

theorem systick_ends_in_default_handler:
  assumes "registers bus reg lag" "\<not> bit (reg d REF_CTRL) 0"
  shows "\<exists>d'. SystemInit bus d = Some d' \<and> bit (reg d' SYST_CSR) 0 \<and> bit (reg d' SYST_CSR) 1 \<and>
    length vector = 48 \<and> linked_handler (vector ! 15) = V_defaultHandler \<and>
    (\<forall>n \<in> {16..<42}. linked_handler (vector ! n) = V_defaultHandler) \<and> (\<forall>d''. defaultHandler bus d'' = None)"
proof -
  obtain d' where d': "SystemInit bus d = Some d'" "reg d' = initialised (reg d)"
    using registers.SystemInit_spec [OF assms] by blast
  have v15: "linked_handler (vector ! 15) = V_defaultHandler" by code_simp
  have "list_all (\<lambda>n. linked_handler (vector ! n) = V_defaultHandler) [16..<42]" by code_simp
  then have irqs: "\<forall>n \<in> {16..<42}. linked_handler (vector ! n) = V_defaultHandler" unfolding list_all_iff set_upt .
  have "reg d' SYST_CSR = reg d SYST_CSR OR 7" using d'(2) by (simp add: initialised_def)
  then have on: "bit (reg d' SYST_CSR) 0" "bit (reg d' SYST_CSR) 1" by (simp_all add: bit_or_iff)
  have len: "length vector = 48" by (simp add: vector_def)
  show ?thesis
    by (intro exI [of _ d'] conjI allI) (rule d'(1) on len v15 irqs defaultHandler_none)+
qed

theorem systick_ends_in_default_handler_witness:
  "\<exists>d'. SystemInit rf_bus reg_file0 = Some d' \<and> bit (rf_content d' SYST_CSR) 1 \<and> defaultHandler rf_bus d' = None"
  using systick_ends_in_default_handler [OF rf.registers_axioms, of reg_file0]
  by (auto simp: reg_file0_def rf_content_def system_regs_neq)

text \<open>The lengths of the two sections, in bytes.\<close>

lemma words_between_bytes: "4 dvd unat (b - a) \<Longrightarrow> words_between a b * 4 = b - a"
proof -
  assume "4 dvd unat (b - a)"
  then have "unat (words_between a b) * 4 = unat (b - a)" by (simp add: words_between_def drop_bit_eq_div unat_div_u32)
  then have "unat (words_between a b * 4) = unat (b - a)" using unat_u32_lt [of "b - a"] by (simp add: unat_word_ariths)
  then show ?thesis by (rule word_unat_eq_iff [THEN iffD2])
qed

text \<open>Clearing the zero-initialised data.\<close>

definition cleared :: "linker_symbols \<Rightarrow> mem \<Rightarrow> mem" where
  "cleared ld m = (\<lambda>x. if x - bss_start ld < bss_end ld - bss_start ld then 0 else m x)"

lemma memset_bss:
  "4 dvd unat (bss_end ld - bss_start ld) \<Longrightarrow>
    memset m (bss_start ld) 0 (words_between (bss_start ld) (bss_end ld) * 4) = (bss_start ld, cleared ld m)"
  by (simp add: words_between_bytes prod_eq_iff memset_correct cleared_def fun_eq_iff)

text \<open>After a reset of the processor alone, with a channel that works, \<open>main\<close> finds the initialised data copied from
  the flash.\<close>

lemma warm_reset_copies_data:
  assumes "copier bus clk latched period final programmed live wk" "live w \<and> wk w = 0"
    "4 dvd unat (data_end ld - data_start ld)" "4 dvd unat (bss_end ld - bss_start ld)"
    "no_overlap (sdataf ld) (data_start ld) (data_end ld - data_start ld)"
  shows "\<exists>w'. live w' \<and> wk w' = 0 \<and> resetHandler bus ld main (m, w) = (do {
      st \<leftarrow> SystemInit bus (cleared ld (blit m (sdataf ld) (data_start ld) (data_end ld - data_start ld)), w');
      main st })"
proof -
  obtain w' where w': "memcpy bus (data_start ld) (sdataf ld) (data_end ld - data_start ld) (m, w) =
      Some (data_start ld, blit m (sdataf ld) (data_start ld) (data_end ld - data_start ld), w')" "live w' \<and> wk w' = 0"
    using copier.copy_idle [OF assms(1) _ assms(5)] assms(2) unfolding copier.rested_def [OF assms(1)] by blast
  then show ?thesis using words_between_bytes [OF assms(3)] memset_bss [OF assms(4)]
    by (intro exI [of _ w']) (simp add: resetHandler_def)
qed

text \<open>After power-on the channel is held in reset: the data is not copied.\<close>

lemma cold_reset_copies_nothing:
  assumes "held_dma bus held" "held (m, w)" "4 dvd unat (bss_end ld - bss_start ld)"
  shows "resetHandler bus ld main (m, w) = (do { st \<leftarrow> SystemInit bus (cleared ld m, w); main st })"
  using held_dma.memcpy_held [OF assms(1,2)] memset_bss [OF assms(3)] by (simp add: resetHandler_def)

definition ld1 :: linker_symbols where
  "ld1 = \<lparr>data_start = 0x20000000, data_end = 0x20000008, sdataf = 0x10001000, bss_start = 0x20000008,
     bss_end = 0x20000010\<rparr>"

end
