(* ===== verification/Elf_Props.thy ===== *)
theory Elf_Props
  imports Elf
begin

text \<open>
  The properties of the ELF loader.  The contract \<open>loader\<close> joins those of the block device and of
  the DMA channel over the same peripherals: a card that is ready leaves the channel idle.  What a
  file on the volume is, for the loader, is \<open>has_file\<close>; what happens to the heap is described by
  the block list, as in the theory of the allocator.
\<close>

section \<open>The heap around a buffer\<close>

lemma spec_malloc_block: "spec_malloc n bs = Some (off, bs') \<Longrightarrow> \<exists>s. alloc_at bs' off s"
proof (induction bs arbitrary: off bs')
  case (Cons b bs)
  obtain t a where b: "b = (t, a)" by (cases b)
  show ?case
  proof (cases "\<not> a \<and> n \<le> t")
    case True
    then show ?thesis using Cons.prems by (auto simp: b carve_def split: if_splits)
  next
    case False
    then obtain o1 bs1 where "spec_malloc n bs = Some (o1, bs1)" "off = 16 + t + o1" "bs' = (t, a) # bs1"
      using Cons.prems by (auto simp: b)
    then show ?thesis using Cons.IH [of o1 bs1] by auto
  qed
qed simp

text \<open>Splitting the only block writes to two headers.  What lies behind them is not touched.\<close>

lemma malloc_single_local:
  assumes "linked \<lparr>heap_mem = m, head = hp\<rparr> lim [(t, False)]" "n = ALIGN_4BYTE sz" "unat n + 20 < t"
    "malloc sz \<lparr>heap_mem = m, head = hp\<rparr> = Some (p, \<lparr>heap_mem = m1, head = hp\<rparr>)" "unat hp + 32 + unat n \<le> unat x"
  shows "m1 x = m x"
proof -
  let ?st = "\<lparr>heap_mem = m, head = hp\<rparr>" and ?q = "hp + 16 + n"
  have ch: "chain m lim hp [(t, False)]" and lim: "lim < 4294967280" using assms(1) by (simp_all add: linked_def heap_ok_def)
  have b: "hp \<noteq> 0" "unat (ms_size m hp) = t" "\<not> ms_isAllocated m hp" "ms_next m hp = 0" "unat hp + 16 + t = lim"
    using ch by (simp_all add: blk_def)
  have q: "unat ?q = unat hp + 16 + unat n" using b(5) lim assms(3) by (simp add: unat_add_u32)
  have "ms_size m hp \<ge> n" using b(2) assms(3) by (simp add: word_le_nat_alt)
  then have ff: "find_free_space ?st n = Some hp"
    using b by (simp add: find_free_space_def find_free_loop.simps [of m n hp] not_less)
  have n20: "unat (n + 20) = unat n + 20" using b(5) lim assms(3) by (intro trans [OF unat_add_u32]) simp_all
  have ap: "apart hp ?q" "apart ?q hp" using apart_nat [of hp ?q] q lim b(5) assms(3) by auto
  have nx: "ms_next (split_raw m hp n) ?q = 0" using b(4) ap by (simp add: split_raw_def Let_def mem_simps)
  have "split_raw m hp n x = m x"
    unfolding split_raw_def Let_def using q lim b(5) assms(3,5) by (simp add: set_outside)
  moreover have "snd (splitMemorySpace m hp n) = split_raw m hp n"
    using n20 b(2) assms(3) nx by (simp add: splitMemorySpace_eq word_less_nat_alt mergeNextMemorySpace_def)
  ultimately show ?thesis
    using assms(4,5) ff b(1,5) lim assms(3) by (auto simp: malloc_def assms(2) [symmetric] Let_def set_outside)
qed

text \<open>A buffer of \<open>sz\<close> bytes from \<open>malloc\<close>, and the heap while its owner writes to it.\<close>

lemma malloc_buffer:
  assumes "linked \<lparr>heap_mem = m, head = hp\<rparr> lim bs" "unat sz < 2147483648"
    "spec_malloc (unat (ALIGN_4BYTE sz)) bs = Some (off, bs')" "spec_split_ok (unat (ALIGN_4BYTE sz)) bs"
  obtains m1 p where "malloc sz \<lparr>heap_mem = m, head = hp\<rparr> = Some (p, \<lparr>heap_mem = m1, head = hp\<rparr>)"
    "p = hp + of_nat off" "p \<noteq> 0" "unat hp \<le> unat p" "unat p + unat sz \<le> lim" "lim < 4294967280"
    "\<forall>x. unat x < unat hp \<or> lim \<le> unat x \<longrightarrow> m1 x = m x"
    "\<forall>bytes. length bytes = unat sz \<longrightarrow> linked \<lparr>heap_mem = store_bytes m1 p bytes, head = hp\<rparr> lim bs'"
    "\<forall>t x. bs = [(t, False)] \<and> unat (ALIGN_4BYTE sz) + 20 < t \<and> unat hp + 32 + unat (ALIGN_4BYTE sz) \<le> unat x \<longrightarrow> m1 x = m x"
proof -
  let ?st = "\<lparr>heap_mem = m, head = hp\<rparr>" and ?n = "unat (ALIGN_4BYTE sz)" and ?p = "hp + of_nat off"
  have ok: "heap_ok ?st lim bs" using assms(1) by (simp add: linked_def)
  have lim: "lim < 4294967280" using ok by (simp add: heap_ok_def)
  obtain st1 where st1: "malloc sz ?st = Some (?p, st1)" "heap_ok st1 lim bs'" "head st1 = hp"
    and out: "\<And>x. unat x < unat hp \<or> lim \<le> unat x \<Longrightarrow> heap_mem st1 x = m x"
    and fresh: "\<And>x. unat hp + off \<le> unat x \<Longrightarrow> unat x < unat hp + off + ?n \<Longrightarrow> in_alloc hp bs' x"
    and room: "unat hp + off + ?n \<le> lim" "0 < off"
    using ok assms(3) by (cases rule: malloc_spec [where sz = sz]) auto
  have p: "unat ?p = unat hp + off" using room lim by (intro trans [OF unat_add_u32]) simp_all
  then have p0: "?p \<noteq> 0" using room(2) by (metis add_is_0 less_irrefl unat_0)
  have sz: "unat sz \<le> ?n" using assms(2) by (intro ALIGN_4BYTE_ge) simp
  have st1eq: "st1 = \<lparr>heap_mem = heap_mem st1, head = hp\<rparr>" using st1(3) by simp
  have "linked st1 lim bs'" using malloc_links [OF assms(1) st1(1)] assms(3,4) by simp
  then have ch: "chain (heap_mem st1) lim hp bs'" "backs (heap_mem st1) 0 hp bs'"
    using st1(3) by (simp_all add: linked_def heap_ok_def)
  have "linked \<lparr>heap_mem = store_bytes (heap_mem st1) ?p bytes, head = hp\<rparr> lim bs'"
    if len: "length bytes = unat sz" for bytes
  proof -
    have "store_bytes (heap_mem st1) ?p bytes x = heap_mem st1 x" if "\<not> in_alloc hp bs' x" for x
    proof -
      have "\<not> unat (x - ?p) < unat sz"
      proof
        assume "unat (x - ?p) < unat sz"
        then have "payload ?p (unat sz) x"
          using p room sz lim by (intro in_range_payload) (auto simp: word_less_nat_alt)
        then show False using fresh [of x] that p sz by (auto simp: payload_def)
      qed
      then show ?thesis using len assms(2) by (simp add: store_bytes_apply)
    qed
    then show ?thesis
      using client_write_chain [OF ch(1), of "store_bytes (heap_mem st1) ?p bytes"] ch(2) lim
      by (simp add: linked_def heap_ok_def)
  qed
  moreover have "heap_mem st1 x = m x"
    if "bs = [(t, False)]" "?n + 20 < t" "unat hp + 32 + ?n \<le> unat x" for t x
    using malloc_single_local [OF assms(1) [unfolded that(1)] refl that(2), of ?p "heap_mem st1" x] st1(1) st1eq that(3) by simp
  ultimately show thesis
    using that [of ?p "heap_mem st1"] st1(1) st1eq p p0 sz room lim out by auto
qed

lemma linked_frame:
  assumes "linked \<lparr>heap_mem = m, head = hp\<rparr> lim bs" "\<And>x. unat hp \<le> unat x \<Longrightarrow> unat x < lim \<Longrightarrow> m' x = m x"
  shows "linked \<lparr>heap_mem = m', head = hp\<rparr> lim bs"
  using assms chain_frame [of m lim hp bs m'] backs_frame [of m 0 hp bs lim m']
  by (simp add: linked_def heap_ok_def)

text \<open>Two blocks: their headers are all that matters, and freeing the first changes only its header.\<close>

lemma linked_frame_two:
  assumes "linked \<lparr>heap_mem = m, head = hp\<rparr> lim [(n, a), (s, b)]"
    "\<And>x. unat hp \<le> unat x \<Longrightarrow> unat x < unat hp + 32 + n \<Longrightarrow> m' x = m x"
  shows "linked \<lparr>heap_mem = m', head = hp\<rparr> lim [(n, a), (s, b)]"
proof -
  have c: "chain m lim hp [(n, a), (s, b)]" "lim < 4294967280" using assms(1) by (simp_all add: linked_def heap_ok_def)
  then have q: "unat (after hp (n, a)) = unat hp + 16 + n" "unat hp + 32 + n + s = lim" by (auto simp: unat_after)
  have "unat hp + 16 \<le> 4294967296" "unat (after hp (n, a)) + 16 \<le> 4294967296" using q c(2) by simp_all
  note h = header_cong_nat [OF this(1), of m' m] header_cong_nat [OF this(2), of m' m]
  have "ms_prev m' p = ms_prev m p" "ms_next m' p = ms_next m p" "ms_size m' p = ms_size m p"
    "ms_isAllocated m' p = ms_isAllocated m p" if "p = hp \<or> p = after hp (n, a)" for p
    using that h assms(2) q by auto
  then show ?thesis using assms(1) by (simp add: linked_def heap_ok_def blk_def)
qed

lemma free_first_local:
  assumes "linked \<lparr>heap_mem = m, head = hp\<rparr> lim [(n, True), (s, False)]" "unat x < unat hp \<or> unat hp + 16 \<le> unat x"
  shows "heap_mem (free (hp + 16) \<lparr>heap_mem = m, head = hp\<rparr>) x = m x"
proof -
  let ?q = "after hp (n, True)"
  have c: "chain m lim hp [(n, True), (s, False)]" "lim < 4294967280" "ms_prev m hp = 0"
    using assms(1) by (simp_all add: linked_def heap_ok_def)
  have b: "ms_next m hp = ?q" "ms_next m ?q = 0" using c(1) by (simp_all add: blk_def)
  have q: "unat ?q = unat hp + 16 + n" "unat hp + 32 + n + s = lim" using c by (auto simp: unat_after)
  have ap: "apart hp ?q" "apart ?q hp" using apart_nat [of hp ?q] q c(2) by auto
  have "unat hp + 16 \<le> 4294967296" using q c(2) by simp
  then show ?thesis
    using assms(2) b c(3) ap by (simp add: free_def mergeNextMemorySpace_def sizeof_memory_space_def Let_def mem_simps set_outside)
qed

lemma free_buffer:
  assumes "linked \<lparr>heap_mem = m, head = hp\<rparr> lim bs'" "spec_malloc n bs = Some (off, bs')"
  obtains m1 where "free (hp + of_nat off) \<lparr>heap_mem = m, head = hp\<rparr> = \<lparr>heap_mem = m1, head = hp\<rparr>"
    "linked \<lparr>heap_mem = m1, head = hp\<rparr> lim (spec_free off bs')"
    "\<forall>x. unat x < unat hp \<or> lim \<le> unat x \<longrightarrow> m1 x = m x"
proof -
  let ?st = "\<lparr>heap_mem = m, head = hp\<rparr>"
  obtain xs s ys where bs': "bs' = xs @ (s, True) # ys" "off = span xs + 16"
    using spec_malloc_block [OF assms(2)] by (auto simp: alloc_at_iff)
  have "chain m lim hp bs'" using assms(1) by (simp add: linked_def heap_ok_def)
  then obtain q where q: "seg m lim hp xs q" unfolding bs'(1) by (auto simp: chain_append)
  then have p: "hp + of_nat off = q + 16" using seg_addr bs'(2) by (simp add: add.assoc)
  note fl = free_links [OF assms(1) [unfolded bs'(1)], simplified, OF q]
  have "free (hp + of_nat off) ?st = \<lparr>heap_mem = heap_mem (free (q + 16) ?st), head = hp\<rparr>"
    using fl(3) by (simp add: p)
  then show thesis
    using that [of "heap_mem (free (q + 16) ?st)"] fl free_spec [OF assms(1) [unfolded bs'(1)], of "hp + of_nat off"] bs'
    by (simp add: p)
qed

section \<open>Files\<close>

definition has_file :: "fat32_volume_info_t \<Rightarrow> disk \<Rightarrow> u8 list list \<Rightarrow> u8 list \<Rightarrow> bool" where
  "has_file v d ns bytes \<longleftrightarrow> (\<exists>dirs f cs. dirs_on_disk v d dirs \<and> list_all component_ok ns \<and>
     resolve dirs (root_dir_cluster v) ns = Some (File f) \<and> fat_chain v d cs \<and> list_all (readable v d) cs \<and>
     hd cs = df_cluster f \<and> unat (df_size f) < 2147483648 \<and>
     unat (df_size f) \<le> length cs * unat (bytes_per_cluster v) \<and>
     bytes = take (unat (df_size f)) (file_bytes v d cs))"

locale loader =
  block_device dev ready disk + copier bus clk latched period final programmed live wk
  for dev :: "'w blockdev" and ready and disk and bus :: "(mem \<times> 'w) bus" and clk latched period final programmed
    and live :: "'w \<Rightarrow> bool" and wk :: "'w \<Rightarrow> nat" +
  assumes idle: "ready w \<Longrightarrow> live w \<and> wk w = 0"
begin

text \<open>Opening a file leaves everything for reading it in full, whatever happens to the memory.\<close>

lemma open_has_file:
  assumes "ready (sd s)" "vol_ok (g_fat32_volume_info s)" "has_file (g_fat32_volume_info s) (disk (sd s)) ns bytes"
    "\<forall>n. junk_ok (junk n)" "length (filename entry0) = 256"
    "length (open_file_handles s) = 16" "first_free (open_file_handles s) = Some i"
  obtains fid s1 where "fat32_open dev junk entry0 file0 (Some (0x2F # path_bytes ns)) md s = Some (fid, s1)"
    "unat (fat32_get_size fid s1) = length bytes" "length bytes < 2147483648" "ram s1 = ram s"
    "\<forall>m p. p \<noteq> 0 \<longrightarrow> (\<exists>s2. fat32_read dev fid p (fat32_get_size fid s1) (s1\<lparr>ram := m\<rparr>) = Some (True, s2) \<and>
      ram s2 = store_bytes m p bytes \<and> ready (sd s2))"
proof -
  let ?v = "g_fat32_volume_info s" and ?d = "disk (sd s)"
  obtain dirs f cs where f: "dirs_on_disk ?v ?d dirs" "list_all component_ok ns"
    "resolve dirs (root_dir_cluster ?v) ns = Some (File f)" and c: "fat_chain ?v ?d cs"
    "list_all (readable ?v ?d) cs" "hd cs = df_cluster f" "unat (df_size f) < 2147483648"
    "unat (df_size f) \<le> length cs * unat (bytes_per_cluster ?v)"
    and bytes: "bytes = take (unat (df_size f)) (file_bytes ?v ?d cs)"
    using assms(3) unfolding has_file_def by blast
  obtain s1 where op: "fat32_open dev junk entry0 file0 (Some (0x2F # path_bytes ns)) md s = Some (of_nat i, s1)"
    "i < 16" "unat (of_nat i :: u32) = i" "fat32_get_size (of_nat i) s1 = df_size f" and s1:
    "g_fat32_volume_info s1 = ?v" "disk (sd s1) = ?d" "ready (sd s1)" "ram s1 = ram s"
    "length (open_file_handles s1) = 16" "open_file_handles s1 ! i = opened f md"
    by (rule open_handle_spec [OF assms(1,2) f(1) assms(4,5) f(2,3) assms(6,7)])
  have at: "handle_at ?v ?d (opened f md) cs" by (rule opened_at [OF assms(2) c])
  have rd: "\<exists>s2. fat32_read dev (of_nat i) p (df_size f) (s1\<lparr>ram := m\<rparr>) = Some (True, s2) \<and>
      ram s2 = store_bytes m p bytes \<and> ready (sd s2)" if "p \<noteq> 0" for m p
    using fat32_read_spec [of "s1\<lparr>ram := m\<rparr>" ?v ?d "of_nat i" "opened f md" cs p "df_size f"]
      s1 op(2,3) at assms(2) c(4) that bytes by (auto simp: opened_def)
  have "unat (bytes_per_cluster ?v) = unat (sectors_per_cluster ?v) * 512"
    using assms(2) by (rule unat_bytes_per_cluster)
  then have "length (file_bytes ?v ?d cs) = length cs * unat (bytes_per_cluster ?v)"
    using length_file_bytes [of cs ?v ?d] c(2) ready_sectors [OF assms(1)] by (simp add: list_all_iff)
  then have "length bytes = unat (df_size f)" using c(5) bytes by simp
  then show thesis using that [of "of_nat i" s1] op(1,4) s1(4) c(4) rd by simp
qed

text \<open>Up to the header: the file is in a new block of the heap.\<close>

lemma loadELF_reads:
  assumes "ready (sd s)" "vol_ok (g_fat32_volume_info s)" "has_file (g_fat32_volume_info s) (disk (sd s)) ns bytes"
    "\<forall>n. junk_ok (junk n)" "length (filename entry0) = 256"
    "length (open_file_handles s) = 16" "first_free (open_file_handles s) = Some i"
    "linked \<lparr>heap_mem = ram s, head = hp\<rparr> lim bs" "n = unat (ALIGN_4BYTE (of_nat (length bytes)))"
    "spec_malloc n bs = Some (off, bs')" "spec_split_ok n bs"
  obtains p s2 where "p = hp + of_nat off" "unat hp \<le> unat p" "unat p + length bytes \<le> lim" "lim < 4294967280"
    "holds_file (ram s2) p bytes" "rested (sd s2)" "linked \<lparr>heap_mem = ram s2, head = hp\<rparr> lim bs'"
    "\<forall>x. unat x < unat hp \<or> lim \<le> unat x \<longrightarrow> ram s2 x = ram s x"
    "loadELF dev bus junk entry0 file0 (Some (0x2F # path_bytes ns)) s hp =
      (let a = array_at (ram s2) p in
       if \<not> valid_header a then Some (ELF_INVALID_EXECUTABLE, s2, hp)
       else do {
         (m, w) \<leftarrow> load_segments bus p (read_le32 a 0x1C) (ucast (read_le16 a 0x2A)) (unat (read_le16 a 0x2C)) (ram s2, sd s2);
         let h = free p \<lparr>heap_mem = m, head = hp\<rparr>;
         Some (read_le32 a 0x18, s2\<lparr>ram := heap_mem h, sd := w\<rparr>, head h)
       })"
    "\<forall>t x. bs = [(t, False)] \<and> n + 20 < t \<and> unat hp + 32 + n \<le> unat x \<longrightarrow> ram s2 x = ram s x"
proof -
  obtain fid s1 where op: "fat32_open dev junk entry0 file0 (Some (0x2F # path_bytes ns)) 0 s = Some (fid, s1)"
    "unat (fat32_get_size fid s1) = length bytes" "length bytes < 2147483648" "ram s1 = ram s"
    and rd: "\<forall>m p. p \<noteq> 0 \<longrightarrow> (\<exists>s2. fat32_read dev fid p (fat32_get_size fid s1) (s1\<lparr>ram := m\<rparr>) = Some (True, s2) \<and>
      ram s2 = store_bytes m p bytes \<and> ready (sd s2))"
    by (rule open_has_file [OF assms(1-7)])
  define sz where "sz = fat32_get_size fid s1"
  have sz: "unat sz = length bytes" "unat sz < 2147483648" using op(2,3) by (simp_all add: sz_def)
  then have n: "n = unat (ALIGN_4BYTE sz)" using assms(9) by (metis of_nat_unat ucast_id)
  obtain m1 p where ma: "malloc sz \<lparr>heap_mem = ram s, head = hp\<rparr> = Some (p, \<lparr>heap_mem = m1, head = hp\<rparr>)"
    "p = hp + of_nat off" "p \<noteq> 0" "unat hp \<le> unat p" "unat p + unat sz \<le> lim" "lim < 4294967280"
    and out: "\<forall>x. unat x < unat hp \<or> lim \<le> unat x \<longrightarrow> m1 x = ram s x"
    and ln: "\<forall>bytes. length bytes = unat sz \<longrightarrow> linked \<lparr>heap_mem = store_bytes m1 p bytes, head = hp\<rparr> lim bs'"
    and loc: "\<forall>t x. bs = [(t, False)] \<and> n + 20 < t \<and> unat hp + 32 + n \<le> unat x \<longrightarrow> m1 x = ram s x"
    unfolding n by (rule malloc_buffer [OF assms(8) sz(2) assms(10,11) [unfolded n]])
  obtain s2 where s2: "fat32_read dev fid p sz (s1\<lparr>ram := m1\<rparr>) = Some (True, s2)"
    "ram s2 = store_bytes m1 p bytes" "ready (sd s2)" using rd ma(3) unfolding sz_def by blast
  have app: "ram s2 x = (if unat (x - p) < length bytes then bytes ! unat (x - p) else m1 x)" for x
    unfolding s2(2) by (rule store_bytes_apply) (use op(3) in simp)
  have pay: "payload p (unat sz) x" if "unat (x - p) < length bytes" for x
    using that sz ma(5,6) by (intro in_range_payload) (auto simp: word_less_nat_alt)
  have in_buffer: "\<not> (unat x < unat hp \<or> lim \<le> unat x)" if "unat (x - p) < length bytes" for x
    using pay [OF that] ma(4,5) by (auto simp: payload_def)
  have behind: "ram s2 x = ram s x" if t: "bs = [(t, False)]" "n + 20 < t" "unat hp + 32 + n \<le> unat x" for t x
  proof -
    have "p = hp + 16" using assms(10) ma(2) t(1,2) by simp
    then have "unat p \<le> unat hp + 16" by (simp add: unat_word_ariths)
    moreover have "unat sz \<le> n" unfolding n by (rule ALIGN_4BYTE_ge) (use sz in simp)
    ultimately have "\<not> unat (x - p) < length bytes" using pay [of x] t(3) by (auto simp: payload_def)
    then show ?thesis using app loc t by auto
  qed
  show thesis
  proof (rule that [OF ma(2,4) _ ma(6), of s2])
    show "holds_file (ram s2) p bytes" using op(3) by (simp add: holds_file_def array_at_def app)
    show "\<forall>x. unat x < unat hp \<or> lim \<le> unat x \<longrightarrow> ram s2 x = ram s x" using app in_buffer out by auto
    show "loadELF dev bus junk entry0 file0 (Some (0x2F # path_bytes ns)) s hp =
      (let a = array_at (ram s2) p in
       if \<not> valid_header a then Some (ELF_INVALID_EXECUTABLE, s2, hp)
       else do {
         (m, w) \<leftarrow> load_segments bus p (read_le32 a 0x1C) (ucast (read_le16 a 0x2A)) (unat (read_le16 a 0x2C)) (ram s2, sd s2);
         let h = free p \<lparr>heap_mem = m, head = hp\<rparr>;
         Some (read_le32 a 0x18, s2\<lparr>ram := heap_mem h, sd := w\<rparr>, head h)
       })"
      using op(1,4) ma(1,3) s2(1) by (simp add: loadELF_def Let_def flip: sz_def)
    show "\<forall>t x. bs = [(t, False)] \<and> n + 20 < t \<and> unat hp + 32 + n \<le> unat x \<longrightarrow> ram s2 x = ram s x" using behind by blast
  qed (use sz ma ln s2 idle in \<open>auto simp: rested_def\<close>)
qed

text \<open>The rest of a run on a buffer at \<open>p\<close>, for a program whose segments lie outside \<open>lo .. hi\<close>.\<close>

definition rest_of_run :: "u32 \<Rightarrow> u32 \<Rightarrow> 'w fs \<Rightarrow> (u32 \<times> 'w fs \<times> u32) option" where
  "rest_of_run p hp s2 =
     (let a = array_at (ram s2) p in
      if \<not> valid_header a then Some (ELF_INVALID_EXECUTABLE, s2, hp)
      else do {
        (m, w) \<leftarrow> load_segments bus p (read_le32 a 0x1C) (ucast (read_le16 a 0x2A)) (unat (read_le16 a 0x2C)) (ram s2, sd s2);
        let h = free p \<lparr>heap_mem = m, head = hp\<rparr>;
        Some (read_le32 a 0x18, s2\<lparr>ram := heap_mem h, sd := w\<rparr>, head h)
      })"

lemma rest_of_run_loads:
  assumes "holds_file (ram s2) p bytes" "rested (sd s2)" "lo \<le> unat p" "unat p + length bytes \<le> hi" "hi < 4294967296"
    "elf_ok lo hi bytes"
  shows "\<exists>w. live w \<and> rest_of_run p hp s2 = (let h = free p \<lparr>heap_mem = fold (load_image bytes) (elf_segments bytes) (ram s2), head = hp\<rparr> in
    Some (word_in bytes 0x18, s2\<lparr>ram := heap_mem h, sd := w\<rparr>, head h))"
proof -
  have len: "52 \<le> length bytes" "valid_header ((!) bytes)" using assms(6) by (simp_all add: elf_ok_def)
  obtain w where seg: "load_segments bus p (word_in bytes 0x1C) (ucast (read_le16 (\<lambda>i. bytes ! (0x2A + i)) 0))
      (elf_count bytes) (ram s2, sd s2) = Some (fold (load_image bytes) (elf_segments bytes) (ram s2), w)" "live w"
    using load_segments_spec [OF assms(2,1,3,4,5,6) order_refl] first_segments_all by (auto simp: rested_def)
  have h: "read_le32 (array_at (ram s2) p) 0x18 = word_in bytes 0x18"
    "read_le32 (array_at (ram s2) p) 0x1C = word_in bytes 0x1C"
    "read_le16 (array_at (ram s2) p) 0x2A = read_le16 (\<lambda>i. bytes ! (0x2A + i)) 0"
    "unat (read_le16 (array_at (ram s2) p) 0x2C) = elf_count bytes"
    using holds_word [OF assms(1)] holds_half [OF assms(1), of "0x2A" "0x2A"] holds_half [OF assms(1), of "0x2C" "0x2C"] len(1)
    by (simp_all add: elf_count_def)
  then show ?thesis
    using holds_header [OF assms(1) len(1)] len(2) seg by (intro exI [of _ w]) (simp add: rest_of_run_def Let_def)
qed

lemma loadELF_spec:
  assumes "ready (sd s)" "vol_ok (g_fat32_volume_info s)" "has_file (g_fat32_volume_info s) (disk (sd s)) ns bytes"
    "\<forall>n. junk_ok (junk n)" "length (filename entry0) = 256"
    "length (open_file_handles s) = 16" "first_free (open_file_handles s) = Some i"
    "linked \<lparr>heap_mem = ram s, head = hp\<rparr> lim bs" "n = unat (ALIGN_4BYTE (of_nat (length bytes)))"
    "spec_malloc n bs = Some (off, bs')" "spec_split_ok n bs" "elf_ok (unat hp) lim bytes"
  shows "\<exists>s'. loadELF dev bus junk entry0 file0 (Some (0x2F # path_bytes ns)) s hp = Some (word_in bytes 0x18, s', hp) \<and>
    linked \<lparr>heap_mem = ram s', head = hp\<rparr> lim (spec_free off bs') \<and>
    (\<forall>x. unat x < unat hp \<or> lim \<le> unat x \<longrightarrow>
      ram s' x = fold (load_image bytes) (elf_segments bytes) (ram s) x)"
proof -
  obtain p s2 where p: "p = hp + of_nat off" "unat hp \<le> unat p" "unat p + length bytes \<le> lim" "lim < 4294967280"
    and s2: "holds_file (ram s2) p bytes" "rested (sd s2)" "linked \<lparr>heap_mem = ram s2, head = hp\<rparr> lim bs'"
    "\<forall>x. unat x < unat hp \<or> lim \<le> unat x \<longrightarrow> ram s2 x = ram s x"
    and run: "loadELF dev bus junk entry0 file0 (Some (0x2F # path_bytes ns)) s hp = rest_of_run p hp s2"
    unfolding rest_of_run_def by (rule loadELF_reads [OF assms(1-11)])
  let ?m = "fold (load_image bytes) (elf_segments bytes) (ram s2)"
  obtain w where fin: "rest_of_run p hp s2 = (let h = free p \<lparr>heap_mem = ?m, head = hp\<rparr> in
      Some (word_in bytes 0x18, s2\<lparr>ram := heap_mem h, sd := w\<rparr>, head h))" "live w"
    using rest_of_run_loads [OF s2(1,2) p(2,3) _ assms(12)] p(4) by auto
  have ok: "list_all (segment_ok (unat hp) lim bytes) (elf_segments bytes)" using assms(12) by (simp add: elf_ok_def)
  have "linked \<lparr>heap_mem = ?m, head = hp\<rparr> lim bs'"
    using linked_frame [OF s2(3), of ?m] fold_load_image_outside [OF ok] by blast
  then obtain m1 where fr: "free p \<lparr>heap_mem = ?m, head = hp\<rparr> = \<lparr>heap_mem = m1, head = hp\<rparr>"
    "linked \<lparr>heap_mem = m1, head = hp\<rparr> lim (spec_free off bs')"
    "\<forall>x. unat x < unat hp \<or> lim \<le> unat x \<longrightarrow> m1 x = ?m x"
    using free_buffer [OF _ assms(10)] p(1) by blast
  have "m1 x = fold (load_image bytes) (elf_segments bytes) (ram s) x" if "unat x < unat hp \<or> lim \<le> unat x" for x
    using fr(3) s2(4) that fold_load_image_local [of "ram s2" x "ram s"] by auto
  then show ?thesis using run fin(1) fr by (auto simp: Let_def)
qed

text \<open>On an unused heap, programs may also lie in the part of the heap behind the buffer.\<close>

lemma loadELF_spec_single:
  assumes "ready (sd s)" "vol_ok (g_fat32_volume_info s)" "has_file (g_fat32_volume_info s) (disk (sd s)) ns bytes"
    "\<forall>n. junk_ok (junk n)" "length (filename entry0) = 256"
    "length (open_file_handles s) = 16" "first_free (open_file_handles s) = Some i"
    "linked \<lparr>heap_mem = ram s, head = hp\<rparr> lim [(t, False)]" "n = unat (ALIGN_4BYTE (of_nat (length bytes)))"
    "n + 20 < t" "elf_ok (unat hp) (unat hp + 32 + n) bytes"
  shows "\<exists>s'. loadELF dev bus junk entry0 file0 (Some (0x2F # path_bytes ns)) s hp = Some (word_in bytes 0x18, s', hp) \<and>
    live (sd s') \<and> linked \<lparr>heap_mem = ram s', head = hp\<rparr> lim [(t, False)] \<and>
    (\<forall>x. unat x < unat hp \<or> unat hp + 32 + n \<le> unat x \<longrightarrow>
      ram s' x = fold (load_image bytes) (elf_segments bytes) (ram s) x)"
proof -
  let ?bs = "[(n, True), (t - (n + 16), False)]" and ?hi = "unat hp + 32 + n"
  have sm: "spec_malloc n [(t, False)] = Some (16, ?bs)" "spec_split_ok n [(t, False)]" "spec_free 16 ?bs = [(t, False)]"
    using assms(10) by (auto simp: split_ok_def carve_def)
  obtain p s2 where p: "p = hp + of_nat 16" "unat hp \<le> unat p" "unat p + length bytes \<le> lim" "lim < 4294967280"
    and s2: "holds_file (ram s2) p bytes" "rested (sd s2)" "linked \<lparr>heap_mem = ram s2, head = hp\<rparr> lim ?bs"
    "\<forall>x. unat x < unat hp \<or> lim \<le> unat x \<longrightarrow> ram s2 x = ram s x"
    and run: "loadELF dev bus junk entry0 file0 (Some (0x2F # path_bytes ns)) s hp = rest_of_run p hp s2"
    and loc: "\<forall>u x. [(t, False)] = [(u, False)] \<and> n + 20 < u \<and> ?hi \<le> unat x \<longrightarrow> ram s2 x = ram s x"
    unfolding rest_of_run_def by (rule loadELF_reads [OF assms(1-9) sm(1,2)])
  have hi: "?hi < lim" using s2(3) assms(10) by (auto simp: linked_def heap_ok_def unat_after)
  have len: "unat p + length bytes \<le> ?hi"
  proof -
    have "unat (of_nat (length bytes) :: u32) = length bytes" using p(3,4) by (simp add: unat_of_nat)
    then have "length bytes \<le> n" using ALIGN_4BYTE_ge [of "of_nat (length bytes)"] p(3,4) unfolding assms(9) by simp
    moreover have "unat p \<le> unat hp + 16" by (simp add: p(1) unat_word_ariths)
    ultimately show ?thesis by simp
  qed
  let ?m = "fold (load_image bytes) (elf_segments bytes) (ram s2)"
  obtain w where fin: "rest_of_run p hp s2 = (let h = free p \<lparr>heap_mem = ?m, head = hp\<rparr> in
      Some (word_in bytes 0x18, s2\<lparr>ram := heap_mem h, sd := w\<rparr>, head h))" "live w"
    using rest_of_run_loads [OF s2(1,2) p(2) len _ assms(11)] p(4) hi by auto
  have ok: "list_all (segment_ok (unat hp) ?hi bytes) (elf_segments bytes)" using assms(11) by (simp add: elf_ok_def)
  have ln: "linked \<lparr>heap_mem = ?m, head = hp\<rparr> lim ?bs"
    using linked_frame_two [OF s2(3), of ?m] fold_load_image_outside [OF ok] by blast
  obtain m1 where fr: "free p \<lparr>heap_mem = ?m, head = hp\<rparr> = \<lparr>heap_mem = m1, head = hp\<rparr>"
    "linked \<lparr>heap_mem = m1, head = hp\<rparr> lim [(t, False)]"
    using free_buffer [OF ln sm(1)] p(1) sm(3) by auto
  have "m1 x = ?m x" if "unat x < unat hp \<or> ?hi \<le> unat x" for x
    using free_first_local [OF ln, of x] fr(1) p(1) that by auto
  moreover have "ram s2 x = ram s x" if "unat x < unat hp \<or> ?hi \<le> unat x" for x
    using s2(4) loc assms(10) that by blast
  ultimately have "m1 x = fold (load_image bytes) (elf_segments bytes) (ram s) x" if "unat x < unat hp \<or> ?hi \<le> unat x" for x
    using that fold_load_image_local [of "ram s2" x "ram s"] by auto
  then show ?thesis using run fin fr
    by (intro exI [of _ "s2\<lparr>ram := m1, sd := w\<rparr>"]) (simp add: Let_def)
qed

end

section \<open>A program to compute with\<close>

text \<open>One program header behind the ELF header, and one segment of four bytes in the file and eight in
  memory.  It replaces the first sector of the file on the example volume.\<close>

definition elf1 :: "u8 list" where
  "elf1 = [0x7F, 0x45, 0x4C, 0x46, 1, 1, 1, 0, 0, 0, 0, 0, 0, 0, 0, 0, 2, 0, 0x28, 0, 1, 0, 0, 0,
     0, 0, 1, 0x20, 0x34, 0, 0, 0, 0, 0, 0, 0, 0, 0, 0, 0, 0x34, 0, 0x20, 0, 1, 0, 0, 0, 0, 0, 0, 0,
     1, 0, 0, 0, 0x60, 0, 0, 0, 0, 0, 1, 0x20, 0, 0, 1, 0x20, 4, 0, 0, 0, 8, 0, 0, 0, 7, 0, 0, 0, 4, 0, 0, 0,
     0, 0, 0, 0, 0, 0, 0, 0, 0, 0, 0, 0, 1, 2, 3, 4]"

definition elf_file :: "u8 list" where
  "elf_file = take 600 (sector elf1 @ replicate 512 0x42)"

text \<open>A device whose content does not depend on the peripherals.\<close>

definition fixed_dev :: "disk \<Rightarrow> 'w blockdev" where
  "fixed_dev dk = \<lparr>dev_read = \<lambda>lba w. Some (dk lba, w),
     dev_read_partial = \<lambda>lba off len w.
       Some (map_option (\<lambda>bs. take (unat len) (drop (unat off) bs)) (dk lba), w),
     dev_write = \<lambda>lba bs w. Some (False, w)\<rparr>"

interpretation elf_loader: loader "fixed_dev (disk_of (sector a))" "\<lambda>e. en_left e = 0" "\<lambda>_. disk_of (sector a)"
  engine_bus "\<lambda>d. en_clk (snd d)" "\<lambda>d. en_latch (snd d)" 1 engine_final "\<lambda>d. en_prog (snd d)"
  "\<lambda>_. True" en_left
  using sectors_disk_of [of "sector a"] by unfold_locales (auto simp: fixed_dev_def sectors_512_def)

definition fs_elf :: "engine fs" where
  "fs_elf = \<lparr>g_fat32_volume_info = vol1, open_file_handles = replicate 16 free_handle,
     ram = heap_mem heap0, sd = engine0\<rparr>"

abbreviation hello_txt :: "u8 list list" where
  "hello_txt \<equiv> [[0x48, 0x45, 0x4C, 0x4C, 0x4F, 0x2E, 0x54, 0x58, 0x54]]"

lemma has_file_of:
  "has_file vol1 (disk_of (sector a)) hello_txt (take 600 (sector a @ replicate 512 0x42))"
  unfolding has_file_def
proof (intro exI [of _ dirs1] exI [of _ hello] exI [of _ "[3, 4]"] conjI)
  show "resolve dirs1 (root_dir_cluster vol1) hello_txt = Some (File hello)"
    by (simp add: vol1_def dirs1_def hello_fields)
  show "list_all component_ok hello_txt" by (simp add: component_ok_def)
  show "unat (df_size hello) \<le> length [3 :: u32, 4] * unat (bytes_per_cluster vol1)"
    by (simp add: hello_fields vol1_def)
qed (simp_all only: dirs1_on_disk_of chains_of readable_of file_bytes_of hello_fields list.sel, simp_all)

lemma elf_file_nth: "i < 512 \<Longrightarrow> elf_file ! i = (if i < length elf1 then elf1 ! i else 0)"
  by (simp add: elf_file_def nth_append nth_sector)

lemma elf_file_length: "length elf_file = 600"
  by (simp add: elf_file_def)

lemma elf_file_ok: "elf_ok 0x20001000 0x20009000 elf_file" "word_in elf_file 0x18 = 0x20010000"
  "elf_segments elf_file = [\<lparr>seg_offset = 0x60, seg_vaddr = 0x20010000, seg_filesz = 4, seg_memsz = 8\<rparr>]"
proof -
  have len: "length elf1 = 100" by (simp add: elf1_def)
  have w: "word_in elf_file k = read_le32 (\<lambda>i. elf1 ! (k + i)) 0" if "k + 4 \<le> 100" for k
    unfolding word_in_def by (rule read_le32_cong) (use that len in \<open>simp add: elf_file_nth\<close>)
  have ph: "elf_header elf_file 0 = 0x34" "elf_count elf_file = 1"
    using w [of "0x1C"] by (simp_all add: elf_header_def elf_count_def elf_file_nth len read_le16_def)
      (simp_all add: elf1_def read_le32_def)
  show e: "word_in elf_file 0x18 = 0x20010000" using w [of "0x18"] by (simp add: elf1_def read_le32_def)
  have ty: "word_in elf_file 0x34 = 1" using w [of "0x34"] by (simp add: elf1_def read_le32_def)
  have sg: "segment_at elf_file 0x34 = \<lparr>seg_offset = 0x60, seg_vaddr = 0x20010000, seg_filesz = 4, seg_memsz = 8\<rparr>"
    by (simp add: segment_at_def w) (simp add: elf1_def read_le32_def)
  show gs: "elf_segments elf_file = [\<lparr>seg_offset = 0x60, seg_vaddr = 0x20010000, seg_filesz = 4, seg_memsz = 8\<rparr>]"
    using ph ty sg by (simp add: elf_segments_def)
  have "valid_header ((!) elf_file)" by (simp add: valid_header_def elf_file_nth len) (simp add: elf1_def)
  then show "elf_ok 0x20001000 0x20009000 elf_file"
    using ph by (simp add: elf_ok_def gs segment_ok_def elf_file_length)
qed

lemma fs_elf_facts: "first_free (open_file_handles fs_elf) = Some 0" "length (open_file_handles fs_elf) = 16"
  "linked \<lparr>heap_mem = ram fs_elf, head = 0x20001000\<rparr> 0x20009000 [(32752, False)]"
  "g_fat32_volume_info fs_elf = vol1" "en_left (sd fs_elf) = 0"
proof -
  have "\<lparr>heap_mem = ram fs_elf, head = 0x20001000\<rparr> = heap0" using heap0_links(2) by (simp add: fs_elf_def)
  then show "linked \<lparr>heap_mem = ram fs_elf, head = 0x20001000\<rparr> 0x20009000 [(32752, False)]"
    using heap0_links(1) by simp
qed (simp_all add: fs_elf_def first_free_def free_handle_def MAX_OPEN_FILES_def upt_rec engine0_def)

lemma malloc_600:
  "unat (ALIGN_4BYTE 600) = 600" "spec_malloc 600 [(32752, False)] = Some (16, [(600, True), (32136, False)])"
  "spec_split_ok 600 [(32752, False)]"
  by (simp_all add: ALIGN_4BYTE_push carve_def split_ok_def)

section \<open>Properties\<close>

text \<open>C7. Loading a program: for every ELF file on the volume whose headers lie in its first 64 KiB and
  whose segments lie outside the heap, \<open>loadELF\<close> returns the entry point, the memory outside the
  heap is the image the program headers describe, and the buffer has been given back.\<close>

theorem loadELF_loads:
  assumes "loader dev ready disk bus clk latched period final programmed live wk"
    "ready (sd s)" "vol_ok (g_fat32_volume_info s)" "has_file (g_fat32_volume_info s) (disk (sd s)) ns bytes"
    "\<forall>n. junk_ok (junk n)" "length (filename entry0) = 256"
    "length (open_file_handles s) = 16" "first_free (open_file_handles s) = Some i"
    "linked \<lparr>heap_mem = ram s, head = hp\<rparr> lim bs" "n = unat (ALIGN_4BYTE (of_nat (length bytes)))"
    "spec_malloc n bs = Some (off, bs')" "spec_split_ok n bs" "elf_ok (unat hp) lim bytes"
  shows "\<exists>s'. loadELF dev bus junk entry0 file0 (Some (0x2F # path_bytes ns)) s hp = Some (word_in bytes 0x18, s', hp) \<and>
    linked \<lparr>heap_mem = ram s', head = hp\<rparr> lim (spec_free off bs') \<and>
    (\<forall>x. unat x < unat hp \<or> lim \<le> unat x \<longrightarrow>
      ram s' x = fold (load_image bytes) (elf_segments bytes) (ram s) x)"
  using loader.loadELF_spec [OF assms] .

theorem loadELF_loads_witness:
  "\<exists>s'. loadELF (fixed_dev (disk_of (sector elf1))) engine_bus (\<lambda>_. junk1) info1 info1
       (Some (0x2F # path_bytes hello_txt)) fs_elf 0x20001000 = Some (0x20010000, s', 0x20001000) \<and>
     linked \<lparr>heap_mem = ram s', head = 0x20001000\<rparr> 0x20009000 [(32752, False)] \<and>
     map (ram s') [0x20010000, 0x20010003, 0x20010004] = [1, 4, 0]"
proof -
  have hf: "has_file vol1 (disk_of (sector elf1)) hello_txt elf_file" using has_file_of by (simp add: elf_file_def)
  have b: "elf_file ! 0x60 = 1" "elf_file ! 0x63 = 4" by (simp_all add: elf_file_nth) (simp_all add: elf1_def)
  show ?thesis
    using loadELF_loads [OF elf_loader.loader_axioms, of fs_elf elf1 hello_txt elf_file "\<lambda>_. junk1" info1 0
        "0x20001000" "0x20009000" "[(32752, False)]" 600 16 "[(600, True), (32136, False)]" info1]
      fs_elf_facts vol1_ok hf junk1_ok malloc_600 elf_file_ok b
    by (auto simp: elf_file_length load_image_def info1_def)
qed

text \<open>C38. A file of at least 52 bytes that is not an ELF executable for this machine is rejected with the code 1 and nothing
  outside the heap changes, but the buffer stays allocated: every attempt costs a block.\<close>

theorem loadELF_rejects_leaking:
  assumes "loader dev ready disk bus clk latched period final programmed live wk"
    "ready (sd s)" "vol_ok (g_fat32_volume_info s)" "has_file (g_fat32_volume_info s) (disk (sd s)) ns bytes"
    "\<forall>n. junk_ok (junk n)" "length (filename entry0) = 256"
    "length (open_file_handles s) = 16" "first_free (open_file_handles s) = Some i"
    "linked \<lparr>heap_mem = ram s, head = hp\<rparr> lim bs" "n = unat (ALIGN_4BYTE (of_nat (length bytes)))"
    "spec_malloc n bs = Some (off, bs')" "spec_split_ok n bs" "52 \<le> length bytes" "\<not> valid_header ((!) bytes)"
  shows "\<exists>s'. loadELF dev bus junk entry0 file0 (Some (0x2F # path_bytes ns)) s hp =
      Some (ELF_INVALID_EXECUTABLE, s', hp) \<and>
    linked \<lparr>heap_mem = ram s', head = hp\<rparr> lim bs' \<and>
    (\<forall>x. unat x < unat hp \<or> lim \<le> unat x \<longrightarrow> ram s' x = ram s x)"
proof -
  obtain p s2 where s2: "holds_file (ram s2) p bytes" "linked \<lparr>heap_mem = ram s2, head = hp\<rparr> lim bs'"
    "\<forall>x. unat x < unat hp \<or> lim \<le> unat x \<longrightarrow> ram s2 x = ram s x"
    and run: "loadELF dev bus junk entry0 file0 (Some (0x2F # path_bytes ns)) s hp =
      (let a = array_at (ram s2) p in
       if \<not> valid_header a then Some (ELF_INVALID_EXECUTABLE, s2, hp)
       else do {
         (m, w) \<leftarrow> load_segments bus p (read_le32 a 0x1C) (ucast (read_le16 a 0x2A)) (unat (read_le16 a 0x2C)) (ram s2, sd s2);
         let h = free p \<lparr>heap_mem = m, head = hp\<rparr>;
         Some (read_le32 a 0x18, s2\<lparr>ram := heap_mem h, sd := w\<rparr>, head h)
       })"
    by (rule loader.loadELF_reads [OF assms(1-12)])
  then show ?thesis using holds_header [OF s2(1) assms(13)] assms(14) by (auto simp: Let_def)
qed

theorem loadELF_rejects_leaking_witness:
  "\<exists>s'. loadELF (fixed_dev (disk_of (sector [0x41]))) engine_bus (\<lambda>_. junk1) info1 info1
       (Some (0x2F # path_bytes hello_txt)) fs_elf 0x20001000 = Some (1, s', 0x20001000) \<and>
     linked \<lparr>heap_mem = ram s', head = 0x20001000\<rparr> 0x20009000 [(600, True), (32136, False)]"
proof -
  let ?b = "take 600 (sector [0x41] @ replicate 512 0x42)"
  have "\<not> valid_header ((!) ?b)" by (simp add: valid_header_def nth_append nth_sector)
  then show ?thesis
    using loadELF_rejects_leaking [OF elf_loader.loader_axioms, of fs_elf "[0x41]" hello_txt ?b "\<lambda>_. junk1" info1 0
        "0x20001000" "0x20009000" "[(32752, False)]" 600 16 "[(600, True), (32136, False)]" info1]
      fs_elf_facts vol1_ok has_file_of [of "[0x41]"] junk1_ok malloc_600
    by (auto simp: info1_def ELF_INVALID_EXECUTABLE_def)
qed

end
