(* ===== verification/Board_Example.thy ===== *)
theory Board_Example
  imports Sd_Example System Elf_Props
begin

unbundle bit_operations_syntax

text \<open>
  A whole board to compute with: the timer and the transmitter of \<open>Console\<close>, the serial port with a
  card of \<open>Sd_Example\<close>, the register file of \<open>System\<close> and, beside the memory, the channel of \<open>Dma\<close>.
  The contracts of the components hold on it side by side.
\<close>

section \<open>The board\<close>

text \<open>Two devices side by side; the first owns some registers, the second has the rest.\<close>

definition par_bus :: "(u32 \<Rightarrow> bool) \<Rightarrow> 'a bus \<Rightarrow> 'b bus \<Rightarrow> ('a \<times> 'b) bus" where
  "par_bus own b1 b2 = \<lparr>
     bus_read = \<lambda>r (x, y). if own r then (let (v, x') = bus_read b1 r x in (v, x', y))
       else (let (v, y') = bus_read b2 r y in (v, x, y')),
     bus_write = \<lambda>r v (x, y). if own r then (bus_write b1 r v x, y) else (x, bus_write b2 r v y)\<rparr>"

definition own_chip :: "u32 \<Rightarrow> bool" where
  "own_chip r \<longleftrightarrow> r \<in> {TIMER_LR, TIMER_HR, UART_FR, UART_DR}"

definition own_spi :: "u32 \<Rightarrow> bool" where
  "own_spi r \<longleftrightarrow> r \<in> {SPI0_SR, SPI0_DR, SPI0_CR1, SIO_OUT_SET, SIO_OUT_CLR}"

definition own_dma :: "u32 \<Rightarrow> bool" where
  "own_dma r \<longleftrightarrow> r \<in> {al1_CTRL 0, al0_READ_ADDR 0, al0_WRITE_ADDR 0, al0_TRANS_COUNT 0, al0_CTRL_TRIG 0}"

type_synonym peripherals = "chip \<times> sim_port \<times> reg_file"

definition peri_bus :: "peripherals bus" where
  "peri_bus = par_bus own_chip chip_bus (par_bus own_spi sim_bus rf_bus)"

text \<open>The same peripherals and an engine, without and with the memory.  As long as it is held in reset, the
  engine reads as zeros and takes no writes.\<close>

type_synonym board = "engine \<times> peripherals"

fun dma_held :: "peripherals \<Rightarrow> bool" where "dma_held (c, p, f) \<longleftrightarrow> bit (rf_content f RESETS_RESET) 2"

definition board_bus :: "board bus" where
  "board_bus = \<lparr>
     bus_read = \<lambda>r (e, x). (let (v, x') = bus_read peri_bus r x in (v, e, x')),
     bus_write = \<lambda>r v (e, x). (e, bus_write peri_bus r v x)\<rparr>"

definition mem_bus :: "(mem \<times> board) bus" where
  "mem_bus = \<lparr>
     bus_read = \<lambda>r (m, e, x). if own_dma r \<and> dma_held x then (0, m, e, x)
       else if own_dma r then (let (v, m', e') = bus_read engine_bus r (m, e) in (v, m', e', x))
       else (let (v, x') = bus_read peri_bus r x in (v, m, e, x')),
     bus_write = \<lambda>r v (m, e, x). if own_dma r \<and> dma_held x then (m, e, x)
       else if own_dma r then (let (m', e') = bus_write engine_bus r v (m, e) in (m', e', x))
       else (m, e, bus_write peri_bus r v x)\<rparr>"

fun bd_on :: "board \<Rightarrow> bool" where "bd_on (e, c, p, f) \<longleftrightarrow> sp_on p \<and> en_left e = 0 \<and> \<not> dma_held (c, p, f)"
fun bd_rx :: "board \<Rightarrow> u8 list" where "bd_rx (e, c, p, f) = sp_rx p"
fun bd_card :: "board \<Rightarrow> sim_card" where "bd_card (e, c, p, f) = sp_card p"
fun bd_clk :: "board \<Rightarrow> nat" where "bd_clk (e, c, p, f) = ch_clk c"
fun bd_latch :: "board \<Rightarrow> u32" where "bd_latch (e, c, p, f) = ch_latch c"
fun bd_busy :: "board \<Rightarrow> nat" where "bd_busy (e, c, p, f) = ch_busy c"
fun bd_sent :: "board \<Rightarrow> u8 list" where "bd_sent (e, c, p, f) = ch_sent c"
fun bd_reg :: "board \<Rightarrow> u32 \<Rightarrow> u32" where "bd_reg (e, c, p, f) = rf_content f"
fun bd_lag :: "board \<Rightarrow> u32 \<Rightarrow> nat" where "bd_lag (e, c, p, f) = rf_lag f"
fun bd_live :: "board \<Rightarrow> bool" where "bd_live (e, x) \<longleftrightarrow> \<not> dma_held x"
fun bd_idle :: "board \<Rightarrow> bool" where "bd_idle (e, c, p, f) \<longleftrightarrow> en_left e = 0"

text \<open>Where an access goes.\<close>

lemma owners [simp]:
  "own_chip TIMER_LR" "own_chip TIMER_HR" "own_chip UART_FR" "own_chip UART_DR"
  "\<not> own_chip SPI0_SR" "\<not> own_chip SPI0_DR" "\<not> own_chip SPI0_CR1" "\<not> own_chip SIO_OUT_SET" "\<not> own_chip SIO_OUT_CLR"
  "\<not> own_chip SPI0_CPSR" "\<not> own_spi SPI0_CPSR"
  "own_spi SPI0_SR" "own_spi SPI0_DR" "own_spi SPI0_CR1" "own_spi SIO_OUT_SET" "own_spi SIO_OUT_CLR"
  "\<not> own_dma TIMER_LR" "\<not> own_dma TIMER_HR"
  "own_dma (al1_CTRL 0)" "own_dma (al0_READ_ADDR 0)" "own_dma (al0_WRITE_ADDR 0)" "own_dma (al0_TRANS_COUNT 0)"
  "own_dma (al0_CTRL_TRIG 0)"
  by (simp_all add: own_chip_def own_spi_def own_dma_def dma_regs spi_regs console_regs)

lemma not_rw: "own_chip r \<or> own_spi r \<Longrightarrow> rw_bits r = 0 \<and> r \<notin> set status_regs \<and> r \<noteq> SYST_CVR"
  by (auto simp: own_chip_def own_spi_def rw_bits_def system_regs status_regs_def spi_regs console_regs)

lemma board_read:
  "bus_read board_bus r (e, c, p, f) =
     (if own_chip r then (let (v, c') = chip_read r c in (v, e, c', p, f))
      else if own_spi r then (let (v, p') = sim_read r p in (v, e, c, p', f))
      else (let (v, f') = rf_read r f in (v, e, c, p, f')))"
  by (simp add: board_bus_def peri_bus_def par_bus_def chip_bus_def sim_bus_def rf_bus_def split: prod.splits)

lemma board_write:
  "bus_write board_bus r v (e, c, p, f) =
     (if own_chip r then (e, chip_write r v c, p, f)
      else if own_spi r then (e, c, sim_write r v p, f) else (e, c, p, rf_write r v f))"
  by (simp add: board_bus_def peri_bus_def par_bus_def chip_bus_def sim_bus_def rf_bus_def)

lemma port_regs_distinct:
  "distinct [SPI0_SR, SPI0_DR, SPI0_CR1, SIO_OUT_SET, SIO_OUT_CLR, TIMER_LR, TIMER_HR, UART_FR, UART_DR]"
  "distinct (rev [SPI0_SR, SPI0_DR, SPI0_CR1, SIO_OUT_SET, SIO_OUT_CLR, TIMER_LR, TIMER_HR, UART_FR, UART_DR])"
  by (simp_all add: spi_regs console_regs)

lemmas port_regs_neq [simp] = port_regs_distinct [simplified]

section \<open>The contracts\<close>

interpretation bd_port: spi_port board_bus bd_on bd_rx bd_card sim_step sim_select sim_deselect
proof
  show "v AND 2 \<noteq> 0 \<and> (v AND 4 \<noteq> 0 \<longleftrightarrow> bd_rx d \<noteq> []) \<and> bd_on d' \<and> bd_rx d' = bd_rx d \<and> bd_card d' = bd_card d"
    if "bd_on d" "bus_read board_bus SPI0_SR d = (v, d')" for d v d'
    using that by (cases d) (auto simp: board_read sim_read_def split: if_splits)
  show "ucast v = b \<and> bd_on d' \<and> bd_rx d' = bs \<and> bd_card d' = bd_card d"
    if "bd_on d" "bd_rx d = b # bs" "bus_read board_bus SPI0_DR d = (v, d')" for d b bs v d'
    using that by (cases d) (auto simp: board_read sim_read_def ucast_ucast_u8)
  show "bd_on d' \<and> bd_card d' = c \<and> bd_rx d' = (if length (bd_rx d) < 8 then bd_rx d @ [r] else bd_rx d)"
    if "bd_on d" "sim_step (bd_card d) b = (r, c)" "bus_write board_bus SPI0_DR (ucast b) d = d'" for d b r c d'
    using that by (cases d) (auto simp: board_write sim_write_def ucast_ucast_u8)
  show "bd_on d' \<and> bd_rx d' = bd_rx d \<and> bd_card d' = bd_card d"
    if "bd_on d" "reg = SIO_OUT_SET \<or> reg = SIO_OUT_CLR" "bus_read board_bus reg d = (v, d')" for d reg v d'
    using that by (cases d) (auto simp: board_read sim_read_def split: if_splits)
  show "bd_on d' \<and> bd_rx d' = bd_rx d \<and> bd_card d' = sim_select (bd_card d)"
    if "bd_on d" "bit v 9" "bus_write board_bus SIO_OUT_CLR v d = d'" for d v d'
    using that by (cases d) (auto simp: board_write sim_write_def)
  show "bd_on d' \<and> bd_rx d' = bd_rx d \<and> bd_card d' = sim_deselect (bd_card d)"
    if "bd_on d" "bit v 9" "bus_write board_bus SIO_OUT_SET v d = d'" for d v d'
    using that by (cases d) (auto simp: board_write sim_write_def)
qed

lemma bd_timer_axioms: "timer board_bus bd_clk bd_latch 1 (\<lambda>d. (bd_on d, bd_rx d, bd_card d)) bd_busy"
proof
  show "bd_clk d < bd_clk d' \<and> bd_clk d' \<le> bd_clk d + 1 * 4294967296 \<and> v = of_nat (bd_clk d' div 1) \<and>
      bd_latch d' = of_nat (bd_clk d' div 1 div 4294967296) \<and>
      (bd_on d', bd_rx d', bd_card d') = (bd_on d, bd_rx d, bd_card d) \<and> bd_busy d' \<le> bd_busy d"
    if "bus_read board_bus TIMER_LR d = (v, d')" for d v d'
    using that by (cases d) (auto simp: board_read chip_read_def)
  show "bd_clk d < bd_clk d' \<and> bd_clk d' \<le> bd_clk d + 1 * 4294967296 \<and> v = bd_latch d \<and>
      (bd_on d', bd_rx d', bd_card d') = (bd_on d, bd_rx d, bd_card d) \<and> bd_busy d' \<le> bd_busy d"
    if "bus_read board_bus TIMER_HR d = (v, d')" for d v d'
    using that by (cases d) (auto simp: board_read chip_read_def)
qed simp

interpretation bd_mute: mute_line board_bus bd_on bd_rx bd_card sim_step sim_select sim_deselect
  bd_clk bd_latch 1 bd_busy "\<lambda>c. \<not> inserted c"
  by (intro mute_line.intro mute_line_axioms.intro bd_port.spi_port_axioms bd_timer_axioms)
    (auto simp: sim_step_def sim_select_def sim_deselect_def)

definition sim_phase :: "sim_card \<Rightarrow> sd_phase" where
  "sim_phase c = (if sim_idle c then started c else Busy)"

lemma sim_select_fields [simp]:
  "sim_idle (sim_select c) = sim_idle c" "sim_idle (sim_deselect c) = sim_idle c"
  "sim_contents (sim_select c) = sim_contents c" "sim_contents (sim_deselect c) = sim_contents c"
  "started (sim_select c) = started c" "started (sim_deselect c) = started c"
  "countdown (sim_select c) = countdown c" "countdown (sim_deselect c) = countdown c"
  by (auto simp: sim_idle_def sim_select_def sim_deselect_def sim_contents_def fun_eq_iff)

lemma sim_next_fields:
  assumes "sim_idle c"
  shows "sim_phase ((sim_next (sim_select c) cmd)\<lparr>playing := []\<rparr>) = started (sim_next c cmd)"
    "sim_contents ((sim_next (sim_select c) cmd)\<lparr>playing := []\<rparr>) = sim_contents c"
    "countdown ((sim_next (sim_select c) cmd)\<lparr>playing := []\<rparr>) = countdown (sim_next c cmd)"
  using assms by (simp_all add: sim_phase_def sim_idle_def sim_next_def sim_select_def sim_contents_def fun_eq_iff)

lemma sim_answers_r1:
  assumes "sim_idle c" "cmd \<noteq> 0xFF" "cmd \<noteq> 0x58" "sim_answer (sim_select c) (sd_cmd cmd a crc) = r1_answer 0 r data"
    "started (sim_next c cmd) = ph" "countdown (sim_next c cmd) = k"
  shows "\<exists>n \<le> 8. answers sim_step (sim_select c) cmd a crc (r1_answer n r data)
    (\<lambda>c'. sim_phase c' = ph \<and> sim_contents c' = sim_contents c \<and> countdown c' = k)"
  using sim_answers [OF assms(1-3), of "\<lambda>c'. sim_phase c' = ph \<and> sim_contents c' = sim_contents c \<and> countdown c' = k" a crc]
    sim_next_fields [OF assms(1), of cmd] assms(4-6) by (intro exI [of _ 0]) simp

lemma answers_mono: "answers step c cmd a crc as P \<Longrightarrow> (\<And>c. P c \<Longrightarrow> Q c) \<Longrightarrow> answers step c cmd a crc as Q"
  by (simp add: answers_def split_def Let_def)

interpretation bd_sd: sd_card board_bus bd_on bd_rx bd_card sim_step sim_select sim_deselect sim_idle sim_contents
  by (rule sd_card.intro [OF bd_port.spi_port_axioms sd_card.axioms(2) [OF simcard.sd_card_axioms]])

lemma rw_CPSR: "rw_bits SPI0_CPSR = 0"
  by (simp add: rw_bits_def spi_regs system_regs)

interpretation bd_start: sd_startup board_bus bd_on bd_rx bd_card sim_step sim_select sim_deselect sim_idle sim_contents
  bd_clk bd_latch 1 bd_busy sim_phase countdown
proof (intro sd_startup.intro sd_startup_axioms.intro bd_sd.sd_card_axioms bd_timer_axioms)
  show "sim_idle c" if "sim_phase c = Ready" for c using that by (simp add: sim_phase_def split: if_splits)
  show "r = 0xFF \<and> sim_phase c' = sim_phase c \<and> sim_contents c' = sim_contents c \<and> countdown c' = countdown c"
    if "sim_phase c \<noteq> Busy" "sim_step c 0xFF = (r, c')" for c r c'
    using that by (auto simp: sim_phase_def sim_idle_def sim_step_def split: if_splits)
  show "sim_phase (sim_deselect c) = sim_phase c \<and> sim_contents (sim_deselect c) = sim_contents c \<and>
      countdown (sim_deselect c) = countdown c" for c by (simp add: sim_phase_def)
  show "sim_phase (sim_select c) = sim_phase c \<and> sim_contents (sim_select c) = sim_contents c \<and>
      countdown (sim_select c) = countdown c" for c by (simp add: sim_phase_def)
  show "\<exists>n \<le> 8. answers sim_step (sim_select c) 0x40 0 0x95 (r1_answer n 0x01 [])
      (\<lambda>c'. sim_phase c' = Idling \<and> sim_contents c' = sim_contents c \<and> countdown c' = countdown c)"
    if "sim_phase c \<noteq> Busy" for c
    using that by (intro sim_answers_r1)
      (auto simp: sim_phase_def r1_answer_def sd_cmd_def sim_next_def split: if_splits)
  show "\<exists>n \<le> 8. \<exists>x y. answers sim_step (sim_select c) 0x48 0x1AA 0x87 (r1_answer n 0x01 [x, y, 0x01, 0xAA])
      (\<lambda>c'. sim_phase c' = Idling \<and> sim_contents c' = sim_contents c \<and> countdown c' = countdown c)"
    if "sim_phase c = Idling" for c
  proof -
    have "\<exists>n \<le> 8. answers sim_step (sim_select c) 0x48 0x1AA 0x87 (r1_answer n 0x01 [0, 0, 0x01, 0xAA])
        (\<lambda>c'. sim_phase c' = Idling \<and> sim_contents c' = sim_contents c \<and> countdown c' = countdown c)"
      using that by (intro sim_answers_r1)
        (auto simp: sim_phase_def r1_answer_def sd_cmd_def sim_next_def split: if_splits)
    then show ?thesis by blast
  qed
  show "\<exists>n \<le> 8. answers sim_step (sim_select c) 0x77 0 0x65 (r1_answer n 0x01 [])
      (\<lambda>c'. sim_phase c' = AppCmd \<and> sim_contents c' = sim_contents c \<and> countdown c' = countdown c)"
    if "sim_phase c = Idling" for c
    using that by (intro sim_answers_r1)
      (auto simp: sim_phase_def r1_answer_def sd_cmd_def sim_next_def split: if_splits)
  show "\<exists>n \<le> 8. answers sim_step (sim_select c) 0x69 0x40000000 0x77
      (r1_answer n (if countdown c = 0 then 0x00 else 0x01) [])
      (\<lambda>c'. sim_phase c' = (if countdown c = 0 then Ready else Idling) \<and> sim_contents c' = sim_contents c \<and>
        countdown c' = countdown c - 1)"
    if "sim_phase c = AppCmd" for c
    using that by (intro sim_answers_r1)
      (auto simp: sim_phase_def r1_answer_def sd_cmd_def sim_next_def split: if_splits)
  show "\<exists>n \<le> 8. \<exists>o0 o1 o2 o3. bit o0 6 \<and> answers sim_step (sim_select c) 0x7A 0 0x01 (r1_answer n 0x00 [o0, o1, o2, o3])
      (\<lambda>c'. sim_phase c' = Ready \<and> sim_contents c' = sim_contents c)"
    if "sim_phase c = Ready" for c
  proof -
    have "\<exists>n \<le> 8. answers sim_step (sim_select c) 0x7A 0 0x01 (r1_answer n 0x00 [0xC0, 0xFF, 0x80, 0])
        (\<lambda>c'. sim_phase c' = Ready \<and> sim_contents c' = sim_contents c \<and> countdown c' = countdown c)"
      using that by (intro sim_answers_r1)
        (auto simp: sim_phase_def r1_answer_def sd_cmd_def sim_next_def split: if_splits)
    then obtain n where "n \<le> 8" and a: "answers sim_step (sim_select c) 0x7A 0 0x01 (r1_answer n 0x00 [0xC0, 0xFF, 0x80, 0])
        (\<lambda>c'. sim_phase c' = Ready \<and> sim_contents c' = sim_contents c \<and> countdown c' = countdown c)" by blast
    moreover have "bit (0xC0 :: u8) 6" by simp
    moreover note answers_mono [OF a, of "\<lambda>c'. sim_phase c' = Ready \<and> sim_contents c' = sim_contents c"]
    ultimately show ?thesis by blast
  qed
  show "bd_on d' \<and> bd_rx d' = bd_rx d \<and> bd_card d' = bd_card d"
    if "bd_on d" "bus_write board_bus SPI0_CPSR v d = d'" for d v d'
    using that rw_CPSR by (cases d) (auto simp: board_write rf_write_def)
qed

section \<open>Starting the card\<close>

text \<open>A board at reset, and one where everything has been released and the port is enabled.\<close>

definition board_of :: "bool \<Rightarrow> sim_card \<Rightarrow> board" where
  "board_of on c = (engine0, chip0, \<lparr>sp_on = on, sp_rx = [], sp_card = c\<rparr>,
     if on then reg_file0\<lparr>rf_reg := \<lambda>_. 0\<rparr> else reg_file0)"

definition fresh_card :: "disk \<Rightarrow> sim_card" where
  "fresh_card dk = \<lparr>inserted = True, selected = False, collected = [], playing = [], awaiting = False, absorbing = 0,
     stored = dk, started = Fresh, countdown = 3\<rparr>"

lemma fresh_board:
  "bd_card (board_of on c) = c" "bd_rx (board_of on c) = []" "bd_on (board_of on c) = on"
  "sim_phase (fresh_card dk) = Fresh" "countdown (fresh_card dk) = 3"
  "port_ready bd_on bd_rx bd_card P (board_of on c) \<longleftrightarrow> on \<and> P c"
  by (simp_all add: board_of_def fresh_card_def sim_phase_def sim_idle_def port_ready_def engine0_def rf_content_def)

text \<open>C11. \<open>SDInit\<close> returns on every card that follows the start protocol: true, with port and card ready for
  block reads, exactly when the card needs fewer than 5000 start rounds, and false otherwise.\<close>

theorem sd_init_starts_card:
  assumes "sd_startup bus enabled rx crd step select deselect idle contents clk latched period work phase tries"
    "port_ready enabled rx crd (\<lambda>c. phase c = Fresh) d"
  shows "\<exists>d'. SDInit bus d = Some (tries (crd d) < 5000, d') \<and> (tries (crd d) < 5000 \<longrightarrow>
    port_ready enabled rx crd idle d' \<and> contents (crd d') = contents (crd d))"
proof -
  have "sd_startup.in_phase enabled rx crd contents phase tries Fresh (tries (crd d)) (contents (crd d)) d"
    using assms(2) by (simp add: sd_startup.in_phase_def [OF assms(1)] port_ready_def)
  then show ?thesis using sd_startup.SDInit_spec [OF assms(1)] by blast
qed

theorem sd_init_starts_card_witness:
  "\<exists>d'. SDInit board_bus (board_of True (fresh_card disk1)) = Some (True, d') \<and>
     port_ready bd_on bd_rx bd_card sim_idle d' \<and> sim_contents (bd_card d') 0 = Some mbr1"
proof -
  have "sim_contents (fresh_card disk1) 0 = Some mbr1" using mount1(3) by (simp add: sim_contents_def fresh_card_def mbr1_def)
  then show ?thesis
    using sd_init_starts_card [OF bd_start.sd_startup_axioms, of "board_of True (fresh_card disk1)"]
    by (auto simp: fresh_board)
qed

text \<open>Without a card, when the data line always reads as ones, \<open>SDInit\<close> gives up after 255 polls and
  returns false, with the line released.\<close>

lemma sd_init_no_card:
  assumes "mute_line bus enabled rx crd step select deselect clk latched period work mute"
    "port_ready enabled rx crd mute d"
  shows "\<exists>d'. SDInit bus d = Some (False, d') \<and> port_ready enabled rx crd mute d'"
  using mute_line.SDInit_mute [OF assms(1), of d] assms(2) by (simp add: mute_line.quiet_def [OF assms(1)])

lemma sd_init_no_card_witness:
  "\<exists>d'. SDInit board_bus (board_of True ((fresh_card disk1)\<lparr>inserted := False\<rparr>)) = Some (False, d')"
  using sd_init_no_card [OF bd_mute.mute_line_axioms, of "board_of True ((fresh_card disk1)\<lparr>inserted := False\<rparr>)"]
  by (auto simp: board_of_def port_ready_def engine0_def rf_content_def)

end
