(* ===== verification/Kernel.thy ===== *)
theory Kernel
  imports Startup Board_Example
begin

unbundle bit_operations_syntax

text \<open>
  The kernel's \<open>main\<close> (\<open>src/src/kernel/main.c\<close>): releasing the peripherals from reset, the banner, starting
  the card, the heap and the file system, and loading and calling the first program.

  The code runs without interruption: the contract tracks the control register of the SysTick exception, which none of
  the drivers touches, and what is stated of a run is for one with that exception disabled.

  Two views of the same registers are arguments: \<open>pb\<close> as the drivers of the console and the card use
  them, and \<open>mb\<close> together with the memory, for the DMA.  The loaded program is an argument too:
  \<open>start entry\<close> is its effect when it is called.
\<close>

section \<open>The code\<close>

definition resetSubsys :: "'w bus \<Rightarrow> 'w \<Rightarrow> 'w option" where
  "resetSubsys bus d = do {
     d \<leftarrow> unreset bus 5 d;
     d \<leftarrow> unreset bus 8 d;
     d \<leftarrow> unreset bus 22 d;
     d \<leftarrow> unreset bus 16 d;
     unreset bus 2 d
   }"

text \<open>The state: the FAT driver's, which has the memory and the peripherals, and the head of the heap.\<close>

record 'w kernel =
  k_fs :: "'w fs"
  k_head :: u32

datatype 'k outcome = Returned 'k | Parked 'k

definition banner :: "u8 list" where
  "banner = 0x0D # chars ''freeGPOS starting'' @ [0x0D, 0x0A, 0]"

definition sd_failed :: "u8 list" where
  "sd_failed = chars ''Failed to initialize SD card'' @ [0x0D, 0x0A, 0]"

definition init_path :: "u8 list" where
  "init_path = chars ''/bin/init.elf'' @ [0]"

text \<open>The hardware part of \<open>kernel_main\<close> up to the test of \<open>SDInit\<close>.\<close>

definition kernel_devices :: "'w bus \<Rightarrow> 'w \<Rightarrow> (bool \<times> 'w) option" where
  "kernel_devices pb d = do {
     d \<leftarrow> resetSubsys pb d;
     d \<leftarrow> uart_init pb 115200 d;
     d \<leftarrow> uart_puts pb (replicate 80 0x0A) d;
     d \<leftarrow> uartTxStr pb banner d;
     let d = spi_init pb d;
     SDInit pb d
   }"

text \<open>\<open>while (!SDShutdown()) usleep(100000);\<close>\<close>

partial_function (option) shutdown_loop :: "'w bus \<Rightarrow> 'w \<Rightarrow> 'w option" where
  "shutdown_loop pb d = do {
     (ok, d) \<leftarrow> SDShutdown pb d;
     if ok then Some d else do {
       (_, d) \<leftarrow> usleep pb 100000 d;
       shutdown_loop pb d
     }
   }"

declare shutdown_loop.simps [code]

text \<open>\<open>kernel_main\<close> returns when the card does not start; otherwise it ends in an endless loop, entered with
  the state of \<open>Parked\<close>.\<close>

definition kernel_main ::
  "'w bus \<Rightarrow> (mem \<times> 'w) bus \<Rightarrow> (nat \<Rightarrow> lfn_locals) \<Rightarrow> fat_file_info_t \<Rightarrow> fat_file_info_t \<Rightarrow> u32 \<Rightarrow> u32 \<Rightarrow>
    (u32 \<Rightarrow> 'w kernel \<Rightarrow> 'w kernel option) \<Rightarrow> 'w kernel \<Rightarrow> 'w kernel outcome option" where
  "kernel_main pb mb junk entry0 file0 heap_start heap_end start k = do {
     let s = k_fs k;
     (ok, d) \<leftarrow> kernel_devices pb (sd s);
     if \<not> ok then do {
       d \<leftarrow> uartTxStr pb sd_failed d;
       Some (Returned (k\<lparr>k_fs := s\<lparr>sd := d\<rparr>\<rparr>))
     }
     else do {
       let h = init_malloc heap_start heap_end \<lparr>heap_mem = ram s, head = k_head k\<rparr>;
       let s = s\<lparr>sd := d, ram := heap_mem h\<rparr>;
       (_, s) \<leftarrow> fat32_init (sd_blockdev pb) s;
       (entry, s, hp) \<leftarrow> loadELF (sd_blockdev pb) mb junk entry0 file0 (Some init_path) s (head h);
       k \<leftarrow> start entry \<lparr>k_fs = s, k_head = hp\<rparr>;
       d \<leftarrow> shutdown_loop pb (sd (k_fs k));
       Some (Parked (k\<lparr>k_fs := (k_fs k)\<lparr>sd := d\<rparr>\<rparr>))
     }
   }"

text \<open>\<open>main\<close> returns 0 when \<open>kernel_main\<close> returns; no result means that it does not.\<close>

definition main ::
  "'w bus \<Rightarrow> (mem \<times> 'w) bus \<Rightarrow> (nat \<Rightarrow> lfn_locals) \<Rightarrow> fat_file_info_t \<Rightarrow> fat_file_info_t \<Rightarrow> u32 \<Rightarrow> u32 \<Rightarrow>
    (u32 \<Rightarrow> 'w kernel \<Rightarrow> 'w kernel option) \<Rightarrow> 'w kernel \<Rightarrow> (u32 option \<times> 'w kernel) option" where
  "main pb mb junk entry0 file0 heap_start heap_end start k = do {
     r \<leftarrow> kernel_main pb mb junk entry0 file0 heap_start heap_end start k;
     Some (case r of Returned k \<Rightarrow> (Some 0, k) | Parked k \<Rightarrow> (None, k))
   }"

text \<open>The variables of the kernel that have no initialiser, as the reset handler leaves them: zero.\<close>

definition zero_volume :: fat32_volume_info_t where
  "zero_volume = \<lparr>volume_start_lba = 0, bytes_per_sector = 0, sectors_per_cluster = 0, reserved_sector_count = 0,
     num_fats = 0, fat_size_sectors = 0, root_dir_cluster = 0, total_sectors = 0, total_clusters = 0, first_fat_lba = 0,
     data_start_lba = 0, is_initialized = False, fsinfo_sector_lba = 0, backup_boot_sector_lba = 0,
     bytes_per_cluster = 0\<rparr>"

definition zero_handle :: file_handle_t where
  "zero_handle = \<lparr>cluster_start = 0, fh_current_cluster = 0, current_offset = 0, fh_file_size = 0,
     current_file_pos = 0, is_free = False, mode = 0\<rparr>"

definition zero_kernel :: "mem \<times> 'w \<Rightarrow> 'w kernel" where
  "zero_kernel = (\<lambda>(m, w). \<lparr>k_fs = \<lparr>g_fat32_volume_info = zero_volume,
     open_file_handles = replicate MAX_OPEN_FILES zero_handle, ram = m, sd = w\<rparr>, k_head = 0\<rparr>)"

section \<open>The contract of the board\<close>

text \<open>What the console shows before the card is started.\<close>

definition greeting :: "u8 list" where
  "greeting = replicate 80 0x0A @ butlast banner"

text \<open>The registers of the set-up sequences.  A write to one of them may move the select line of the card.\<close>

definition setup_regs :: "u32 set" where
  "setup_regs = {UART_IBRD, UART_FBRD, UART_LCR_H, UART_LCR, SPI0_CR0, SPI0_CPSR, SPI0_CR1, SIO_OE_SET,
     gpio_ctrl 0, gpio_ctrl 1, gpio_ctrl 9, gpio_ctrl 16, gpio_ctrl 18, gpio_ctrl 19, pad_gpio 18, pad_gpio 19}"

locale board =
  registers pb reg lag +
  uart_port pb sent room backlog "\<lambda>d. (quiet d, rx d, card d, reg d)" +
  spi_port pb enabled rx card step select deselect +
  timer pb clk latched period "\<lambda>d. (enabled d, rx d, card d)" work
  for pb :: "'w bus" and reg and lag and sent and room and backlog and quiet :: "'w \<Rightarrow> bool"
    and enabled :: "'w \<Rightarrow> bool" and rx :: "'w \<Rightarrow> u8 list" and card :: "'w \<Rightarrow> 'c" and step select deselect
    and clk latched period work +
  assumes resets: "\<lbrakk>r = RESETS_RESET \<or> r = RESETS_RESET_DONE; bus_read pb r d = (v, d')\<rbrakk> \<Longrightarrow>
      sent d' = sent d \<and> quiet d' = quiet d \<and> rx d' = rx d \<and> card d' = card d"
    and release: "sent (bus_write pb RESETS_RESET v d) = sent d \<and> quiet (bus_write pb RESETS_RESET v d) = quiet d \<and>
      rx (bus_write pb RESETS_RESET v d) = rx d \<and> card (bus_write pb RESETS_RESET v d) = card d"
    and set_up: "\<lbrakk>r \<in> setup_regs; bus_write pb r v d = d'\<rbrakk> \<Longrightarrow>
      sent d' = sent d \<and> (quiet d \<longrightarrow> quiet d') \<and> rx d' = rx d \<and> reg d' = reg d \<and>
      (card d' = card d \<or> card d' = select (card d) \<or> card d' = deselect (card d))"
    and control_1: "bus_read pb SPI0_CR1 d = (v, d') \<Longrightarrow> sent d' = sent d \<and> quiet d' = quiet d \<and> rx d' = rx d \<and>
      reg d' = reg d \<and> card d' = card d"
    and enable: "\<lbrakk>quiet d; \<not> bit (reg d RESETS_RESET) 16; \<not> bit (reg d RESETS_RESET) 2; bit v 1\<rbrakk> \<Longrightarrow> enabled (bus_write pb SPI0_CR1 v d)"
    and separate: "r \<in> {SPI0_SR, SPI0_DR, SIO_OUT_SET, SIO_OUT_CLR, TIMER_LR, TIMER_HR} \<Longrightarrow>
      sent (snd (bus_read pb r d)) = sent d \<and> sent (bus_write pb r v d) = sent d \<and>
      reg (snd (bus_read pb r d)) = reg d \<and> reg (bus_write pb r v d) = reg d"
begin

text \<open>What the drivers of the card, the timer and the DMA leave alone: the console and the control of the SysTick exception.\<close>

definition seen :: "'w \<Rightarrow> u8 list \<times> u32" where
  "seen d = (sent d, reg d SYST_CSR)"

definition released :: "nat \<Rightarrow> 'w \<Rightarrow> 'w \<Rightarrow> bool" where
  "released k d d' \<longleftrightarrow> unreset pb k d = Some d' \<and>
    sent d' = sent d \<and> quiet d' = quiet d \<and> rx d' = rx d \<and> card d' = card d \<and>
    reg d' = (reg d)(RESETS_RESET := reg d RESETS_RESET AND NOT (push_bit k 1))"

lemma released_bit:
  "released k d d' \<Longrightarrow> bit (reg d' RESETS_RESET) i \<longleftrightarrow> bit (reg d RESETS_RESET) i \<and> i \<noteq> k"
  unfolding released_def by (simp only: fun_upd_same bit_and_not_exp)

lemma released_keeps:
  "released k d d' \<Longrightarrow> sent d' = sent d \<and> quiet d' = quiet d \<and> rx d' = rx d \<and> card d' = card d \<and>
    (\<forall>r. r \<noteq> RESETS_RESET \<longrightarrow> reg d' r = reg d r)"
  by (simp add: released_def)

lemma unreset_released:
  assumes "k < 25"
  shows "\<exists>d'. released k d d'"
proof -
  let ?f = "\<lambda>d. (sent d, quiet d, rx d, card d)" and ?d = "reg_and_not pb RESETS_RESET (push_bit k 1) d"
  obtain d' where d': "unreset pb k d = Some d'"
    "reg d' = (reg d)(RESETS_RESET := reg d RESETS_RESET AND NOT (push_bit k 1))"
    using unreset_spec [OF assms] by blast
  obtain v d1 where v: "bus_read pb RESETS_RESET d = (v, d1)" by fastforce
  have "?f ?d = ?f d" using resets [OF disjI1 [OF refl] v] release by (simp add: reg_and_not_def v)
  moreover have "?f d' = ?f ?d"
    by (rule wait_set_keeps [where reg = RESETS_RESET_DONE]) (use resets d'(1) in \<open>auto simp: unreset_def\<close>)
  ultimately have "released k d d'" using d' by (simp add: released_def)
  then show ?thesis ..
qed

text \<open>Exactly the five peripherals are released, and no other control register changes.\<close>

definition devices_released :: "(u32 \<Rightarrow> u32) \<Rightarrow> (u32 \<Rightarrow> u32) \<Rightarrow> bool" where
  "devices_released g g' \<longleftrightarrow> (\<forall>r. r \<noteq> RESETS_RESET \<longrightarrow> g' r = g r) \<and>
     (\<forall>k. bit (g' RESETS_RESET) k \<longleftrightarrow> bit (g RESETS_RESET) k \<and> k \<notin> {2, 5, 8, 16, 22})"

lemma devices_released_csr: "devices_released g g' \<Longrightarrow> g' SYST_CSR = g SYST_CSR"
  by (simp add: devices_released_def system_regs_neq)

lemma resetSubsys_spec:
  "\<exists>d'. resetSubsys pb d = Some d' \<and> sent d' = sent d \<and> quiet d' = quiet d \<and> rx d' = rx d \<and> card d' = card d \<and>
    devices_released (reg d) (reg d')"
proof -
  obtain d1 where d1: "released 5 d d1" using unreset_released [of 5 d] by auto
  obtain d2 where d2: "released 8 d1 d2" using unreset_released [of 8 d1] by auto
  obtain d3 where d3: "released 22 d2 d3" using unreset_released [of 22 d2] by auto
  obtain d4 where d4: "released 16 d3 d4" using unreset_released [of 16 d3] by auto
  obtain d5 where d5: "released 2 d4 d5" using unreset_released [of 2 d4] by auto
  have "resetSubsys pb d = Some d5" using d1 d2 d3 d4 d5 by (simp add: resetSubsys_def released_def)
  moreover have "sent d5 = sent d \<and> quiet d5 = quiet d \<and> rx d5 = rx d \<and> card d5 = card d \<and>
      (\<forall>r. r \<noteq> RESETS_RESET \<longrightarrow> reg d5 r = reg d r)"
    using released_keeps [OF d1] released_keeps [OF d2] released_keeps [OF d3] released_keeps [OF d4]
      released_keeps [OF d5] by simp
  moreover have "bit (reg d5 RESETS_RESET) k \<longleftrightarrow> bit (reg d RESETS_RESET) k \<and> k \<notin> {2, 5, 8, 16, 22}" for k
    unfolding released_bit [OF d5] released_bit [OF d4] released_bit [OF d3] released_bit [OF d2]
      released_bit [OF d1] by blast
  ultimately show ?thesis unfolding devices_released_def by blast
qed

text \<open>What the set-up sequences keep; \<open>Q\<close> is a property of the card that the select line does not affect.\<close>

definition unselective :: "('c \<Rightarrow> bool) \<Rightarrow> bool" where
  "unselective Q \<longleftrightarrow> (\<forall>c. Q c \<longrightarrow> Q (select c) \<and> Q (deselect c))"

definition kept :: "('c \<Rightarrow> bool) \<Rightarrow> 'w \<Rightarrow> 'w \<Rightarrow> bool" where
  "kept Q d d' \<longleftrightarrow> sent d' = sent d \<and> quiet d' \<and> rx d' = rx d \<and> reg d' = reg d \<and> Q (card d')"

lemma kept_write:
  assumes "unselective Q" "r \<in> setup_regs" "kept Q d0 d"
  shows "kept Q d0 (bus_write pb r v d)"
proof -
  have k: "sent d = sent d0" "quiet d" "rx d = rx d0" "reg d = reg d0" "Q (card d)"
    using assms(3) by (simp_all add: kept_def)
  have "Q (select (card d))" "Q (deselect (card d))" using assms(1) k(5) by (simp_all add: unselective_def)
  then show ?thesis using set_up [OF assms(2) refl, of v d] k unfolding kept_def by metis
qed

lemma kept_read: "kept Q d0 d \<Longrightarrow> bus_read pb SPI0_CR1 d = (v, d') \<Longrightarrow> kept Q d0 d'"
  using control_1 [of d v d'] by (simp add: kept_def)

lemma kept_uart_init:
  assumes "unselective Q" "kept Q d0 d"
  shows "\<exists>d'. uart_init pb 115200 d = Some d' \<and> kept Q d0 d'"
proof -
  obtain a b where ab: "uart_divisors 115200 = (a, b)" by fastforce
  have "kept Q d0 (bus_write pb (gpio_ctrl 1) 2 (bus_write pb (gpio_ctrl 0) 2 (bus_write pb UART_LCR 0x301
      (bus_write pb UART_LCR_H 0x70 (bus_write pb UART_FBRD b (bus_write pb UART_IBRD a d))))))"
    by (intro kept_write assms) (simp_all add: setup_regs_def)
  then show ?thesis by (simp add: uart_init_def ab Let_def)
qed

lemma kept_spi_init:
  assumes "unselective Q" "kept Q d0 d" "\<not> bit (reg d0 RESETS_RESET) 16" "\<not> bit (reg d0 RESETS_RESET) 2"
  shows "enabled (spi_init pb d) \<and> kept Q d0 (spi_init pb d)"
proof -
  have ro: "kept Q d0 (reg_or pb SPI0_CR1 b d) \<and> kept Q d0 (reg_and_not pb SPI0_CR1 b d)" if "kept Q d0 d" for b d
  proof -
    obtain v d1 where v: "bus_read pb SPI0_CR1 d = (v, d1)" by fastforce
    show ?thesis using kept_write [OF assms(1) _ kept_read [OF that v]] by (simp add: reg_or_def reg_and_not_def v setup_regs_def)
  qed
  define d1 where "d1 = reg_and_not pb SPI0_CR1 4 (bus_write pb SPI0_CPSR 254 (bus_write pb SPI0_CR0 7 d))"
  have "kept Q d0 (bus_write pb SPI0_CPSR 254 (bus_write pb SPI0_CR0 7 d))"
    by (intro kept_write assms) (simp_all add: setup_regs_def)
  then have k1: "kept Q d0 d1" using ro unfolding d1_def by blast
  define d2 where "d2 = bus_write pb (pad_gpio 19) 0x102 (bus_write pb (pad_gpio 18) 0x102 (bus_write pb SIO_OE_SET 0x200
    (bus_write pb (gpio_ctrl 9) 5 (bus_write pb (gpio_ctrl 19) 1 (bus_write pb (gpio_ctrl 18) 1 (bus_write pb (gpio_ctrl 16) 1 d1))))))"
  have k2: "kept Q d0 d2"
    unfolding d2_def by (intro kept_write assms(1) k1) (simp_all add: setup_regs_def)
  have run: "spi_init pb d = reg_or pb SPI0_CR1 2 d2" by (simp add: spi_init_def d1_def d2_def Let_def)
  obtain v d3 where v: "bus_read pb SPI0_CR1 d2 = (v, d3)" by fastforce
  have "bit (v OR 2) 1" by (simp add: bit_simps)
  then have "enabled (reg_or pb SPI0_CR1 2 d2)"
    using enable [of d3 "v OR 2"] kept_read [OF k2 v] assms(3,4) by (simp add: kept_def reg_or_def v)
  then show ?thesis using ro [OF k2] unfolding run by blast
qed

lemma banner_bytes: "banner = butlast banner @ [0]" "0 \<notin> set (butlast banner)"
  "sd_failed = butlast sd_failed @ [0]" "0 \<notin> set (butlast sd_failed)"
  by (simp_all add: banner_def sd_failed_def chars_def)

lemma kernel_devices_spec:
  assumes "unselective Q" "quiet d" "Q (card d)" "rx d = []"
  obtains d1 where "kernel_devices pb d = SDInit pb d1" "port_ready enabled rx card Q d1"
    "sent d1 = sent d @ greeting" "devices_released (reg d) (reg d1)"
proof -
  obtain d1 where d1: "resetSubsys pb d = Some d1" "sent d1 = sent d" "quiet d1 = quiet d" "rx d1 = rx d" "card d1 = card d"
    "devices_released (reg d) (reg d1)"
    using resetSubsys_spec [of d] by blast
  have "kept Q d1 d1" using d1 assms by (simp add: kept_def)
  then obtain d2 where d2: "uart_init pb 115200 d1 = Some d2" "kept Q d1 d2" using kept_uart_init [OF assms(1)] by blast
  obtain d3 where d3: "uart_puts pb (replicate 80 0x0A) d2 = Some d3" "sent d3 = sent d2 @ replicate 80 0x0A"
    "(quiet d3, rx d3, card d3, reg d3) = (quiet d2, rx d2, card d2, reg d2)"
    using uart_puts_sends [of "replicate 80 0x0A" d2] by blast
  obtain d4 where d4: "uartTxStr pb banner d3 = Some d4" "sent d4 = sent d3 @ butlast banner"
    "(quiet d4, rx d4, card d4, reg d4) = (quiet d3, rx d3, card d3, reg d3)"
    using uartTxStr_sends [OF banner_bytes(2), of "[]" d3] banner_bytes(1) by metis
  have g: "reg d4 = reg d1" using d2(2) d3(3) d4(3) by (simp add: kept_def)
  have "kept Q d4 d4" using d2(2) d3(3) d4(3) by (simp add: kept_def)
  then have k: "enabled (spi_init pb d4)" "kept Q d4 (spi_init pb d4)"
    using kept_spi_init [OF assms(1)] d1(6) by (auto simp: g devices_released_def)
  have "rx d4 = []" "sent d4 = sent d @ greeting"
    using d1(2,4) d2(2) d3(2,3) d4(2,3) assms(4) by (simp_all add: kept_def greeting_def)
  then show thesis
    using that [of "spi_init pb d4"] k d1(1,6) d2(1) d3(1) d4(1) g
    by (simp add: kernel_devices_def kept_def port_ready_def Let_def)
qed

text \<open>The card driver does not print, and it does not touch the SysTick timer.\<close>

lemma silent_port: "spi_port pb (\<lambda>d. enabled d \<and> seen d = S) rx card step select deselect"
proof
  have sep: "seen (snd (bus_read pb r d)) = seen d \<and> seen (bus_write pb r v d) = seen d"
    if "r \<in> {SPI0_SR, SPI0_DR, SIO_OUT_SET, SIO_OUT_CLR, TIMER_LR, TIMER_HR}" for r v d
    using separate [OF that, of d v] by (simp_all add: seen_def)
  show "v AND 2 \<noteq> 0 \<and> (v AND 4 \<noteq> 0 \<longleftrightarrow> rx d \<noteq> []) \<and> (enabled d' \<and> seen d' = S) \<and> rx d' = rx d \<and> card d' = card d"
    if "enabled d \<and> seen d = S" "bus_read pb SPI0_SR d = (v, d')" for d v d'
    using status [of d v d'] sep [of SPI0_SR d] that by simp
  show "ucast v = b \<and> (enabled d' \<and> seen d' = S) \<and> rx d' = bs \<and> card d' = card d"
    if "enabled d \<and> seen d = S" "rx d = b # bs" "bus_read pb SPI0_DR d = (v, d')" for d b bs v d'
    using receive [of d b bs v d'] sep [of SPI0_DR d] that by simp
  show "(enabled d' \<and> seen d' = S) \<and> card d' = c \<and> rx d' = (if length (rx d) < 8 then rx d @ [r] else rx d)"
    if "enabled d \<and> seen d = S" "step (card d) b = (r, c)" "bus_write pb SPI0_DR (ucast b) d = d'" for d b r c d'
    using transmit [of d b r c d'] sep [of SPI0_DR d] that by auto
  show "(enabled d' \<and> seen d' = S) \<and> rx d' = rx d \<and> card d' = card d"
    if "enabled d \<and> seen d = S" "r = SIO_OUT_SET \<or> r = SIO_OUT_CLR" "bus_read pb r d = (v, d')" for d r v d'
    using sio_read [of d r v d'] sep [of r d] that by auto
  show "(enabled d' \<and> seen d' = S) \<and> rx d' = rx d \<and> card d' = select (card d)"
    if "enabled d \<and> seen d = S" "bit v 9" "bus_write pb SIO_OUT_CLR v d = d'" for d v d'
    using cs_low [of d v d'] sep [of SIO_OUT_CLR d] that by auto
  show "(enabled d' \<and> seen d' = S) \<and> rx d' = rx d \<and> card d' = deselect (card d)"
    if "enabled d \<and> seen d = S" "bit v 9" "bus_write pb SIO_OUT_SET v d = d'" for d v d'
    using cs_high [of d v d'] sep [of SIO_OUT_SET d] that by auto
qed

lemma timer_keeps: "timer pb clk latched period (\<lambda>d. f (enabled d, rx d, card d, sent d, reg d)) work"
proof
  note sep = separate [unfolded insert_iff]
  show "clk d < clk d' \<and> clk d' \<le> clk d + period * 4294967296 \<and> v = of_nat (clk d' div period) \<and>
      latched d' = of_nat (clk d' div period div 4294967296) \<and>
      f (enabled d', rx d', card d', sent d', reg d') = f (enabled d, rx d, card d, sent d, reg d) \<and> work d' \<le> work d"
    if "bus_read pb TIMER_LR d = (v, d')" for d v d'
    using low [OF that] sep [of TIMER_LR d] that by simp
  show "clk d < clk d' \<and> clk d' \<le> clk d + period * 4294967296 \<and> v = latched d \<and>
      f (enabled d', rx d', card d', sent d', reg d') = f (enabled d, rx d, card d, sent d, reg d) \<and> work d' \<le> work d"
    if "bus_read pb TIMER_HR d = (v, d')" for d v d'
    using high [OF that] sep [of TIMER_HR d] that by simp
qed (rule period)

lemma silent_timer: "timer pb clk latched period (\<lambda>d. (enabled d \<and> seen d = S, rx d, card d)) work"
  using timer_keeps [of "\<lambda>(e, x, c, s, g). (e \<and> (s, g SYST_CSR) = S, x, c)"] by (simp add: seen_def)

lemma kernel_without_card:
  assumes "mute_line pb enabled rx card step select deselect clk latched period work mute" "quiet d" "rx d = []" "mute (card d)"
  shows "\<exists>d1 d2. kernel_devices pb d = Some (False, d1) \<and> uartTxStr pb sd_failed d1 = Some d2 \<and>
    sent d2 = sent d @ greeting @ butlast sd_failed \<and> reg d2 SYST_CSR = reg d SYST_CSR"
proof -
  have u: "unselective mute" using mute_line.no_select [OF assms(1)] by (simp add: unselective_def)
  obtain d1 where d1: "kernel_devices pb d = SDInit pb d1" "port_ready enabled rx card mute d1"
    "sent d1 = sent d @ greeting" "devices_released (reg d) (reg d1)"
    by (rule kernel_devices_spec [of mute d, OF u assms(2,4,3)])
  note m = mute_line.intro [OF silent_port [of "seen d1"] silent_timer mute_line.axioms(3) [OF assms(1)]]
  have "mute_line.quiet (\<lambda>d. enabled d \<and> seen d = seen d1) rx card mute d1"
    using d1(2) by (simp add: mute_line.quiet_def [OF m] port_ready_def)
  then obtain d2 where d2: "SDInit pb d1 = Some (False, d2)" "seen d2 = seen d1"
    using mute_line.SDInit_mute [OF m, of d1] by (auto simp: mute_line.quiet_def [OF m] port_ready_def)
  obtain d3 where d3: "uartTxStr pb sd_failed d2 = Some d3" "sent d3 = sent d2 @ butlast sd_failed" "reg d3 = reg d2"
    using uartTxStr_sends [OF banner_bytes(4), of "[]" d2] banner_bytes(3) by (metis prod.inject)
  then show ?thesis using d1(1,3) d2 devices_released_csr [OF d1(4)] by (auto simp: seen_def)
qed

end

section \<open>Booting from a card\<close>

abbreviation init_elf :: "u8 list list" where
  "init_elf \<equiv> [chars ''bin'', chars ''init.elf'']"

lemma init_path_bytes: "init_path = 0x2F # path_bytes init_elf"
  by (simp add: init_path_def chars_def)

text \<open>Setting up the heap writes one header.\<close>

lemma init_malloc_outside:
  assumes "unat (ALIGN_4BYTE hs) + 16 \<le> unat he" "unat he < 4294967280"
    "unat x < unat (ALIGN_4BYTE hs) \<or> unat (ALIGN_4BYTE hs) + 16 \<le> unat x"
  shows "heap_mem (init_malloc hs he st) x = heap_mem st x"
  using assms by (auto simp: init_malloc_def Let_def set_outside)

lemma first_free_all: "length hs = 16 \<Longrightarrow> first_free (map (\<lambda>h. h\<lparr>is_free := True\<rparr>) hs) = Some 0"
  by (simp add: first_free_def MAX_OPEN_FILES_def upt_rec)

context sd_card
begin

lemma is_block_device: "block_device (sd_blockdev bus) card_ready card_disk"
  by (rule card_device.block_device_axioms)

end

context sd_startup
begin

text \<open>A card that answers is switched off at the first attempt.\<close>

lemma shutdown_loop_spec:
  assumes "in_phase Ready k dk d"
  shows "\<exists>d'. shutdown_loop bus d = Some d' \<and> in_phase Idling k dk d'"
proof -
  obtain d' where "SDShutdown bus d = Some (True, d')" "in_phase Idling k dk d'" using SDShutdown_spec [OF assms] by blast
  then show ?thesis by (subst shutdown_loop.simps) simp
qed

end

context board
begin

text \<open>From the start of the devices to a card that is ready.\<close>

lemma silent_startup:
  assumes "sd_startup pb enabled rx card step select deselect idle contents clk latched period work phase tries"
  shows "sd_startup pb (\<lambda>d. enabled d \<and> seen d = S) rx card step select deselect idle contents clk latched period work phase tries"
proof (rule sd_startup.intro [OF sd_card.intro [OF silent_port] silent_timer])
  show "sd_card_axioms step select deselect idle contents" using assms by (intro sd_card.axioms(2) sd_startup.axioms(1))
  show "sd_startup_axioms pb (\<lambda>d. enabled d \<and> seen d = S) rx card step select deselect idle contents phase tries"
  proof (rule sd_startup_axioms.intro)
    show "(enabled d' \<and> seen d' = S) \<and> rx d' = rx d \<and> card d' = card d"
      if "enabled d \<and> seen d = S" "bus_write pb SPI0_CPSR v d = d'" for d v d'
      using sd_startup.speed [OF assms _ that(2)] set_up [OF _ that(2)] that(1) by (simp add: setup_regs_def seen_def)
  qed (erule (1) sd_startup.dummy [OF assms] | erule sd_startup.ready_idle [OF assms] sd_startup.released [OF assms]
    sd_startup.asserted [OF assms] sd_startup.cmd0 [OF assms] sd_startup.cmd8 [OF assms] sd_startup.cmd55 [OF assms]
    sd_startup.acmd41 [OF assms] sd_startup.cmd58 [OF assms])+
qed

lemma kernel_with_card:
  assumes "sd_startup pb enabled rx card step select deselect idle contents clk latched period work phase tries"
    "quiet d" "rx d = []" "phase (card d) = Fresh" "tries (card d) < 5000"
  shows "\<exists>d'. kernel_devices pb d = Some (True, d') \<and>
    port_ready (\<lambda>d'. enabled d' \<and> seen d' = (sent d @ greeting, reg d SYST_CSR)) rx card idle d' \<and> contents (card d') = contents (card d)"
proof -
  let ?Q = "\<lambda>c. phase c = Fresh \<and> tries c = tries (card d) \<and> contents c = contents (card d)"
  have u: "unselective ?Q"
    using sd_startup.released [OF assms(1)] sd_startup.asserted [OF assms(1)] by (simp add: unselective_def)
  obtain d1 where d1: "kernel_devices pb d = SDInit pb d1" "port_ready enabled rx card ?Q d1" "sent d1 = sent d @ greeting"
    "devices_released (reg d) (reg d1)"
    by (rule kernel_devices_spec [of ?Q d, OF u assms(2) _ assms(3)]) (use assms(4) in auto)
  note s = silent_startup [OF assms(1), of "(sent d @ greeting, reg d SYST_CSR)"]
  have out: "seen d1 = (sent d @ greeting, reg d SYST_CSR)" using d1(3) devices_released_csr [OF d1(4)] by (simp add: seen_def)
  have "sd_startup.in_phase (\<lambda>d'. enabled d' \<and> seen d' = (sent d @ greeting, reg d SYST_CSR)) rx card contents phase tries Fresh
      (tries (card d)) (contents (card d)) d1"
    using d1(2) out by (simp add: sd_startup.in_phase_def [OF s] port_ready_def conj_ac)
  then show ?thesis using sd_startup.SDInit_spec [OF s] d1(1) assms(5) by fastforce
qed

lemma kernel_boot:
  assumes card: "sd_startup pb enabled rx card step select deselect idle contents clk latched period work phase tries"
    and ld: "loader (sd_blockdev pb) (port_ready (\<lambda>d'. enabled d' \<and> seen d' = (sent d @ greeting, reg d SYST_CSR)) rx card idle)
      (\<lambda>d. contents (card d)) mb mclk mlat mper final programmed live wk"
    and d: "quiet d" "rx d = []" "phase (card d) = Fresh" "tries (card d) < 5000" "d = sd (k_fs k)"
    and vol: "contents (card d) 0 = Some mbr" "le16_at mbr 510 = 0xAA55" "find (fat_partition mbr) [0, 1, 2, 3] = Some i"
      "contents (card d) (le32_at mbr (454 + 16 * i)) = Some bpb" "bpb ! 0x0D \<noteq> 0" "vol_ok (geometry mbr i bpb)"
      "has_file (geometry mbr i bpb) (contents (card d)) init_elf bytes"
    and st: "\<forall>n. junk_ok (junk n)" "length (filename entry0) = 256" "length (open_file_handles (k_fs k)) = 16"
    and hp: "hp = ALIGN_4BYTE heap_start" "hp \<noteq> 0" "unat heap_end < 4294967280"
      "hi = unat hp + 32 + unat (ALIGN_4BYTE (of_nat (length bytes)))" "hi + 4 < unat heap_end"
    and elf: "elf_ok (unat hp) hi bytes"
  shows "\<exists>k1. (\<forall>start. kernel_main pb mb junk entry0 file0 heap_start heap_end start k = do {
       k2 \<leftarrow> start (word_in bytes 0x18) k1;
       d2 \<leftarrow> shutdown_loop pb (sd (k_fs k2));
       Some (Parked (k2\<lparr>k_fs := (k_fs k2)\<lparr>sd := d2\<rparr>\<rparr>))
     }) \<and> live (sd (k_fs k1)) \<and>
     linked \<lparr>heap_mem = ram (k_fs k1), head = k_head k1\<rparr> (unat heap_end) [(unat heap_end - unat hp - 16, False)] \<and>
     (\<forall>x. unat x < unat hp \<or> hi \<le> unat x \<longrightarrow>
       ram (k_fs k1) x = fold (load_image bytes) (elf_segments bytes) (ram (k_fs k)) x)"
proof -
  let ?n = "unat (ALIGN_4BYTE (of_nat (length bytes)))" and ?t = "unat heap_end - unat hp - 16"
  let ?ready = "port_ready (\<lambda>d'. enabled d' \<and> seen d' = (sent d @ greeting, reg d SYST_CSR)) rx card idle"
  obtain d1 where d1: "kernel_devices pb d = Some (True, d1)" "?ready d1"
    "contents (card d1) = contents (card d)" using kernel_with_card [OF card d(1-4)] by blast
  define h where "h = init_malloc heap_start heap_end \<lparr>heap_mem = ram (k_fs k), head = k_head k\<rparr>"
  have al: "ALIGN_4BYTE heap_start \<noteq> 0" "unat (ALIGN_4BYTE heap_start) + 16 \<le> unat heap_end" using hp by auto
  have h: "linked \<lparr>heap_mem = heap_mem h, head = hp\<rparr> (unat heap_end) [(?t, False)]" "head h = hp"
    using init_malloc_links [OF al hp(3), of "\<lparr>heap_mem = ram (k_fs k), head = k_head k\<rparr>"] hp(1)
    by (simp_all add: h_def) (metis heap_state.surjective old.unit.exhaust)
  let ?s = "(k_fs k)\<lparr>sd := d1, ram := heap_mem h\<rparr>"
  have bd: "block_device (sd_blockdev pb) ?ready (\<lambda>d. contents (card d))"
    using ld by (rule loader.axioms(1))
  obtain w where w: "?ready w" "contents (card w) = contents (card d)" and
    mount: "fat32_init (sd_blockdev pb) ?s = Some (True, ?s\<lparr>sd := w, g_fat32_volume_info := geometry mbr i bpb,
      open_file_handles := map (\<lambda>h. h\<lparr>is_free := True\<rparr>) (open_file_handles (k_fs k))\<rparr>)"
    by (rule block_device.fat32_init_spec [OF bd, of ?s mbr i bpb]) (use d1 vol in auto)
  let ?s1 = "?s\<lparr>sd := w, g_fat32_volume_info := geometry mbr i bpb,
      open_file_handles := map (\<lambda>h. h\<lparr>is_free := True\<rparr>) (open_file_handles (k_fs k))\<rparr>"
  have n: "?n + 20 < ?t" using hp(4,5) by simp
  have hf: "has_file (g_fat32_volume_info ?s1) (contents (card (sd ?s1))) init_elf bytes" using w(2) vol(7) by simp
  have heap: "linked \<lparr>heap_mem = ram ?s1, head = hp\<rparr> (unat heap_end) [(?t, False)]" using h(1) by simp
  obtain s2 where s2: "loadELF (sd_blockdev pb) mb junk entry0 file0 (Some init_path) ?s1 hp = Some (word_in bytes 0x18, s2, hp)" "live (sd s2)"
    "linked \<lparr>heap_mem = ram s2, head = hp\<rparr> (unat heap_end) [(?t, False)]"
    "\<forall>x. unat x < unat hp \<or> hi \<le> unat x \<longrightarrow> ram s2 x = fold (load_image bytes) (elf_segments bytes) (heap_mem h) x"
    using loader.loadELF_spec_single [OF ld _ _ hf st(1,2) _ _ heap refl n, of 0 file0]
      w(1) vol(6) st(3) elf first_free_all [OF st(3)] hp(4) by (auto simp: init_path_bytes)
  have out: "heap_mem h x = ram (k_fs k) x" if "unat x < unat hp \<or> hi \<le> unat x" for x
    using init_malloc_outside [OF al(2) hp(3), of x] that hp(1,4) by (auto simp: h_def)
  have "ram s2 x = fold (load_image bytes) (elf_segments bytes) (ram (k_fs k)) x"
    if "unat x < unat hp \<or> hi \<le> unat x" for x
    using s2(4) that fold_load_image_local [of "heap_mem h" x "ram (k_fs k)"] out [OF that] by auto
  then show ?thesis
    using d1(1) d(5) mount s2(1,2,3) h(2)
    by (intro exI [of _ "\<lparr>k_fs = s2, k_head = hp\<rparr>"]) (simp add: kernel_main_def Let_def h_def [symmetric])
qed

end

end
