(* ===== verification/Kernel_Props.thy ===== *)
theory Kernel_Props
  imports Kernel
begin

unbundle bit_operations_syntax

text \<open>
  What \<open>kernel_main\<close> does without a card, and what the theory \<open>Reset\<close> needs for the other case: the simulated board
  meets all the contracts together, and a volume with \<open>/bin/init.elf\<close>.
\<close>

section \<open>The contract on the simulated board\<close>

lemma setup_reg_values: "setup_regs = set [0x40034024, 0x40034028, 0x4003402C, 0x40034030, 0x4003C000, 0x4003C010,
    0x4003C004, 0xD0000024, 0x40014004, 0x4001400C, 0x4001404C, 0x40014084, 0x40014094, 0x4001409C, 0x4001C04C, 0x4001C050]"
  by (simp add: setup_regs_def spi_regs gpio_ctrl_def pad_gpio_def
    IO_BANK0_BASE_def UART_IBRD_def UART_FBRD_def UART_LCR_H_def UART_LCR_def)

lemma setup_not_rw: "r \<in> setup_regs \<Longrightarrow> rw_bits r = 0"
  unfolding setup_reg_values list.set by (elim insertE emptyE; simp add: rw_bits_def system_regs)

lemma setup_owners:
  "r \<in> setup_regs \<Longrightarrow> \<not> own_chip r \<and> r \<noteq> SPI0_DR \<and> r \<noteq> SIO_OUT_SET \<and> r \<noteq> SIO_OUT_CLR"
  unfolding setup_reg_values list.set by (elim insertE emptyE; simp add: own_chip_def spi_regs console_regs)

lemma resets_owners: "\<not> own_chip RESETS_RESET" "\<not> own_spi RESETS_RESET" "\<not> own_chip RESETS_RESET_DONE" "\<not> own_spi RESETS_RESET_DONE"
  by (simp_all add: own_chip_def own_spi_def system_regs spi_regs console_regs)

lemma board_read_rf:
  assumes "\<not> own_chip r" "\<not> own_spi r" "bus_read board_bus r d = (v, d')"
  obtains e c p f f' where "d = (e, c, p, f)" "d' = (e, c, p, f')" "bus_read rf_bus r f = (v, f')"
  using assms by (cases d) (auto simp: board_read rf_bus_def split: prod.splits)

lemma bd_registers: "registers board_bus bd_reg bd_lag"
proof
  have o: "\<not> own_chip r" "\<not> own_spi r" if "rw_bits r \<noteq> 0 \<or> r \<in> set status_regs \<or> r = SYST_CVR" for r
    using that not_rw by blast+
  show "v AND rw_bits r = bd_reg d r \<and> bd_reg d' = bd_reg d"
    if "rw_bits r \<noteq> 0" "bus_read board_bus r d = (v, d')" for r d v d'
    by (rule board_read_rf [OF o that(2)]) (use that(1) rf.rd [OF that(1)] in simp_all)
  show "bd_reg (bus_write board_bus r v d) = (bd_reg d)(r := v AND rw_bits r)" if "rw_bits r \<noteq> 0" for r v d
    using rf.wr [OF that, of v] o [OF disjI1 [OF that]] by (cases d) (simp add: board_write rf_bus_def)
  show "bd_reg (bus_write board_bus SYST_CVR v d) = bd_reg d" for v d
    using rf.clear_current [of v] o [OF disjI2 [OF disjI2 [OF refl]]] by (cases d) (simp add: board_write rf_bus_def)
  show "bd_reg d' = bd_reg d \<and> (bit v k \<or> bd_lag d' r < bd_lag d r)"
    if "settles (bd_reg d) r k" "bus_read board_bus r d = (v, d')" for d r k v d'
    by (rule board_read_rf [OF o that(2)]) (use settles_status [OF that(1)] that(1) rf.status [of _ r k v] in simp_all)
qed

lemma bd_uart: "uart_port board_bus bd_sent (\<lambda>d. bd_busy d = 0) bd_busy
  (\<lambda>d. (bd_idle d, bd_rx d, bd_card d, bd_reg d))"
proof
  show "bd_sent d' = bd_sent d \<and> (bd_idle d', bd_rx d', bd_card d', bd_reg d') =
      (bd_idle d, bd_rx d, bd_card d, bd_reg d) \<and>
      (if v AND 0x20 = 0 then bd_busy d' = 0 else bd_busy d' < bd_busy d)"
    if "bus_read board_bus UART_FR d = (v, d')" for d v d'
    using that by (cases d) (auto simp: board_read chip_read_def split: if_splits)
  show "bd_sent d' = bd_sent d @ [b] \<and> (bd_idle d', bd_rx d', bd_card d', bd_reg d') =
      (bd_idle d, bd_rx d, bd_card d, bd_reg d)"
    if "bd_busy d = 0" "bus_write board_bus UART_DR (ucast b) d = d'" for d b d'
    using that by (cases d) (auto simp: board_write chip_write_def ucast_ucast_u8)
qed

interpretation bd: board board_bus bd_reg bd_lag bd_sent "\<lambda>d. bd_busy d = 0" bd_busy bd_idle bd_on bd_rx bd_card
  sim_step sim_select sim_deselect bd_clk bd_latch 1 bd_busy
proof (intro board.intro board_axioms.intro bd_registers bd_uart bd_port.spi_port_axioms bd_timer_axioms)
  show "bd_sent d' = bd_sent d \<and> bd_idle d' = bd_idle d \<and> bd_rx d' = bd_rx d \<and> bd_card d' = bd_card d"
    if "r = RESETS_RESET \<or> r = RESETS_RESET_DONE" "bus_read board_bus r d = (v, d')" for r d v d'
    by (rule board_read_rf [OF _ _ that(2)]) (use that(1) resets_owners in auto)
  show "bd_sent (bus_write board_bus RESETS_RESET v d) = bd_sent d \<and> bd_idle (bus_write board_bus RESETS_RESET v d) = bd_idle d \<and>
      bd_rx (bus_write board_bus RESETS_RESET v d) = bd_rx d \<and> bd_card (bus_write board_bus RESETS_RESET v d) = bd_card d" for v d
    by (cases d) (simp add: board_write resets_owners)
  show "bd_sent d' = bd_sent d \<and> (bd_idle d \<longrightarrow> bd_idle d') \<and> bd_rx d' = bd_rx d \<and>
      bd_reg d' = bd_reg d \<and>
      (bd_card d' = bd_card d \<or> bd_card d' = sim_select (bd_card d) \<or> bd_card d' = sim_deselect (bd_card d))"
    if "r \<in> setup_regs" "bus_write board_bus r v d = d'" for r v d d'
    using that(2) setup_owners [OF that(1)] setup_not_rw [OF that(1)]
    by (cases d) (auto simp: board_write sim_write_def rf_write_def)
  show "bd_sent d' = bd_sent d \<and> bd_idle d' = bd_idle d \<and> bd_rx d' = bd_rx d \<and>
      bd_reg d' = bd_reg d \<and> bd_card d' = bd_card d"
    if "bus_read board_bus SPI0_CR1 d = (v, d')" for d v d'
    using that by (cases d) (auto simp: board_read sim_read_def)
  show "bd_on (bus_write board_bus SPI0_CR1 v d)"
    if "bd_idle d" "\<not> bit (bd_reg d RESETS_RESET) 16" "\<not> bit (bd_reg d RESETS_RESET) 2" "bit v 1" for d v
    using that by (cases d) (auto simp: board_write sim_write_def)
  show "bd_sent (snd (bus_read board_bus r d)) = bd_sent d \<and> bd_sent (bus_write board_bus r v d) = bd_sent d \<and>
      bd_reg (snd (bus_read board_bus r d)) = bd_reg d \<and> bd_reg (bus_write board_bus r v d) = bd_reg d"
    if "r \<in> {SPI0_SR, SPI0_DR, SIO_OUT_SET, SIO_OUT_CLR, TIMER_LR, TIMER_HR}" for r d v
    using that by (cases d) (auto simp: board_read board_write chip_read_def chip_write_def split: prod.splits)
qed

text \<open>The channel beside the memory; the clock is that of the peripherals.\<close>

fun mb_final :: "mem \<times> board \<Rightarrow> mem" where "mb_final (m, e, x) = engine_final (m, e)"
fun mb_prog :: "mem \<times> board \<Rightarrow> u32 \<times> u32 \<times> u32" where "mb_prog (m, e, x) = en_prog e"
fun bd_left :: "board \<Rightarrow> nat" where "bd_left (e, x) = en_left e"

lemma mem_read_dma:
  assumes "own_dma r" "bd_live (snd d)" "bus_read mem_bus r d = (v, d')"
  obtains m e x m' e' where "d = (m, e, x)" "d' = (m', e', x)" "\<not> dma_held x" "bus_read engine_bus r (m, e) = (v, m', e')"
  using assms by (cases d) (auto simp: mem_bus_def split: prod.splits)

lemma mem_write_dma:
  assumes "own_dma r" "bd_live (snd d)" "bus_write mem_bus r v d = d'"
  obtains m e x m' e' where "d = (m, e, x)" "d' = (m', e', x)" "\<not> dma_held x" "bus_write engine_bus r v (m, e) = (m', e')"
  using assms by (cases d) (auto simp: mem_bus_def split: prod.splits)

lemma mem_read_timer:
  assumes "r = TIMER_LR \<or> r = TIMER_HR" "bus_read mem_bus r d = (v, d')"
  obtains m e c p f c' where "d = (m, e, c, p, f)" "d' = (m, e, c', p, f)" "bus_read chip_bus r c = (v, c')"
  using assms by (cases d) (auto simp: mem_bus_def peri_bus_def par_bus_def split: prod.splits)

interpretation mem_copier: copier mem_bus "\<lambda>d. bd_clk (snd d)" "\<lambda>d. bd_latch (snd d)" 1 mb_final mb_prog
  bd_live bd_left
proof
  show "bd_clk (snd d) < bd_clk (snd d') \<and> bd_clk (snd d') \<le> bd_clk (snd d) + 1 * 4294967296 \<and>
      v = of_nat (bd_clk (snd d') div 1) \<and> bd_latch (snd d') = of_nat (bd_clk (snd d') div 1 div 4294967296) \<and>
      (mb_final d', mb_prog d', bd_live (snd d')) = (mb_final d, mb_prog d, bd_live (snd d)) \<and> bd_left (snd d') \<le> bd_left (snd d)"
    if "bus_read mem_bus TIMER_LR d = (v, d')" for d v d'
    by (rule mem_read_timer [OF disjI1 [OF refl] that]) (use chip_timer.low in auto)
  show "bd_clk (snd d) < bd_clk (snd d') \<and> bd_clk (snd d') \<le> bd_clk (snd d) + 1 * 4294967296 \<and>
      v = bd_latch (snd d) \<and> (mb_final d', mb_prog d', bd_live (snd d')) = (mb_final d, mb_prog d, bd_live (snd d)) \<and> bd_left (snd d') \<le> bd_left (snd d)"
    if "bus_read mem_bus TIMER_HR d = (v, d')" for d v d'
    by (rule mem_read_timer [OF disjI2 [OF refl] that]) (use chip_timer.high in auto)
  show "fst d = mb_final d" if "bd_left (snd d) = 0" for d
    using that engine.settled by (cases d) auto
  show "(bit v 24 \<longleftrightarrow> bd_left (snd d) \<noteq> 0) \<and> bd_live (snd d') \<and> mb_final d' = mb_final d \<and> mb_prog d' = mb_prog d \<and>
      (if bd_left (snd d) = 0 then bd_left (snd d') = 0 else bd_left (snd d') < bd_left (snd d))"
    if "bd_live (snd d)" "bus_read mem_bus (al1_CTRL 0) d = (v, d')" for d v d'
  proof (rule mem_read_dma [OF _ that])
    fix m e x m' e' assume "d = (m, e, x)" "d' = (m', e', x)" "\<not> dma_held x" "bus_read engine_bus (al1_CTRL 0) (m, e) = (v, m', e')"
    then show ?thesis using engine.poll [of "(m, e)" v "(m', e')"] by (cases "en_left e = 0") simp_all
  qed simp
  show "bd_left (snd d') = 0 \<and> bd_live (snd d') \<and> mb_final d' = mb_final d \<and> mb_prog d' = (a', b, n)"
    if "bd_live (snd d)" "bd_left (snd d) = 0" "mb_prog d = (a, b, n)" "bus_write mem_bus (al0_READ_ADDR 0) a' d = d'" for d a b n a' d'
  proof (rule mem_write_dma [OF _ that(1,4)])
    fix m e x m' e' assume "d = (m, e, x)" "d' = (m', e', x)" "\<not> dma_held x" "bus_write engine_bus (al0_READ_ADDR 0) a' (m, e) = (m', e')"
    then show ?thesis using engine.set_read [of "(m, e)" a b n a' "(m', e')"] that by simp
  qed simp
  show "bd_left (snd d') = 0 \<and> bd_live (snd d') \<and> mb_final d' = mb_final d \<and> mb_prog d' = (a, b', n)"
    if "bd_live (snd d)" "bd_left (snd d) = 0" "mb_prog d = (a, b, n)" "bus_write mem_bus (al0_WRITE_ADDR 0) b' d = d'" for d a b n b' d'
  proof (rule mem_write_dma [OF _ that(1,4)])
    fix m e x m' e' assume "d = (m, e, x)" "d' = (m', e', x)" "\<not> dma_held x" "bus_write engine_bus (al0_WRITE_ADDR 0) b' (m, e) = (m', e')"
    then show ?thesis using engine.set_write [of "(m, e)" a b n b' "(m', e')"] that by simp
  qed simp
  show "bd_left (snd d') = 0 \<and> bd_live (snd d') \<and> mb_final d' = mb_final d \<and> mb_prog d' = (a, b, n')"
    if "bd_live (snd d)" "bd_left (snd d) = 0" "mb_prog d = (a, b, n)" "bus_write mem_bus (al0_TRANS_COUNT 0) n' d = d'" for d a b n n' d'
  proof (rule mem_write_dma [OF _ that(1,4)])
    fix m e x m' e' assume "d = (m, e, x)" "d' = (m', e', x)" "\<not> dma_held x" "bus_write engine_bus (al0_TRANS_COUNT 0) n' (m, e) = (m', e')"
    then show ?thesis using engine.set_count [of "(m, e)" a b n n' "(m', e')"] that by simp
  qed simp
  show "bd_live (snd d') \<and> mb_final d' = blit (mb_final d) a b n"
    if "bd_live (snd d)" "bd_left (snd d) = 0" "mb_prog d = (a, b, n)" "plain_copy 0 v" "no_overlap a b n"
      "bus_write mem_bus (al0_CTRL_TRIG 0) v d = d'" for d a b n v d'
  proof (rule mem_write_dma [OF _ that(1,6)])
    fix m e x m' e' assume "d = (m, e, x)" "d' = (m', e', x)" "\<not> dma_held x" "bus_write engine_bus (al0_CTRL_TRIG 0) v (m, e) = (m', e')"
    then show ?thesis using engine.trigger [of "(m, e)" a b n v "(m', e')"] that by simp
  qed simp
qed simp

section \<open>A volume with a program\<close>

text \<open>The program is the one header of the example program with a segment of 24 bytes in the file and 32 in memory: an
  instruction \<open>svc 1\<close> and a string.  The directory \<open>bin\<close> in cluster 3 and the file \<open>init.elf\<close> in cluster 4, both under long names.\<close>

definition init_bytes :: "u8 list" where
  "init_bytes = take 68 elf1 @ [24, 0, 0, 0, 32, 0, 0, 0] @ take 20 (drop 76 elf1) @ [0x01, 0xDF, 0, 0] @
     chars ''Hello from userland!''"

definition bin_entry :: "u8 list" where
  "bin_entry = chars ''BIN        '' @ [0x10] @ replicate 14 0 @ [3, 0, 0, 0, 0, 0]"

definition bin_dir :: dfile where
  "bin_dir = \<lparr>df_parts = [chars ''bin''], df_base = [], df_ext = [], df_entry = bin_entry\<rparr>"

definition init_entry :: "u8 list" where
  "init_entry = chars ''INIT    ELF'' @ [0x20] @ replicate 14 0 @ [4, 0, 120, 0, 0, 0]"

definition init_file :: dfile where
  "init_file = \<lparr>df_parts = [chars ''init.elf''], df_base = [], df_ext = [], df_entry = init_entry\<rparr>"

definition boot_fat :: "u8 list" where
  "boot_fat = sector [0xF8, 0xFF, 0xFF, 0x0F, 0xFF, 0xFF, 0xFF, 0x0F,
     0xFF, 0xFF, 0xFF, 0x0F, 0xFF, 0xFF, 0xFF, 0x0F, 0xFF, 0xFF, 0xFF, 0x0F]"

definition boot_disk :: disk where
  "boot_disk = Map.empty(0 \<mapsto> mbr1, 1 \<mapsto> bpb1, 2 \<mapsto> boot_fat, 3 \<mapsto> sector (concat (df_entries bin_dir)),
     4 \<mapsto> sector (concat (df_entries init_file)), 5 \<mapsto> sector init_bytes)"

definition boot_dirs :: "u32 \<Rightarrow> dfile list option" where
  "boot_dirs = [2 \<mapsto> [bin_dir], 3 \<mapsto> [init_file]]"

lemma boot_files_ok: "dfile_ok bin_dir" "dfile_ok init_file"
  by code_simp+

lemma boot_fields: "df_cluster bin_dir = 3" "df_is_dir bin_dir" "df_name bin_dir = chars ''bin''"
  "df_cluster init_file = 4" "df_size init_file = 120" "\<not> df_is_dir init_file" "df_name init_file = chars ''init.elf''"
  by code_simp+

lemma boot_entries: "length (df_entries bin_dir) = 2" "length (df_entries init_file) = 2"
  "list_all (\<lambda>e. length e = 32) (df_entries bin_dir)" "list_all (\<lambda>e. length e = 32) (df_entries init_file)"
  by code_simp+

lemma boot_chains: "c \<in> {2, 3, 4} \<Longrightarrow> fat_chain vol1 boot_disk [c]"
proof -
  have "fat_entry vol1 boot_disk 2 = Some 0x0FFFFFFF" "fat_entry vol1 boot_disk 3 = Some 0x0FFFFFFF"
    "fat_entry vol1 boot_disk 4 = Some 0x0FFFFFFF"
    by (simp_all add: fat_entry_def vol1_def boot_disk_def boot_fat_def read_le32_def nth_sector)
  moreover have "total_clusters vol1 = 9" by (simp add: vol1_def)
  ultimately show "c \<in> {2, 3, 4} \<Longrightarrow> fat_chain vol1 boot_disk [c]" by (auto simp: next_cluster_def)
qed

lemma boot_clusters:
  "cluster_sectors vol1 boot_disk 2 = [Some (sector (concat (df_entries bin_dir)))]"
  "cluster_sectors vol1 boot_disk 3 = [Some (sector (concat (df_entries init_file)))]"
  "cluster_sectors vol1 boot_disk 4 = [Some (sector init_bytes)]"
  by (simp_all add: cluster_sectors_def lba1) (simp_all add: vol1_def boot_disk_def)

text \<open>A directory of one cluster with one file.\<close>

lemma one_file_dir:
  assumes "fat_chain vol1 dk [c]" "cluster_sectors vol1 dk c = [Some (sector (concat (df_entries f)))]"
    "dfile_ok f" "length (df_entries f) = 2" "list_all (\<lambda>e. length e = 32) (df_entries f)"
  shows "dir_on_disk vol1 dk c [f]"
proof -
  obtain a b where ab: "df_entries f = [a, b]" using assms(4) by (cases "df_entries f"; cases "tl (df_entries f)") auto
  have l: "length a = 32" "length b = 32" using assms(5) by (simp_all add: ab)
  let ?es = "dir_entries vol1 dk [c]"
  have es: "?es = map (entry_at (sector (a @ b))) [0..<16]"
    using assms(2) by (simp add: dir_entries_def file_bytes_def cluster_bytes_def ab) (simp add: vol1_def)
  have "?es = a # b # map (entry_at (sector (a @ b))) [2..<16]"
  proof -
    have "[0..<16] = 0 # 1 # [2..<16 :: nat]" by (simp add: upt_conv_Cons)
    then show ?thesis unfolding es using l by (simp add: entry_at_def sector_def)
  qed
  moreover have "entry_at (sector (a @ b)) 2 ! 0 = 0" using l by (simp add: entry_at_def nth_sector)
  ultimately show ?thesis
    using assms(1,2,3) unfolding dir_on_disk_def
    by (intro conjI exI [of _ "[c]"] exI [of _ "map (entry_at (sector (a @ b))) [2..<16]"])
      (simp_all add: ab readable_def dir_tail_def hd_map)
qed

lemma boot_dirs_on_disk: "dirs_on_disk vol1 boot_disk boot_dirs"
  using one_file_dir [OF boot_chains boot_clusters(1) boot_files_ok(1) boot_entries(1,3)]
    one_file_dir [OF boot_chains boot_clusters(2) boot_files_ok(2) boot_entries(2,4)]
  by (auto simp: dirs_on_disk_def boot_dirs_def split: if_splits)

lemma init_bytes_length: "length init_bytes = 120"
  by (simp add: init_bytes_def elf1_def chars_def)

lemma boot_has_file: "has_file vol1 boot_disk init_elf init_bytes"
  unfolding has_file_def
proof (intro exI [of _ boot_dirs] exI [of _ init_file] exI [of _ "[4]"] conjI)
  show "resolve boot_dirs (root_dir_cluster vol1) init_elf = Some (File init_file)"
    by (simp add: vol1_def boot_dirs_def boot_fields) (simp add: chars_def)
  show "list_all component_ok init_elf" by (simp add: component_ok_def chars_def)
  show "list_all (readable vol1 boot_disk) [4]" by (simp add: readable_def boot_clusters)
  show "unat (df_size init_file) \<le> length [4 :: u32] * unat (bytes_per_cluster vol1)"
    by (simp add: boot_fields vol1_def)
  show "init_bytes = take (unat (df_size init_file)) (file_bytes vol1 boot_disk [4])"
    by (simp add: boot_fields file_bytes_def cluster_bytes_def boot_clusters sector_def init_bytes_length)
  show "fat_chain vol1 boot_disk [4]" by (rule boot_chains) simp
qed (simp_all add: boot_dirs_on_disk boot_fields)

lemma boot_contents: "sim_contents (fresh_card boot_disk) = boot_disk"
proof
  have "length (sector bs) = 512" "length mbr1 = 512" "length bpb1 = 512" "length boot_fat = 512" for bs
    by (simp_all add: mbr1_def bpb1_def boot_fat_def)
  then show "sim_contents (fresh_card boot_disk) a = boot_disk a" for a
    by (simp add: sim_contents_def fresh_card_def boot_disk_def)
qed

lemma boot_sectors: "boot_disk 0 = Some mbr1" "boot_disk (le32_at mbr1 (454 + 16 * 0)) = Some bpb1"
proof -
  have "le32_at mbr1 454 = 1" by (simp add: le32_at_def read_le32_def mbr1_def nth_sector nth_append)
  then show "boot_disk 0 = Some mbr1" "boot_disk (le32_at mbr1 (454 + 16 * 0)) = Some bpb1" by (simp_all add: boot_disk_def)
qed

lemma init_bytes_ok: "elf_ok 0x20001000 0x20001098 init_bytes" "word_in init_bytes 0x18 = 0x20010000"
  "elf_segments init_bytes = [\<lparr>seg_offset = 0x60, seg_vaddr = 0x20010000, seg_filesz = 24, seg_memsz = 32\<rparr>]"
proof -
  have w: "word_in init_bytes k = read_le32 (\<lambda>i. init_bytes ! (k + i)) 0" for k by (simp add: word_in_def)
  have ph: "elf_header init_bytes 0 = 0x34" "elf_count init_bytes = 1"
    by (simp_all add: elf_header_def elf_count_def w read_le16_def) (simp_all add: init_bytes_def elf1_def read_le32_def)
  show "word_in init_bytes 0x18 = 0x20010000" unfolding w by (simp add: init_bytes_def elf1_def read_le32_def)
  have ty: "word_in init_bytes 0x34 = 1" unfolding w by (simp add: init_bytes_def elf1_def read_le32_def)
  have sg: "segment_at init_bytes 0x34 = \<lparr>seg_offset = 0x60, seg_vaddr = 0x20010000, seg_filesz = 24, seg_memsz = 32\<rparr>"
    by (simp add: segment_at_def w) (simp add: init_bytes_def elf1_def read_le32_def)
  show gs: "elf_segments init_bytes = [\<lparr>seg_offset = 0x60, seg_vaddr = 0x20010000, seg_filesz = 24, seg_memsz = 32\<rparr>]"
    using ph ty sg by (simp add: elf_segments_def)
  have "valid_header ((!) init_bytes)" by (simp add: valid_header_def) (simp add: init_bytes_def elf1_def)
  then show "elf_ok 0x20001000 0x20001098 init_bytes"
    using ph by (simp add: elf_ok_def gs segment_ok_def init_bytes_length)
qed

section \<open>The two cases\<close>

text \<open>Without a card the kernel returns from \<open>kernel_main\<close>, after it has printed 80 line feeds, the banner
  and the message of the failure, and nothing else.  The heap is not set up, no file is opened and
  no program is started: memory and file system state are unchanged.\<close>

lemma kernel_without_card_returns:
  assumes "board pb reg lag sent room backlog quiet enabled rx crd step select deselect clk latched period work"
    "mute_line pb enabled rx crd step select deselect clk latched period work mute"
    "quiet (sd (k_fs k))" "rx (sd (k_fs k)) = []" "mute (crd (sd (k_fs k)))"
  shows "\<exists>d. kernel_main pb mb junk entry0 file0 heap_start heap_end start k =
      Some (Returned (k\<lparr>k_fs := (k_fs k)\<lparr>sd := d\<rparr>\<rparr>)) \<and>
    sent d = sent (sd (k_fs k)) @ replicate 80 0x0A @ butlast banner @ butlast sd_failed \<and>
    reg d SYST_CSR = reg (sd (k_fs k)) SYST_CSR"
  using board.kernel_without_card [OF assms] by (auto simp: kernel_main_def greeting_def Let_def)

text \<open>A card that has started and a channel that works are what the loader needs.\<close>

lemma card_loader:
  assumes "sd_startup pb enabled rx crd step select deselect idle contents clk latched period work phase tries"
    "copier mb mclk mlat mper final programmed live wk" "\<forall>d. enabled d \<longrightarrow> live d \<and> wk d = 0"
  shows "loader (sd_blockdev pb) (port_ready enabled rx crd idle) (\<lambda>d. contents (crd d)) mb mclk mlat mper final programmed live wk"
proof -
  have "sd_card pb enabled rx crd step select deselect idle contents" using assms(1) by (rule sd_startup.axioms(1))
  then have "block_device (sd_blockdev pb) (port_ready enabled rx crd idle) (\<lambda>d. contents (crd d))"
    by (rule sd_card.is_block_device)
  moreover have "live d \<and> wk d = 0" if "port_ready enabled rx crd idle d" for d
    using that assms(3) by (simp add: port_ready_def)
  ultimately show ?thesis using assms(2) by (intro loader.intro loader_axioms.intro)
qed

end
