(* ===== verification/Syscall.thy ===== *)
theory Syscall
  imports Console Memory
begin

unbundle bit_operations_syntax

text \<open>
  System calls: the dispatcher and the SVC handler of \<open>src/src/kernel/syscall.c\<close>, and the library
  function \<open>libc/src/unistd/write.c\<close> that raises the exception.  The handler is assembly code; its
  model executes its instructions in order on the memory, with the exception entry and return of
  the Cortex-M0+ around it: eight registers are pushed on the current stack, and on return the
  caller's \<open>r0\<close> is taken from there.  A store to an address that is not a multiple of four is a
  hard fault; every other store is taken to reach the memory, also one to the low addresses, where the RP2040 has its
  boot ROM.
\<close>

section \<open>The dispatcher\<close>

definition SYS_WRITE :: u32 where "SYS_WRITE = 1"

definition sys_write :: "'d bus \<Rightarrow> u32 \<Rightarrow> u32 \<Rightarrow> u32 \<Rightarrow> mem \<Rightarrow> 'd \<Rightarrow> (u32 \<times> 'd) option" where
  "sys_write bus fd buf count m d = do {
     d \<leftarrow> uart_puts bus (bytes_at m buf (unat count)) d;
     Some (count, d)
   }"

definition unknown_syscall :: "u8 list" where
  "unknown_syscall = chars ''Unknown syscall number: '' @ [0]"

definition do_syscall :: "'d bus \<Rightarrow> u32 \<Rightarrow> u32 \<Rightarrow> mem \<Rightarrow> 'd \<Rightarrow> (u32 \<times> 'd) option" where
  "do_syscall bus regs syscall_num m d =
     (if syscall_num = SYS_WRITE then
        sys_write bus (load32 m regs) (load32 m (regs + 4)) (load32 m (regs + 8)) m d
      else do {
        d \<leftarrow> uartTxStr bus unknown_syscall d;
        d \<leftarrow> uartTxDec bus syscall_num d;
        d \<leftarrow> uartTxStr bus [0x0D, 0x0A, 0] d;
        Some (- 2, d)
      })"

section \<open>The exception handler\<close>

definition load16 :: "mem \<Rightarrow> u32 \<Rightarrow> u32" where
  "load16 m a = ucast (m a) OR push_bit 8 (ucast (m (a + 1)))"

datatype 'd svc_result = HardFault mem 'd | ExcReturn u32 mem 'd

definition svCallHandler :: "'d bus \<Rightarrow> u32 \<Rightarrow> u32 \<Rightarrow> u32 \<Rightarrow> mem \<Rightarrow> 'd \<Rightarrow> 'd svc_result option" where
  "svCallHandler bus lr msp psp m d = do {
     let r3 = lr;
     let r2 = (4 :: u32);
     let r3 = r3 AND r2;
     let r0 = (if r3 = 0 then msp else psp);
     let sp = msp - 4;
     let m = store32 m sp lr;
     let r2 = load32 m (r0 + 24);
     let r2 = r2 - 2;
     let r1 = load16 m r2;
     let r1 = r1 AND 0xFF;
     (r0, d) \<leftarrow> do_syscall bus r0 r1 m d;
     if r0 AND 3 \<noteq> 0 then Some (HardFault m d)
     else (let m = store32 m r0 r0; r3 = load32 m sp in Some (ExcReturn r3 m d))
   }"

section \<open>The caller\<close>

text \<open>The registers of the caller of \<open>write\<close> at its \<open>svc\<close> instruction; \<open>pc\<close> is the address after
  it, \<open>on_psp\<close> whether the process stack is in use.\<close>

record cpu =
  r3_r12_lr :: "u32 \<times> u32 \<times> u32"
  pc :: u32
  xpsr :: u32
  msp :: u32
  psp :: u32
  on_psp :: bool

definition exception_frame :: "cpu \<Rightarrow> u32" where
  "exception_frame c = (if on_psp c then psp c else msp c) - 32"

definition exception_entry :: "cpu \<Rightarrow> u32 \<Rightarrow> u32 \<Rightarrow> u32 \<Rightarrow> mem \<Rightarrow> mem" where
  "exception_entry c r0 r1 r2 m =
     (let f = exception_frame c; (r3, r12, lr) = r3_r12_lr c;
          m = store32 m f r0; m = store32 m (f + 4) r1; m = store32 m (f + 8) r2;
          m = store32 m (f + 12) r3; m = store32 m (f + 16) r12; m = store32 m (f + 20) lr;
          m = store32 m (f + 24) (pc c)
      in store32 m (f + 28) (xpsr c))"

definition exc_return :: "cpu \<Rightarrow> u32" where
  "exc_return c = (if on_psp c then 0xFFFFFFFD else 0xFFFFFFF9)"

text \<open>\<open>write\<close>: the arguments go to \<open>r0\<close>, \<open>r1\<close>, \<open>r2\<close>, the exception is taken, and the result is \<open>r0\<close>
  after the return: \<open>Inl\<close> if the processor ends in the hard fault handler instead.\<close>

definition libc_write :: "'d bus \<Rightarrow> cpu \<Rightarrow> u32 \<Rightarrow> u32 \<Rightarrow> u32 \<Rightarrow> mem \<Rightarrow> 'd \<Rightarrow> (mem \<times> 'd + u32 \<times> mem \<times> 'd) option" where
  "libc_write bus c fd buf count m d =
     (let f = exception_frame c in do {
        r \<leftarrow> svCallHandler bus (exc_return c) (if on_psp c then msp c else f) (if on_psp c then f else psp c)
               (exception_entry c fd buf count m) d;
        case r of
          HardFault m d \<Rightarrow> Some (Inl (m, d))
        | ExcReturn lr m d \<Rightarrow> Some (Inr (load32 m f, m, d))
      })"

section \<open>What a call does\<close>

text \<open>The stack of a caller on the main stack: 32 bytes of frame and the pushed return value.\<close>

definition off_stack :: "u32 \<Rightarrow> u32 \<Rightarrow> bool" where
  "off_stack sp a \<longleftrightarrow> 36 \<le> a - (sp - 36)"

lemma off_stackD:
  assumes "off_stack sp a" "k \<le> 32"
  shows "4 \<le> a - (sp - 36 + of_nat k)"
proof -
  have "unat (of_nat k :: u32) \<le> unat (a - (sp - 36))"
    using assms by (simp add: off_stack_def word_le_nat_alt)
  then have "unat (a - (sp - 36) - of_nat k) = unat (a - (sp - 36)) - k"
    using assms(2) by (subst unat_sub_u32) simp_all
  then show ?thesis using assms by (simp add: off_stack_def word_le_nat_alt diff_diff_eq)
qed

lemma entry_regs:
  assumes "\<not> on_psp c"
  shows "load32 (exception_entry c r0 r1 r2 m) (msp c - 32) = r0"
    "load32 (exception_entry c r0 r1 r2 m) (msp c - 28) = r1"
    "load32 (exception_entry c r0 r1 r2 m) (msp c - 24) = r2"
    "load32 (exception_entry c r0 r1 r2 m) (msp c - 8) = pc c"
  using assms by (simp_all add: exception_entry_def exception_frame_def split_def Let_def
    load32_store32 load32_store32_apart)

lemma entry_other:
  assumes "\<not> on_psp c" "off_stack (msp c) a"
  shows "exception_entry c r0 r1 r2 m a = m a"
  using assms off_stackD [OF assms(2), of 4] off_stackD [OF assms(2), of 8] off_stackD [OF assms(2), of 12]
    off_stackD [OF assms(2), of 16] off_stackD [OF assms(2), of 20] off_stackD [OF assms(2), of 24]
    off_stackD [OF assms(2), of 28] off_stackD [OF assms(2), of 32]
  by (simp add: exception_entry_def exception_frame_def split_def Let_def store32_other)

lemma off_stack_word:
  assumes "off_stack sp a" "off_stack sp (a + 3)" "k \<le> 32"
  shows "4 \<le> (sp - 36 + of_nat k) - a"
proof -
  define y where "y = unat (a - (sp - 36))"
  have y: "36 \<le> y" "y < 4294967296" using assms(1) by (simp_all add: off_stack_def word_le_nat_alt y_def)
  have "a + 3 - (sp - 36) = (a - (sp - 36)) + 3" by simp
  then have "unat (a + 3 - (sp - 36)) = (y + 3) mod 4294967296" by (simp only: unat_word_ariths y_def) simp
  then have "36 \<le> (y + 3) mod 4294967296" using assms(2) by (simp add: off_stack_def word_le_nat_alt)
  moreover have "(y + 3) mod 4294967296 = y + 3 - 4294967296" if "4294967296 \<le> y + 3"
    using that y(2) by (simp add: mod_if)
  ultimately have y3: "y + 3 < 4294967296" using y(2) by linarith
  have "sp - 36 \<noteq> a" using y by (auto simp: y_def)
  then have "unat ((sp - 36) - a) = 4294967296 - y" using unat_diff_rev_u32 [of a "sp - 36"] y_def by simp
  moreover have "(sp - 36 + of_nat k) - a = ((sp - 36) - a) + of_nat k" by simp
  ultimately have "unat ((sp - 36 + of_nat k) - a) = 4294967296 - y + k"
    using unat_add_u32 [of "(sp - 36) - a" "of_nat k"] y assms(3) by (simp add: algebra_simps)
  then show ?thesis using y3 by (simp add: word_le_nat_alt)
qed

lemma load16_low: "load16 m a AND 0xFF = ucast (m a)"
proof -
  have "load16 m a AND 0xFF = take_bit 8 (load16 m a)" by (simp add: take_bit_eq_mask mask_eq_exp_minus_1)
  then show ?thesis by (simp only: load16_def) (rule bit_word_eqI, auto simp: bit_simps)
qed

text \<open>The handler up to the call of the dispatcher, for a caller on the main stack.\<close>

lemma handler_reads:
  assumes "\<not> on_psp c" "m1 = store32 (exception_entry c r0 r1 r2 m) (msp c - 36) lr"
  shows "load32 m1 (msp c - 32) = r0" "load32 m1 (msp c - 28) = r1" "load32 m1 (msp c - 24) = r2"
    "load32 m1 (msp c - 8) = pc c" "load32 m1 (msp c - 36) = lr"
    "off_stack (msp c) a \<Longrightarrow> m1 a = m a"
  using assms(1) off_stackD [of "msp c" a 0]
  by (auto simp: assms(2) load32_store32_apart load32_store32 entry_regs store32_other entry_other)

lemma bytes_at_cong: "(\<And>i. i < n \<Longrightarrow> m' (p + of_nat i) = m (p + of_nat i)) \<Longrightarrow> bytes_at m' p n = bytes_at m p n"
  by (simp add: bytes_at_def)

context uart_port
begin

lemma unknown_syscall_sends:
  assumes "num \<noteq> 1"
  shows "\<exists>d' ds. do_syscall bus regs num m d = Some (- 2, d') \<and>
    sent d' = sent d @ chars ''Unknown syscall number: '' @ ds @ [0x0D, 0x0A] \<and>
    list_all is_dec_digit ds \<and> digits_value 10 ds = unat num"
proof -
  let ?s = "chars ''Unknown syscall number: ''"
  have nz: "0 \<notin> set ?s" by (simp add: chars_def)
  obtain d1 where d1: "uartTxStr bus (?s @ 0 # []) d = Some d1" "sent d1 = sent d @ ?s"
    using uartTxStr_sends [OF nz, of "[]" d] by blast
  obtain d2 ds where d2: "uartTxDec bus num d1 = Some d2" "sent d2 = sent d1 @ ds"
    "list_all is_dec_digit ds" "digits_value 10 ds = unat num" using uartTxDec_sends [of num d1] by blast
  obtain d3 where d3: "uartTxStr bus ([0x0D, 0x0A] @ 0 # []) d2 = Some d3" "sent d3 = sent d2 @ [0x0D, 0x0A]"
    using uartTxStr_sends [of "[0x0D, 0x0A]" "[]" d2] by auto
  show ?thesis
    using assms d1 d2 d3 by (auto simp: do_syscall_def SYS_WRITE_def unknown_syscall_def simp del: uartTxStr.simps)
qed

end

lemma libc_write_spec:
  assumes "uart_port bus sent room backlog others" "\<not> on_psp c"
    "m (pc c - 2) = 1" "off_stack (msp c) (pc c - 2)"
    "\<forall>i < unat count. off_stack (msp c) (buf + of_nat i)"
    "off_stack (msp c) count" "off_stack (msp c) (count + 3)"
  shows "\<exists>m' d'. sent d' = sent d @ bytes_at m buf (unat count) \<and>
    libc_write bus c fd buf count m d =
      (if count AND 3 = 0 then Some (Inr (fd, m', d')) else Some (Inl (m', d'))) \<and>
    (count AND 3 = 0 \<longrightarrow> load32 m' count = count)"
proof -
  define m1 where "m1 = store32 (exception_entry c fd buf count m) (msp c - 36) 0xFFFFFFF9"
  note r = handler_reads [OF assms(2) m1_def]
  have "bytes_at m1 buf (unat count) = bytes_at m buf (unat count)"
    using assms(5) r(6) by (intro bytes_at_cong) auto
  then obtain d' where d': "uart_puts bus (bytes_at m1 buf (unat count)) d = Some d'"
    "sent d' = sent d @ bytes_at m buf (unat count)"
    using uart_port.uart_puts_sends [OF assms(1), of "bytes_at m buf (unat count)" d] by auto
  have num: "load16 m1 (pc c - 2) AND 0xFF = 1" using assms(3) r(6) [OF assms(4)] by (simp add: load16_low)
  have call: "do_syscall bus (msp c - 32) 1 m1 d = Some (count, d')"
    using r d'(1) by (simp add: do_syscall_def SYS_WRITE_def sys_write_def)
  define m2 where "m2 = store32 m1 count count"
  have keep: "load32 m2 (msp c - 32) = fd"
    using off_stackD [OF assms(6), of 4] off_stack_word [OF assms(6,7), of 4] r(1)
    by (simp add: m2_def load32_store32_apart)
  have h: "svCallHandler bus 0xFFFFFFF9 (msp c - 32) (psp c) (exception_entry c fd buf count m) d =
      (if count AND 3 = 0 then Some (ExcReturn (load32 m2 (msp c - 36)) m2 d') else Some (HardFault m1 d'))"
    using r(4) call num by (simp add: svCallHandler_def Let_def m1_def m2_def)
  show ?thesis
  proof (cases "count AND 3 = 0")
    case True
    then show ?thesis
      using h keep d'(2) assms(2)
      by (intro exI [of _ m2] exI [of _ d'])
        (simp add: libc_write_def exception_frame_def exc_return_def m2_def load32_store32)
  next
    case False
    then show ?thesis
      using h d'(2) assms(2)
      by (intro exI [of _ m1] exI [of _ d']) (simp add: libc_write_def exception_frame_def exc_return_def)
  qed
qed

section \<open>The first program\<close>

text \<open>\<open>main\<close> of \<open>programs/init.c\<close>; \<open>hello\<close> is the address of its string.\<close>

definition init_main :: "'d bus \<Rightarrow> cpu \<Rightarrow> u32 \<Rightarrow> mem \<Rightarrow> 'd \<Rightarrow> (mem \<times> 'd + u32 \<times> mem \<times> 'd) option" where
  "init_main bus c hello m d = do {
     r \<leftarrow> libc_write bus c 1 hello 20 m d;
     case r of
       Inl f \<Rightarrow> Some (Inl f)
     | Inr (_, m, d) \<Rightarrow> Some (Inr (0, m, d))
   }"

section \<open>Properties\<close>

text \<open>C17. A \<open>write\<close> by a program on the main stack sends exactly the \<open>count\<close> bytes at \<open>buf\<close> to the
  UART.  But the handler stores the result of the call at the address that the result
  happens to be, not into the frame: \<open>write\<close> then returns the descriptor it was given, and the
  memory word at address \<open>count\<close> is overwritten with \<open>count\<close>; if \<open>count\<close> is not a multiple of four,
  the call ends in a hard fault.\<close>

theorem write_effect:
  assumes "uart_port bus sent room backlog others" "\<not> on_psp c"
    "m (pc c - 2) = 1" "off_stack (msp c) (pc c - 2)"
    "\<forall>i < unat count. off_stack (msp c) (buf + of_nat i)"
    "off_stack (msp c) count" "off_stack (msp c) (count + 3)"
  shows "\<exists>m' d'. sent d' = sent d @ bytes_at m buf (unat count) \<and>
    libc_write bus c fd buf count m d =
      (if count AND 3 = 0 then Some (Inr (fd, m', d')) else Some (Inl (m', d'))) \<and>
    (count AND 3 = 0 \<longrightarrow> load32 m' count = count)"
  using libc_write_spec [where m = m, OF assms] .

definition cpu0 :: cpu where
  "cpu0 = \<lparr>r3_r12_lr = (0, 0, 0x20008101), pc = 0x20008010, xpsr = 0x01000000, msp = 0x2000C000,
     psp = 0, on_psp = False\<rparr>"

definition mem0 :: mem where
  "mem0 = (\<lambda>_. 0)(0x2000800E := 1, 0x20008040 := 0x48, 0x20008041 := 0x69, 0x20008042 := 0x21, 0x20008043 := 0x0A)"

theorem write_effect_witness:
  "\<exists>m' d'. libc_write chip_bus cpu0 7 0x20008040 4 mem0 chip0 = Some (Inr (7, m', d')) \<and>
     ch_sent d' = [0x48, 0x69, 0x21, 0x0A]"
proof -
  have b: "bytes_at mem0 0x20008040 4 = [0x48, 0x69, 0x21, 0x0A]"
    by (simp add: bytes_at_def mem0_def upt_rec)
  have i: "\<forall>i < unat (4 :: u32). off_stack (msp cpu0) (0x20008040 + of_nat i)"
  proof (intro allI impI)
    fix i assume "i < unat (4 :: u32)"
    then have "i = 0 \<or> i = 1 \<or> i = 2 \<or> i = 3" by auto
    then show "off_stack (msp cpu0) (0x20008040 + of_nat i)" by (auto simp: off_stack_def cpu0_def)
  qed
  show ?thesis
    using write_effect [OF chip_uart.uart_port_axioms _ _ _ i, where m = mem0 and fd = 7 and d = chip0] b
    by (auto simp: cpu0_def mem0_def off_stack_def chip0_def)
qed

text \<open>C33. Every other system call number is reported on the UART, in decimal, and then ends in a
  hard fault, because the result -2 is not the address of a word.\<close>

theorem svc_unknown_faults:
  assumes "uart_port bus sent room backlog others" "lr AND 4 = 0"
    "m1 = store32 m (msp_val - 4) lr" "num = ucast (m1 (load32 m1 (msp_val + 24) - 2))" "num \<noteq> (1 :: u32)"
  shows "\<exists>d' ds. svCallHandler bus lr msp_val psp_val m d = Some (HardFault m1 d') \<and>
    sent d' = sent d @ chars ''Unknown syscall number: '' @ ds @ [0x0D, 0x0A] \<and>
    list_all is_dec_digit ds \<and> digits_value 10 ds = unat num"
proof -
  have "load16 m1 (load32 m1 (msp_val + 24) - 2) AND 0xFF = num" by (simp add: load16_low assms(4))
  moreover obtain d' ds where "do_syscall bus msp_val num m1 d = Some (- 2, d')"
    "sent d' = sent d @ chars ''Unknown syscall number: '' @ ds @ [0x0D, 0x0A]"
    "list_all is_dec_digit ds" "digits_value 10 ds = unat num"
    using uart_port.unknown_syscall_sends [OF assms(1,5)] by metis
  ultimately show ?thesis using assms(2,3) by (auto simp: svCallHandler_def Let_def)
qed

theorem svc_unknown_faults_witness:
  "\<exists>m1 d' ds. svCallHandler chip_bus 0xFFFFFFF9 0x2000BFE0 0 (\<lambda>_. 9) chip0 = Some (HardFault m1 d') \<and>
     ch_sent d' = chars ''Unknown syscall number: '' @ ds @ [0x0D, 0x0A] \<and> digits_value 10 ds = 9"
proof -
  define m1 where "m1 = store32 (\<lambda>_. 9) (0x2000BFE0 - 4) 0xFFFFFFF9"
  have w: "load32 m1 (0x2000BFE0 + 24) = 0x09090909" by (simp add: m1_def load32_eq store32_def)
  have "(9 :: u32) = ucast (m1 (load32 m1 (0x2000BFE0 + 24) - 2))" unfolding w by (simp add: m1_def store32_def)
  from svc_unknown_faults [OF chip_uart.uart_port_axioms _ m1_def this, of 0 chip0]
  show ?thesis by (auto simp: chip0_def)
qed

text \<open>The first program prints \<open>Hello from userland!\<close> through the system call and returns 0.  The defect of the
  handler does not show because 20 is a multiple of four; it overwrites the word at address 20.\<close>

lemma init_prints_hello:
  assumes "uart_port bus sent room backlog others" "\<not> on_psp c"
    "m (pc c - 2) = 1" "off_stack (msp c) (pc c - 2)" "off_stack (msp c) 20" "off_stack (msp c) 23"
    "\<forall>i < 20. off_stack (msp c) (hello + of_nat i)" "bytes_at m hello 20 = chars ''Hello from userland!''"
  shows "\<exists>m' d'. init_main bus c hello m d = Some (Inr (0, m', d')) \<and>
    sent d' = sent d @ chars ''Hello from userland!'' \<and> load32 m' 20 = 20"
  using libc_write_spec [where m = m and count = 20 and buf = hello and d = d and fd = 1, OF assms(1-4)] assms(5-8) by (auto simp: init_main_def)

end
