(* ===== verification/Reset.thy ===== *)
theory Reset
  imports Kernel_Props Syscall
begin

unbundle bit_operations_syntax

text \<open>
  Two stretches of the way from power-on to the first program.

  The first is from the reset handler (\<open>startup_rp2040.c\<close>), which copies the initialised data, clears the
  zero-initialised data, calls \<open>SystemInit\<close> (\<open>system_rp2040.c\<close>) and enters \<open>main\<close> (\<open>main.c\<close>), to the first delay of
  \<open>SDInit\<close>.  The copy uses the DMA, which \<open>resetSubsys\<close> releases from reset only later, in \<open>main\<close>; and \<open>SystemInit\<close> enables a
  timer exception whose handler never returns, and which comes before that delay is over.  The contract \<open>cold_start\<close> joins the contract
  of the board with that of a channel that is held in reset as long as its bit of \<open>RESETS_RESET\<close> is set, and says
  that the control registers are the same with and without the memory.

  The second is \<open>main\<close> with that exception disabled: the start of the card, the file system, the loader and the call
  of the program.  The contract \<open>board_memory\<close> says that the DMA and the timer do not touch the console and the control
  of the exception.
\<close>

section \<open>The program that is started\<close>

text \<open>\<open>_start\<close> of a program sets its stack pointer and enters \<open>_start_c\<close>, which sets up the heap of the program, calls
  \<open>main\<close> and ends in an endless loop; the result is that of \<open>main\<close>, when the loop is entered.  \<open>used\<close> is the size of
  what the compiled functions have pushed when the system call of \<open>main\<close> is made with the registers \<open>c\<close>.\<close>

definition init_start ::
  "'d bus \<Rightarrow> u32 \<Rightarrow> u32 \<Rightarrow> cpu \<Rightarrow> u32 \<Rightarrow> u32 \<Rightarrow> u32 \<Rightarrow> mem \<Rightarrow> 'd \<Rightarrow> (mem \<times> 'd + u32 \<times> mem \<times> 'd) option" where
  "init_start bus stack_top used c msg heap_start heap_end m d =
     (let c = c\<lparr>msp := stack_top - used\<rparr> in
      start_c heap_start heap_end (\<lambda>h. init_main bus c msg (heap_mem h) d) \<lparr>heap_mem = m, head = 0\<rparr>)"

text \<open>A byte that neither the buffer of the loader, nor the heap header of the program, nor its stack overwrites.\<close>

definition program_byte :: "u32 \<Rightarrow> nat \<Rightarrow> u32 \<Rightarrow> u32 \<Rightarrow> u32 \<Rightarrow> bool" where
  "program_byte hp hi heap_start sp x \<longleftrightarrow> (unat x < unat hp \<or> hi \<le> unat x) \<and> off_stack sp x \<and>
     (unat x < unat (ALIGN_4BYTE heap_start) \<or> unat (ALIGN_4BYTE heap_start) + 16 \<le> unat x)"

lemma init_start_prints:
  assumes "uart_port bus sent room backlog others" "\<not> on_psp c" "sp = stack_top - used"
    "unat (ALIGN_4BYTE heap_start) + 16 \<le> unat heap_end" "unat heap_end < 4294967280"
    "program_byte hp hi heap_start sp (pc c - 2)" "\<forall>i < 20. program_byte hp hi heap_start sp (msg + of_nat i)"
    "off_stack sp 20" "off_stack sp 23"
    "m (pc c - 2) = 1" "bytes_at m msg 20 = chars ''Hello from userland!''"
  shows "\<exists>m' d'. init_start bus stack_top used c msg heap_start heap_end m d = Some (Inr (0, m', d')) \<and>
    sent d' = sent d @ chars ''Hello from userland!''"
proof -
  define m1 where "m1 = heap_mem (init_malloc heap_start heap_end \<lparr>heap_mem = m, head = 0\<rparr>)"
  have out: "m1 x = m x" if "program_byte hp hi heap_start sp x" for x
    using init_malloc_outside [OF assms(4,5), of x] that by (auto simp: m1_def program_byte_def)
  have "bytes_at m1 msg 20 = bytes_at m msg 20" using assms(7) out by (intro bytes_at_cong) auto
  then obtain m' d' where "init_main bus (c\<lparr>msp := sp\<rparr>) msg m1 d = Some (Inr (0, m', d'))"
    "sent d' = sent d @ chars ''Hello from userland!''"
    using init_prints_hello [OF assms(1), of "c\<lparr>msp := sp\<rparr>" m1 msg d] assms(2,6-11) out [OF assms(6)]
    by (auto simp: program_byte_def)
  then show ?thesis using assms(3) by (auto simp: init_start_def start_c_def m1_def Let_def)
qed

section \<open>From \<open>main\<close> to the program\<close>

text \<open>A card to boot from: a partition table with a FAT32 volume that has the program under its path; and a heap
  \<open>hp .. heap_end\<close> in which the buffer for the program takes the part up to \<open>hi\<close>.\<close>

definition boot_volume :: "disk \<Rightarrow> u8 list \<Rightarrow> bool" where
  "boot_volume dk bytes \<longleftrightarrow> (\<exists>mbr i bpb. dk 0 = Some mbr \<and> le16_at mbr 510 = 0xAA55 \<and>
     find (fat_partition mbr) [0, 1, 2, 3] = Some i \<and> dk (le32_at mbr (454 + 16 * i)) = Some bpb \<and> bpb ! 0x0D \<noteq> 0 \<and>
     vol_ok (geometry mbr i bpb) \<and> has_file (geometry mbr i bpb) dk init_elf bytes)"

definition heap_fits :: "u32 \<Rightarrow> u32 \<Rightarrow> u8 list \<Rightarrow> u32 \<Rightarrow> nat \<Rightarrow> bool" where
  "heap_fits heap_start heap_end bytes hp hi \<longleftrightarrow> hp = ALIGN_4BYTE heap_start \<and> hp \<noteq> 0 \<and> unat heap_end < 4294967280 \<and>
     hi = unat hp + 32 + unat (ALIGN_4BYTE (of_nat (length bytes))) \<and> hi + 4 < unat heap_end"

locale board_memory =
  board pb reg lag sent room backlog quiet enabled rx card step select deselect clk latched period work
  for pb :: "'w bus" and reg and lag and sent and room and backlog and quiet :: "'w \<Rightarrow> bool"
    and enabled :: "'w \<Rightarrow> bool" and rx :: "'w \<Rightarrow> u8 list" and card :: "'w \<Rightarrow> 'c" and step select deselect
    and clk latched period work +
  fixes mb :: "(mem \<times> 'w) bus"
  assumes mb_silent: "r \<in> {al1_CTRL 0, al0_READ_ADDR 0, al0_WRITE_ADDR 0, al0_TRANS_COUNT 0, al0_CTRL_TRIG 0, TIMER_LR, TIMER_HR} \<Longrightarrow>
      sent (snd (snd (bus_read mb r e))) = sent (snd e) \<and> sent (snd (bus_write mb r v e)) = sent (snd e) \<and>
      reg (snd (snd (bus_read mb r e))) = reg (snd e) \<and> reg (snd (bus_write mb r v e)) = reg (snd e)"
begin

text \<open>Copying neither prints nor touches the control of the exception.\<close>

lemma silent_copier:
  assumes "copier mb mclk mlat mper final programmed live wk"
  shows "copier mb mclk mlat mper final programmed (\<lambda>w. live w \<and> seen w = S) wk"
proof -
  note c = copier.axioms [OF assms]
  note t = dma_channel.axioms(1) [OF c]
  have quiet_mb: "seen (snd (snd (bus_read mb r e))) = seen (snd e)" "seen (snd (bus_write mb r v e)) = seen (snd e)"
    if "r \<in> {al1_CTRL 0, al0_READ_ADDR 0, al0_WRITE_ADDR 0, al0_TRANS_COUNT 0, al0_CTRL_TRIG 0, TIMER_LR, TIMER_HR}" for r v e
    using mb_silent [OF that, of e v] by (simp_all add: seen_def)
  have sil: "seen (snd d') = seen (snd d)" if "bus_read mb r d = (v, d')"
      "r \<in> {al1_CTRL 0, al0_READ_ADDR 0, al0_WRITE_ADDR 0, al0_TRANS_COUNT 0, al0_CTRL_TRIG 0, TIMER_LR, TIMER_HR}" for r d v d'
    using quiet_mb(1) [OF that(2), of d] that(1) by simp
  show ?thesis
  proof
    show "mclk d < mclk d' \<and> mclk d' \<le> mclk d + mper * 4294967296 \<and> v = of_nat (mclk d' div mper) \<and>
        mlat d' = of_nat (mclk d' div mper div 4294967296) \<and>
        (final d', programmed d', live (snd d') \<and> seen (snd d') = S) = (final d, programmed d, live (snd d) \<and> seen (snd d) = S) \<and>
        wk (snd d') \<le> wk (snd d)" if "bus_read mb TIMER_LR d = (v, d')" for d v d'
      using timer.low [OF t that] sil [OF that] by simp
    show "mclk d < mclk d' \<and> mclk d' \<le> mclk d + mper * 4294967296 \<and> v = mlat d \<and>
        (final d', programmed d', live (snd d') \<and> seen (snd d') = S) = (final d, programmed d, live (snd d) \<and> seen (snd d) = S) \<and>
        wk (snd d') \<le> wk (snd d)" if "bus_read mb TIMER_HR d = (v, d')" for d v d'
      using timer.high [OF t that] sil [OF that] by simp
    show "(bit v 24 \<longleftrightarrow> wk (snd d) \<noteq> 0) \<and> (live (snd d') \<and> seen (snd d') = S) \<and> final d' = final d \<and> programmed d' = programmed d \<and>
        (if wk (snd d) = 0 then wk (snd d') = 0 else wk (snd d') < wk (snd d))"
      if "live (snd d) \<and> seen (snd d) = S" "bus_read mb (al1_CTRL 0) d = (v, d')" for d v d'
      using dma_channel.poll [OF c _ that(2)] sil [OF that(2)] that(1) by simp
    show "wk (snd d') = 0 \<and> (live (snd d') \<and> seen (snd d') = S) \<and> final d' = final d \<and> programmed d' = (a', b, n)"
      if "live (snd d) \<and> seen (snd d) = S" "wk (snd d) = 0" "programmed d = (a, b, n)" "bus_write mb (al0_READ_ADDR 0) a' d = d'"
      for d a b n a' d'
      using dma_channel.set_read [OF c _ that(2-4)] quiet_mb(2) [of "al0_READ_ADDR 0" a' d] that by auto
    show "wk (snd d') = 0 \<and> (live (snd d') \<and> seen (snd d') = S) \<and> final d' = final d \<and> programmed d' = (a, b', n)"
      if "live (snd d) \<and> seen (snd d) = S" "wk (snd d) = 0" "programmed d = (a, b, n)" "bus_write mb (al0_WRITE_ADDR 0) b' d = d'"
      for d a b n b' d'
      using dma_channel.set_write [OF c _ that(2-4)] quiet_mb(2) [of "al0_WRITE_ADDR 0" b' d] that by auto
    show "wk (snd d') = 0 \<and> (live (snd d') \<and> seen (snd d') = S) \<and> final d' = final d \<and> programmed d' = (a, b, n')"
      if "live (snd d) \<and> seen (snd d) = S" "wk (snd d) = 0" "programmed d = (a, b, n)" "bus_write mb (al0_TRANS_COUNT 0) n' d = d'"
      for d a b n n' d'
      using dma_channel.set_count [OF c _ that(2-4)] quiet_mb(2) [of "al0_TRANS_COUNT 0" n' d] that by auto
    show "(live (snd d') \<and> seen (snd d') = S) \<and> final d' = blit (final d) a b n"
      if "live (snd d) \<and> seen (snd d) = S" "wk (snd d) = 0" "programmed d = (a, b, n)" "plain_copy 0 v" "no_overlap a b n"
        "bus_write mb (al0_CTRL_TRIG 0) v d = d'" for d a b n v d'
      using dma_channel.trigger [OF c _ that(2-6)] quiet_mb(2) [of "al0_CTRL_TRIG 0" v d] that by auto
  qed (use timer.period [OF t] dma_channel.settled [OF c] in auto)
qed

text \<open>The whole way, for every program.\<close>

lemma main_reaches_program:
  assumes startup: "sd_startup pb enabled rx card step select deselect idle contents clk latched period work phase tries"
    and dma: "copier mb mclk mlat mper final programmed live wk" "\<forall>d. enabled d \<longrightarrow> live d \<and> wk d = 0"
    and d: "quiet d" "rx d = []" "phase (card d) = Fresh" "tries (card d) < 5000"
    and vol: "boot_volume (contents (card d)) bytes"
    and st: "\<forall>n. junk_ok (junk n)" "length (filename entry0) = 256"
    and fit: "heap_fits heap_start heap_end bytes hp hi" "elf_ok (unat hp) hi bytes"
  shows "\<exists>k1. (\<forall>start. main pb mb junk entry0 file0 heap_start heap_end start (zero_kernel (m, d)) = do {
       k2 \<leftarrow> start (word_in bytes 0x18) k1;
       d2 \<leftarrow> shutdown_loop pb (sd (k_fs k2));
       Some (None, k2\<lparr>k_fs := (k_fs k2)\<lparr>sd := d2\<rparr>\<rparr>)
     }) \<and> seen (sd (k_fs k1)) = (sent d @ greeting, reg d SYST_CSR) \<and>
     linked \<lparr>heap_mem = ram (k_fs k1), head = k_head k1\<rparr> (unat heap_end) [(unat heap_end - unat hp - 16, False)] \<and>
     (\<forall>x. unat x < unat hp \<or> hi \<le> unat x \<longrightarrow>
       ram (k_fs k1) x = fold (load_image bytes) (elf_segments bytes) m x)"
proof -
  obtain mbr i bpb where v: "contents (card d) 0 = Some mbr" "le16_at mbr 510 = 0xAA55"
    "find (fat_partition mbr) [0, 1, 2, 3] = Some i" "contents (card d) (le32_at mbr (454 + 16 * i)) = Some bpb"
    "bpb ! 0x0D \<noteq> 0" "vol_ok (geometry mbr i bpb)" "has_file (geometry mbr i bpb) (contents (card d)) init_elf bytes"
    using vol unfolding boot_volume_def by blast
  have h: "hp = ALIGN_4BYTE heap_start" "hp \<noteq> 0" "unat heap_end < 4294967280"
    "hi = unat hp + 32 + unat (ALIGN_4BYTE (of_nat (length bytes)))" "hi + 4 < unat heap_end"
    using fit(1) unfolding heap_fits_def by blast+
  let ?k = "zero_kernel (m, d)" and ?S = "(sent d @ greeting, reg d SYST_CSR)"
  have k: "d = sd (k_fs ?k)" "ram (k_fs ?k) = m" "length (open_file_handles (k_fs ?k)) = 16"
    by (simp_all add: zero_kernel_def MAX_OPEN_FILES_def)
  have "\<forall>d. enabled d \<and> seen d = ?S \<longrightarrow> (live d \<and> seen d = ?S) \<and> wk d = 0" using dma(2) by blast
  note ld = card_loader [OF silent_startup [OF startup] silent_copier [OF dma(1)] this]
  obtain k1 where k1: "\<forall>start. kernel_main pb mb junk entry0 file0 heap_start heap_end start ?k = do {
       k2 \<leftarrow> start (word_in bytes 0x18) k1;
       d2 \<leftarrow> shutdown_loop pb (sd (k_fs k2));
       Some (Parked (k2\<lparr>k_fs := (k_fs k2)\<lparr>sd := d2\<rparr>\<rparr>))
     }" "live (sd (k_fs k1)) \<and> seen (sd (k_fs k1)) = ?S"
     "linked \<lparr>heap_mem = ram (k_fs k1), head = k_head k1\<rparr> (unat heap_end) [(unat heap_end - unat hp - 16, False)]"
     "\<forall>x. unat x < unat hp \<or> hi \<le> unat x \<longrightarrow>
       ram (k_fs k1) x = fold (load_image bytes) (elf_segments bytes) m x"
    using kernel_boot [OF startup ld d k(1) v st k(3) h fit(2), of file0] unfolding k(2) by blast
  then show ?thesis by (intro exI [of _ k1]) (simp add: main_def)
qed

text \<open>The greeting of \<open>programs/init.c\<close>, when its entry point is called in the state the kernel has reached: the
  instruction and the string of the program have to lie where neither the loader nor the program itself overwrites them.\<close>

lemma program_greets:
  assumes "sent d1 = sent d @ greeting" "\<forall>x. unat x < unat hp \<or> hi \<le> unat x \<longrightarrow> m1 x = img x"
    and "\<not> on_psp c" "sp = stack_top - used" "off_stack sp 20" "off_stack sp 23"
    and "unat (ALIGN_4BYTE uheap_start) + 16 \<le> unat uheap_end" "unat uheap_end < 4294967280"
    and "program_byte hp hi uheap_start sp (pc c - 2)" "\<forall>i < 20. program_byte hp hi uheap_start sp (msg + of_nat i)"
    and "img (pc c - 2) = 1" "bytes_at img msg 20 = chars ''Hello from userland!''"
  shows "\<exists>m' d'. init_start pb stack_top used c msg uheap_start uheap_end m1 d1 = Some (Inr (0, m', d')) \<and>
    sent d' = sent d @ greeting @ chars ''Hello from userland!''"
proof -
  have r: "m1 x = img x" if "program_byte hp hi uheap_start sp x" for x
    using assms(2) that unfolding program_byte_def by blast
  have "bytes_at m1 msg 20 = bytes_at img msg 20" using assms(10) r by (intro bytes_at_cong) auto
  then show ?thesis
    using init_start_prints [OF uart_port_axioms assms(3,4,7-10,5,6), of m1 d1] r [OF assms(9)] assms(1,11,12) by auto
qed

end

section \<open>From power-on to the first delay\<close>

context board
begin

text \<open>The first thing \<open>SDInit\<close> does is a delay of ten milliseconds, the period of the exception that is enabled by then; the
  card has not been sent a byte when it is over.  \<open>Q\<close> is a property of the card that the select line does not affect.\<close>

lemma first_delay:
  assumes "tick_us (reg d) = Some us" "quiet d" "rx d = []" "unselective Q" "Q (card d)"
  obtains d2 d3 where "kernel_devices pb d = SDInit pb d2" "usleep pb 10000 d2 = Some (0, d3)"
    "kernel_devices pb d = SDInit_start pb d3" "tick_us (reg d2) = Some us" "reg d3 = reg d2"
    "clk d2 div period + 10000 \<le> clk d3 div period" "sent d3 = sent d @ greeting" "Q (card d3)"
proof -
  obtain d2 where d2: "kernel_devices pb d = SDInit pb d2" "port_ready enabled rx card Q d2" "sent d2 = sent d @ greeting"
    "devices_released (reg d) (reg d2)" by (rule kernel_devices_spec [OF assms(4,2,5,3)])
  note t = timer_keeps [of "\<lambda>x. x"]
  obtain d3 where d3: "usleep pb 10000 d2 = Some (0, d3)" "clk d2 div period + 10000 \<le> clk d3 div period"
    "(enabled d3, rx d3, card d3, sent d3, reg d3) = (enabled d2, rx d2, card d2, sent d2, reg d2)"
    using timer.usleep_returns [OF t, of 10000 d2] unfolding timer.now_def [OF t] by auto
  have "tick_us (reg d2) = tick_us (reg d)" by (rule tick_us_cong) (use d2(4) in \<open>auto simp: devices_released_def\<close>)
  then show thesis
    using that [of d2 d3] d2 d3 assms(1) by (simp add: SDInit_def port_ready_def)
qed

end

locale cold_start =
  board pb reg lag sent room backlog quiet enabled rx card step select deselect clk latched period work +
  held_dma mb "\<lambda>d. bit (reg (snd d) RESETS_RESET) 2"
  for pb :: "'w bus" and reg and lag and sent and room and backlog and quiet :: "'w \<Rightarrow> bool"
    and enabled :: "'w \<Rightarrow> bool" and rx :: "'w \<Rightarrow> u8 list" and card :: "'w \<Rightarrow> 'c" and step select deselect
    and clk latched period work and mb :: "(mem \<times> 'w) bus" +
  assumes mb_read: "r \<in> control_regs \<Longrightarrow> bus_read pb r d = (v, d') \<Longrightarrow> bus_read mb r (m, d) = (v, m, d')"
    and mb_write: "r \<in> control_regs \<Longrightarrow> bus_write mb r v (m, d) = (m, bus_write pb r v d)"
    and control_read: "\<lbrakk>r \<in> control_regs; bus_read pb r d = (v, d')\<rbrakk> \<Longrightarrow>
      sent d' = sent d \<and> quiet d' = quiet d \<and> rx d' = rx d \<and> card d' = card d"
    and control_write: "\<lbrakk>r \<in> control_regs; bus_write pb r v d = d'\<rbrakk> \<Longrightarrow>
      sent d' = sent d \<and> quiet d' = quiet d \<and> rx d' = rx d \<and> card d' = card d"
begin

text \<open>\<open>SystemInit\<close> does not touch the memory, the console, the port and the card.\<close>

lemma view:
  "register_view pb mb (\<lambda>d e. e = (m, d) \<and> sent d = sent d0 \<and> quiet d = quiet d0 \<and> rx d = rx d0 \<and> card d = card d0)"
proof
  fix r d e v d' u e'
  assume r: "r \<in> control_regs" and e: "e = (m, d) \<and> sent d = sent d0 \<and> quiet d = quiet d0 \<and> rx d = rx d0 \<and> card d = card d0"
  show "u = v \<and> e' = (m, d') \<and> sent d' = sent d0 \<and> quiet d' = quiet d0 \<and> rx d' = rx d0 \<and> card d' = card d0"
    if "bus_read pb r d = (v, d')" "bus_read mb r e = (u, e')"
    using mb_read [OF r that(1), of m] control_read [OF r that(1)] that(2) e by simp
  show "bus_write mb r v e = (m, bus_write pb r v d) \<and> sent (bus_write pb r v d) = sent d0 \<and>
      quiet (bus_write pb r v d) = quiet d0 \<and> rx (bus_write pb r v d) = rx d0 \<and> card (bus_write pb r v d) = card d0"
    using mb_write [OF r, of v m d] control_write [OF r refl, of v d] e by simp
qed

lemma SystemInit_cold:
  assumes "\<not> bit (reg d REF_CTRL) 0"
  obtains d' where "SystemInit mb (m, d) = Some (m, d')" "reg d' = initialised (reg d)"
    "sent d' = sent d" "quiet d' = quiet d" "rx d' = rx d" "card d' = card d"
proof -
  obtain d' where d': "SystemInit pb d = Some d'" "reg d' = initialised (reg d)" using SystemInit_spec [OF assms] by blast
  note v = view [of m d]
  show thesis
    using register_view.sim_SystemInit [OF v, where d = d and e = "(m, d)"] d' that [of d'] by (auto simp: register_view.sim_def [OF v])
qed

text \<open>What \<open>main\<close> finds: the zero-initialised data is cleared, the rest of the memory is what it was.\<close>

lemma cold_reset:
  assumes "bit (reg d RESETS_RESET) 2" "\<not> bit (reg d REF_CTRL) 0" "4 dvd unat (bss_end ld - bss_start ld)"
  obtains d' where "resetHandler mb ld start (m, d) = start (cleared ld m, d')" "reg d' = initialised (reg d)"
    "sent d' = sent d" "quiet d' = quiet d" "rx d' = rx d" "card d' = card d"
proof -
  obtain d' where "SystemInit mb (cleared ld m, d) = Some (cleared ld m, d')" "reg d' = initialised (reg d)"
    "sent d' = sent d" "quiet d' = quiet d" "rx d' = rx d" "card d' = card d"
    by (rule SystemInit_cold [OF assms(2)])
  then show thesis
    using that cold_reset_copies_nothing [OF held_dma_axioms _ assms(3), of m d start] assms(1) by simp
qed

end

section \<open>The simulated board\<close>

lemma control_owners:
  assumes "r \<in> control_regs"
  shows "\<not> own_chip r" "\<not> own_spi r" "\<not> own_dma r"
proof -
  have "rw_bits r \<noteq> 0 \<or> r \<in> set status_regs \<or> r = SYST_CVR"
    using assms by (auto simp: control_regs_def status_regs_def)
  then show "\<not> own_chip r" "\<not> own_spi r" using not_rw by blast+
  have "own_dma r \<Longrightarrow> rw_bits r = 0 \<and> r \<notin> set status_regs \<and> r \<noteq> SYST_CVR"
    unfolding own_dma_def dma_regs by (elim insertE emptyE; simp add: rw_bits_def system_regs status_regs_def)
  then show "\<not> own_dma r" using \<open>rw_bits r \<noteq> 0 \<or> r \<in> set status_regs \<or> r = SYST_CVR\<close> by blast
qed

interpretation bd_cold: cold_start board_bus bd_reg bd_lag bd_sent "\<lambda>d. bd_busy d = 0" bd_busy bd_idle bd_on bd_rx bd_card
  sim_step sim_select sim_deselect bd_clk bd_latch 1 bd_busy mem_bus
proof (intro cold_start.intro cold_start_axioms.intro held_dma.intro bd.board_axioms)
  show "\<not> bit v 24 \<and> d' = d" if "bit (bd_reg (snd d) RESETS_RESET) 2" "bus_read mem_bus (al1_CTRL 0) d = (v, d')" for d v d'
    using that by (cases d) (auto simp: mem_bus_def)
  show "bus_write mem_bus r v d = d"
    if "bit (bd_reg (snd d) RESETS_RESET) 2" "r \<in> {al0_READ_ADDR 0, al0_WRITE_ADDR 0, al0_TRANS_COUNT 0, al0_CTRL_TRIG 0}" for d r v
    using that by (cases d) (auto simp: mem_bus_def)
  show "bus_read mem_bus r (m, d) = (v, m, d')" if "r \<in> control_regs" "bus_read board_bus r d = (v, d')" for r d v d' m
    using that control_owners [OF that(1)] by (cases d) (auto simp: mem_bus_def board_bus_def split: prod.splits)
  show "bus_write mem_bus r v (m, d) = (m, bus_write board_bus r v d)" if "r \<in> control_regs" for r v m d
    using control_owners [OF that] by (cases d) (auto simp: mem_bus_def board_bus_def)
  show "bd_sent d' = bd_sent d \<and> bd_idle d' = bd_idle d \<and> bd_rx d' = bd_rx d \<and> bd_card d' = bd_card d"
    if "r \<in> control_regs" "bus_read board_bus r d = (v, d')" for r d v d'
    by (rule board_read_rf [OF control_owners(1,2) [OF that(1)] that(2)]) simp
  show "bd_sent d' = bd_sent d \<and> bd_idle d' = bd_idle d \<and> bd_rx d' = bd_rx d \<and> bd_card d' = bd_card d"
    if "r \<in> control_regs" "bus_write board_bus r v d = d'" for r d v d'
    using that(2) control_owners [OF that(1)] by (cases d) (auto simp: board_write)
qed

interpretation bd_mem: board_memory board_bus bd_reg bd_lag bd_sent "\<lambda>d. bd_busy d = 0" bd_busy bd_idle bd_on bd_rx bd_card
  sim_step sim_select sim_deselect bd_clk bd_latch 1 bd_busy mem_bus
proof (intro board_memory.intro board_memory_axioms.intro bd.board_axioms)
  show "bd_sent (snd (snd (bus_read mem_bus r e))) = bd_sent (snd e) \<and> bd_sent (snd (bus_write mem_bus r v e)) = bd_sent (snd e) \<and>
      bd_reg (snd (snd (bus_read mem_bus r e))) = bd_reg (snd e) \<and> bd_reg (snd (bus_write mem_bus r v e)) = bd_reg (snd e)"
    if "r \<in> {al1_CTRL 0, al0_READ_ADDR 0, al0_WRITE_ADDR 0, al0_TRANS_COUNT 0, al0_CTRL_TRIG 0, TIMER_LR, TIMER_HR}" for r e v
  proof -
    have "own_dma r \<or> r = TIMER_LR \<or> r = TIMER_HR" using that by (auto simp: own_dma_def)
    then show ?thesis
      by (cases e) (elim disjE; auto simp: mem_bus_def peri_bus_def par_bus_def chip_bus_def chip_read_def chip_write_def split: prod.splits)
  qed
qed

interpretation bd_view: register_view board_bus mem_bus "\<lambda>d e. snd e = d"
proof
  show "u = v \<and> snd e' = d'"
    if "r \<in> control_regs" "snd e = d" "bus_read board_bus r d = (v, d')" "bus_read mem_bus r e = (u, e')" for r d e v d' u e'
    using bd_cold.mb_read [OF that(1,3), of "fst e"] that(2,4) by (cases e) auto
  show "snd (bus_write mem_bus r v e) = bus_write board_bus r v d" if "r \<in> control_regs" "snd e = d" for r d e v
    using bd_cold.mb_write [OF that(1), of v "fst e" d] that(2) by (cases e) auto
qed

text \<open>The board with the card, and the volume on it.\<close>

lemma board_facts:
  "\<forall>d. bd_on d \<longrightarrow> bd_live d \<and> bd_left d = 0"
  "\<not> bit (bd_reg (board_of False (fresh_card boot_disk)) SYST_CSR) 1"
  "bd_idle (board_of False (fresh_card boot_disk))" "bd_rx (board_of False (fresh_card boot_disk)) = []"
  "sim_phase (bd_card (board_of False (fresh_card boot_disk))) = Fresh"
  "countdown (bd_card (board_of False (fresh_card boot_disk))) < 5000"
proof -
  show "\<not> bit (bd_reg (board_of False (fresh_card boot_disk)) SYST_CSR) 1" "bd_idle (board_of False (fresh_card boot_disk))"
    by (simp_all add: board_of_def reg_file0_def rf_content_def system_regs_neq engine0_def)
qed (auto simp: fresh_board)

lemma boot_disk_boots: "boot_volume (sim_contents (bd_card (board_of False (fresh_card boot_disk)))) init_bytes"
  unfolding boot_volume_def fresh_board(1) boot_contents
  by (intro exI [of _ mbr1] exI [of _ 0] exI [of _ bpb1])
    (use boot_sectors mount1 vol1_ok vol1_geometry boot_has_file in auto)

lemma init_bytes_nth: "init_bytes ! 0x60 = 0x01" "init_bytes ! 0x63 = 0" "init_bytes ! 0x64 = 0x48"
  by (simp_all add: init_bytes_def elf1_def chars_def)

lemma boot_fits: "heap_fits 0x20001000 0x20009000 init_bytes 0x20001000 0x20001098" "elf_ok (unat (0x20001000 :: u32)) 0x20001098 init_bytes"
proof -
  have "ALIGN_4BYTE 0x20001000 = 0x20001000" "unat (ALIGN_4BYTE 120) = 120" by (simp_all add: ALIGN_4BYTE_push)
  then show "heap_fits 0x20001000 0x20009000 init_bytes 0x20001000 0x20001098" by (simp add: heap_fits_def init_bytes_length)
  show "elf_ok (unat (0x20001000 :: u32)) 0x20001098 init_bytes" using init_bytes_ok(1) by simp
qed

text \<open>The program in the memory.\<close>

lemma hello_bytes:
  "\<forall>i < 20. program_byte 0x20001000 0x20001098 0x20010020 0x2000BFC0 (0x20010004 + of_nat i)"
  "fold (load_image init_bytes) (elf_segments init_bytes) (\<lambda>_. 0) (pc (cpu0\<lparr>pc := 0x20010002\<rparr>) - 2) = 1"
  "bytes_at (fold (load_image init_bytes) (elf_segments init_bytes) (\<lambda>_. 0)) 0x20010004 20 =
     chars ''Hello from userland!''"
proof -
  have al: "ALIGN_4BYTE 0x20010020 = 0x20010020" by (simp add: ALIGN_4BYTE_push)
  have u: "unat (k + of_nat i) = unat k + i" if "i < 20" "unat k < 4294967000" for i and k :: u32
    using that by (intro trans [OF unat_add_u32]) (simp_all add: unat_of_nat)
  show "\<forall>i < 20. program_byte 0x20001000 0x20001098 0x20010020 0x2000BFC0 (0x20010004 + of_nat i)"
    using u [of _ "0x20010004"] u [of _ "0x4068"]
    by (auto simp: program_byte_def off_stack_def al word_le_nat_alt)
  have s: "init_bytes ! (0x60 + k) = ([0x01, 0xDF, 0, 0] @ chars ''Hello from userland!'') ! k" if "k < 24" for k
    using that by (simp add: init_bytes_def elf1_def)
  show "fold (load_image init_bytes) (elf_segments init_bytes) (\<lambda>_. 0) (pc (cpu0\<lparr>pc := 0x20010002\<rparr>) - 2) = 1"
    using s [of 0] by (simp add: init_bytes_ok(3) load_image_def)
  have "fold (load_image init_bytes) (elf_segments init_bytes) (\<lambda>_. 0) (0x20010004 + of_nat i) =
      chars ''Hello from userland!'' ! i" if "i < 20" for i
    using u [OF that, of 4] s [of "4 + i"] that by (simp add: init_bytes_ok(3) load_image_def word_less_nat_alt nth_append)
  then show "bytes_at (fold (load_image init_bytes) (elf_segments init_bytes) (\<lambda>_. 0)) 0x20010004 20 =
      chars ''Hello from userland!''"
    by (intro nth_equalityI) (simp_all add: bytes_at_def chars_def)
qed

text \<open>With the exception disabled the example card brings the board to the greeting.\<close>

lemma example_greets:
  "\<exists>k1 m' d'. main board_bus mem_bus (\<lambda>_. junk1) info1 info1 0x20001000 0x20009000 (\<lambda>e k. if e = 0x20010000 then Some k else None)
       (zero_kernel (\<lambda>_. 0, board_of False (fresh_card boot_disk))) = do {
       d2 \<leftarrow> shutdown_loop board_bus (sd (k_fs k1));
       Some (None, k1\<lparr>k_fs := (k_fs k1)\<lparr>sd := d2\<rparr>\<rparr>)
     } \<and> init_start board_bus 0x2000C000 0x40 (cpu0\<lparr>pc := 0x20010002\<rparr>) 0x20010004 0x20010020 0x20012000
       (ram (k_fs k1)) (sd (k_fs k1)) = Some (Inr (0, m', d')) \<and>
     bd_sent d' = greeting @ chars ''Hello from userland!''"
proof -
  let ?c = "cpu0\<lparr>pc := 0x20010002\<rparr>" and ?sp = "0x2000BFC0 :: u32" and ?d = "board_of False (fresh_card boot_disk)"
  let ?img = "fold (load_image init_bytes) (elf_segments init_bytes) (\<lambda>_. 0)"
  have al: "ALIGN_4BYTE 0x20010020 = 0x20010020" by (simp add: ALIGN_4BYTE_push)
  have c: "\<not> on_psp ?c" "?sp = 0x2000C000 - 0x40" "off_stack ?sp 20" "off_stack ?sp 23"
    "unat (ALIGN_4BYTE 0x20010020) + 16 \<le> unat (0x20012000 :: u32)" "unat (0x20012000 :: u32) < 4294967280"
    by (simp_all add: cpu0_def off_stack_def al)
  have p: "program_byte 0x20001000 0x20001098 0x20010020 ?sp (pc ?c - 2)"
    by (simp add: program_byte_def off_stack_def al)
  obtain k1 where k1: "\<forall>start. main board_bus mem_bus (\<lambda>_. junk1) info1 info1 0x20001000 0x20009000 start (zero_kernel (\<lambda>_. 0, ?d)) = do {
       k2 \<leftarrow> start (word_in init_bytes 0x18) k1;
       d2 \<leftarrow> shutdown_loop board_bus (sd (k_fs k2));
       Some (None, k2\<lparr>k_fs := (k_fs k2)\<lparr>sd := d2\<rparr>\<rparr>)
     }" "bd_sent (sd (k_fs k1)) = bd_sent ?d @ greeting"
     "\<forall>x. unat x < unat (0x20001000 :: u32) \<or> 0x20001098 \<le> unat x \<longrightarrow> ram (k_fs k1) x = ?img x"
    using bd_mem.main_reaches_program [where junk = "\<lambda>_. junk1" and ?entry0.0 = info1 and ?file0.0 = info1 and m = "\<lambda>_. 0",
        OF bd_start.sd_startup_axioms mem_copier.copier_axioms board_facts(1,3-) boot_disk_boots allI [OF junk1_ok] _ boot_fits]
    by (auto simp: info1_def bd.seen_def)
  have "bd_sent ?d = []" by (simp add: board_of_def chip0_def)
  then show ?thesis
    using k1(1) init_bytes_ok(2) bd_mem.program_greets [OF k1(2,3) c p hello_bytes] by fastforce
qed

section \<open>Properties\<close>

text \<open>C1. The kernel up to the first program, when it is not interrupted: \<open>main\<close> is entered with the SysTick exception
  disabled, the zero-initialised variables zero, and a card that starts within its tries and holds a FAT32 volume with an
  executable \<open>/bin/init.elf\<close>.  Then \<open>kernel_main\<close> gets to the call of the entry point of the file, with the exception still
  disabled.  By then the console shows the banner and nothing else, the heap is one free block, and the memory outside
  the part of the heap that the buffer for the file took is the image the file describes, written over what \<open>main\<close>
  found.  If the program returns and the card still answers, the kernel switches the card off and parks.  The side
  condition is not met by the program as it is: \<open>SystemInit\<close> enables the exception, and the next claim is what
  happens then.\<close>

theorem kernel_boots:
  assumes "board_memory pb reg lag sent room backlog quiet enabled rx crd step select deselect clk latched period work mb"
    and "sd_startup pb enabled rx crd step select deselect idle contents clk latched period work phase tries"
    and "copier mb mclk mlat mper final programmed live wk" "\<forall>d. enabled d \<longrightarrow> live d \<and> wk d = 0"
    and "\<not> bit (reg d SYST_CSR) 1" "quiet d" "rx d = []" "phase (crd d) = Fresh" "tries (crd d) < 5000"
    and "boot_volume (contents (crd d)) bytes" "\<forall>n. junk_ok (junk n)" "length (filename entry0) = 256"
    and "heap_fits heap_start heap_end bytes hp hi" "elf_ok (unat hp) hi bytes"
  shows "\<exists>k1. (\<forall>start. main pb mb junk entry0 file0 heap_start heap_end start (zero_kernel (m, d)) = do {
       k2 \<leftarrow> start (word_in bytes 0x18) k1;
       d2 \<leftarrow> shutdown_loop pb (sd (k_fs k2));
       Some (None, k2\<lparr>k_fs := (k_fs k2)\<lparr>sd := d2\<rparr>\<rparr>)
     }) \<and> \<not> bit (reg (sd (k_fs k1)) SYST_CSR) 1 \<and> sent (sd (k_fs k1)) = sent d @ replicate 80 0x0A @ butlast banner \<and>
     linked \<lparr>heap_mem = ram (k_fs k1), head = k_head k1\<rparr> (unat heap_end) [(unat heap_end - unat hp - 16, False)] \<and>
     (\<forall>x. unat x < unat hp \<or> hi \<le> unat x \<longrightarrow>
       ram (k_fs k1) x = fold (load_image bytes) (elf_segments bytes) m x) \<and>
     (\<forall>k2. port_ready enabled rx crd (\<lambda>c. phase c = Ready) (sd (k_fs k2)) \<longrightarrow>
       (\<exists>d2. shutdown_loop pb (sd (k_fs k2)) = Some d2 \<and> phase (crd d2) = Idling))"
proof -
  have park: "\<exists>d2. shutdown_loop pb (sd (k_fs k2)) = Some d2 \<and> phase (crd d2) = Idling"
    if "port_ready enabled rx crd (\<lambda>c. phase c = Ready) (sd (k_fs k2))" for k2
    using sd_startup.shutdown_loop_spec [OF assms(2), of "tries (crd (sd (k_fs k2)))" "contents (crd (sd (k_fs k2)))" "sd (k_fs k2)"] that
    by (auto simp: sd_startup.in_phase_def [OF assms(2)] port_ready_def)
  note b = board_memory.axioms(1) [OF assms(1)]
  obtain k1 where k1: "\<forall>start. main pb mb junk entry0 file0 heap_start heap_end start (zero_kernel (m, d)) = do {
       k2 \<leftarrow> start (word_in bytes 0x18) k1;
       d2 \<leftarrow> shutdown_loop pb (sd (k_fs k2));
       Some (None, k2\<lparr>k_fs := (k_fs k2)\<lparr>sd := d2\<rparr>\<rparr>)
     }" "sent (sd (k_fs k1)) = sent d @ greeting" "reg (sd (k_fs k1)) SYST_CSR = reg d SYST_CSR"
     "linked \<lparr>heap_mem = ram (k_fs k1), head = k_head k1\<rparr> (unat heap_end) [(unat heap_end - unat hp - 16, False)]"
     "\<forall>x. unat x < unat hp \<or> hi \<le> unat x \<longrightarrow>
       ram (k_fs k1) x = fold (load_image bytes) (elf_segments bytes) m x"
    using board_memory.main_reaches_program [OF assms(1-4,6-), of file0 m] unfolding board.seen_def [OF b] by blast
  have "\<not> bit (reg (sd (k_fs k1)) SYST_CSR) 1" using k1(3) assms(5) by simp
  then show ?thesis using k1(1,2,4,5) park unfolding greeting_def by blast
qed

theorem kernel_boots_witness:
  "\<exists>k1. main board_bus mem_bus (\<lambda>_. junk1) info1 info1 0x20001000 0x20009000 (\<lambda>e k. if e = 0x20010000 then Some k else None)
       (zero_kernel (\<lambda>_. 1, board_of False (fresh_card boot_disk))) = do {
       d2 \<leftarrow> shutdown_loop board_bus (sd (k_fs k1));
       Some (None, k1\<lparr>k_fs := (k_fs k1)\<lparr>sd := d2\<rparr>\<rparr>)
     } \<and> bd_sent (sd (k_fs k1)) = replicate 80 0x0A @ butlast banner \<and>
     map (ram (k_fs k1)) [0x20010000, 0x20010003, 0x20010004, 0x20000000, 0x2001001C] = [0x01, 0, 0x48, 1, 0]"
  using kernel_boots [where junk = "\<lambda>_. junk1" and ?entry0.0 = info1 and ?file0.0 = info1 and m = "\<lambda>_. 1",
      OF bd_mem.board_memory_axioms bd_start.sd_startup_axioms mem_copier.copier_axioms board_facts boot_disk_boots
      allI [OF junk1_ok] _ boot_fits]
    init_bytes_ok(2,3) init_bytes_nth
  by (auto simp: load_image_def info1_def board_of_def chip0_def)

text \<open>C2. Power-on ends in the default handler before the card is started.  From power-on, with the DMA still held in
  reset, the reset handler enters \<open>main\<close> with the zero-initialised data cleared and the initialised data not copied from the
  flash.  From \<open>SystemInit\<close> on the SysTick exception is enabled with a period of 10000 microseconds.  Followed without
  interruption, the kernel prints 80 line feeds and the banner, and \<open>SDInit\<close> begins with its delay; that delay alone takes at
  least 10000 microseconds, and when it is over not a byte has been sent to the card and nothing more is on the console.
  So the exception comes during this delay at the latest.  Nothing in the code masks it, and its vector is the default
  handler, which does not return: at most the banner is ever printed, and the card is never started.  \<open>Q\<close> is any property of
  the card that the select line alone does not change, such as not having been started.\<close>

theorem tick_precedes_card:
  assumes "cold_start pb reg lag sent room backlog quiet enabled rx crd step select deselect clk latched period work mb"
    and "bit (reg d RESETS_RESET) 2" "reg d REF_CTRL = 0" "reg d SYS_CTRL = 0" "4 dvd unat (bss_end ld - bss_start ld)"
    and "quiet d" "rx d = []" "\<forall>c. Q c \<longrightarrow> Q (select c) \<and> Q (deselect c)" "Q (crd d)"
  shows "\<exists>d1 d2 d3. resetHandler mb ld (\<lambda>st. main pb mb junk entry0 file0 heap_start heap_end start (zero_kernel st)) (m, d) =
      main pb mb junk entry0 file0 heap_start heap_end start (zero_kernel (cleared ld m, d1)) \<and> tick_us (reg d1) = Some 10000 \<and>
    kernel_devices pb d1 = SDInit pb d2 \<and> tick_us (reg d2) = Some 10000 \<and>
    usleep pb 10000 d2 = Some (0, d3) \<and> clk d2 div period + 10000 \<le> clk d3 div period \<and> tick_us (reg d3) = Some 10000 \<and>
    kernel_devices pb d1 = SDInit_start pb d3 \<and> Q (crd d3) \<and> sent d3 = sent d @ replicate 80 0x0A @ butlast banner \<and>
    linked_handler (vector ! 15) = V_defaultHandler \<and> (\<forall>e. defaultHandler mb e = None)"
proof -
  note b = cold_start.axioms(1) [OF assms(1)]
  have r: "\<not> bit (reg d REF_CTRL) 0" using assms(3) by simp
  obtain d1 where d1: "resetHandler mb ld (\<lambda>st. main pb mb junk entry0 file0 heap_start heap_end start (zero_kernel st)) (m, d) =
      main pb mb junk entry0 file0 heap_start heap_end start (zero_kernel (cleared ld m, d1))"
    "reg d1 = initialised (reg d)" "sent d1 = sent d" "quiet d1 = quiet d" "rx d1 = rx d" "crd d1 = crd d"
    by (rule cold_start.cold_reset [OF assms(1,2) r assms(5)])
  have u: "board.unselective select deselect Q" using assms(8) by (simp add: board.unselective_def [OF b])
  have q: "quiet d1" "rx d1 = []" "Q (crd d1)" using d1(4-6) assms(6,7,9) by simp_all
  have t: "tick_us (reg d1) = Some 10000" unfolding d1(2) by (rule initialised_tick [OF assms(3,4)])
  obtain d2 d3 where d: "kernel_devices pb d1 = SDInit pb d2" "usleep pb 10000 d2 = Some (0, d3)"
    "kernel_devices pb d1 = SDInit_start pb d3" "tick_us (reg d2) = Some 10000" "reg d3 = reg d2"
    "clk d2 div period + 10000 \<le> clk d3 div period" "sent d3 = sent d1 @ greeting" "Q (crd d3)"
    by (rule board.first_delay [OF b t q(1,2) u q(3)])
  have t3: "tick_us (reg d3) = Some 10000" using d(4,5) by simp
  have out: "sent d3 = sent d @ replicate 80 0x0A @ butlast banner" using d(7) d1(3) by (simp add: greeting_def)
  have v: "linked_handler (vector ! 15) = V_defaultHandler" by code_simp
  show ?thesis
    by (intro exI [of _ d1] exI [of _ d2] exI [of _ d3] conjI allI)
      (rule d1(1) t d(1) d(4) d(2) d(6) t3 d(3) d(8) out v defaultHandler_none)+
qed

theorem tick_precedes_card_witness:
  "\<exists>d1 d3. resetHandler mem_bus ld1 (\<lambda>st. main board_bus mem_bus (\<lambda>_. junk1) info1 info1 0x20001000 0x20009000 (\<lambda>_. Some)
      (zero_kernel st)) (\<lambda>_. 5, board_of False (fresh_card boot_disk)) =
      main board_bus mem_bus (\<lambda>_. junk1) info1 info1 0x20001000 0x20009000 (\<lambda>_. Some) (zero_kernel (cleared ld1 (\<lambda>_. 5), d1)) \<and>
    kernel_devices board_bus d1 = SDInit_start board_bus d3 \<and> tick_us (bd_reg d3) = Some 10000 \<and> 10000 \<le> bd_clk d3 \<and>
    sim_phase (bd_card d3) = Fresh \<and> bd_sent d3 = replicate 80 0x0A @ butlast banner"
proof -
  let ?d = "board_of False (fresh_card boot_disk)"
  have f: "bit (bd_reg ?d RESETS_RESET) 2" "bd_reg ?d REF_CTRL = 0" "bd_reg ?d SYS_CTRL = 0"
    "4 dvd unat (bss_end ld1 - bss_start ld1)" "bd_idle ?d" "bd_rx ?d = []"
    "\<forall>c. sim_phase c = Fresh \<longrightarrow> sim_phase (sim_select c) = Fresh \<and> sim_phase (sim_deselect c) = Fresh"
    "sim_phase (bd_card ?d) = Fresh"
    using fresh_board(4)
    by (simp_all add: board_of_def engine0_def reg_file0_def rf_content_def system_regs_neq ld1_def sim_phase_def)
  have sent: "bd_sent ?d = []" by (simp add: board_of_def chip0_def)
  show ?thesis
    using tick_precedes_card [where junk = "\<lambda>_. junk1" and ?entry0.0 = info1 and ?file0.0 = info1 and start = "\<lambda>_. Some" and
        heap_start = "0x20001000" and heap_end = "0x20009000" and m = "\<lambda>_. 5", OF bd_cold.cold_start_axioms f]
    unfolding sent append_Nil div_by_1
    by (elim exE conjE, intro exI conjI) (assumption | rule order_trans [OF le_add2])+
qed

text \<open>C18. Without a card, when the kernel is not interrupted: \<open>main\<close> is entered with the SysTick exception disabled and the
  zero-initialised variables zero, and the data line of the card always reads as ones.  Then \<open>kernel_main\<close> gives up and \<open>main\<close>
  returns 0, with the exception still disabled.  The console shows 80 line feeds, the banner and the message of the failure,
  and nothing else.  The heap is not set up, no volume is mounted, no file is opened and no program is started: the
  memory and the variables of the kernel are what \<open>main\<close> found.\<close>

theorem main_without_card:
  assumes "board pb reg lag sent room backlog quiet enabled rx crd step select deselect clk latched period work"
    and "mute_line pb enabled rx crd step select deselect clk latched period work mute"
    and "\<not> bit (reg d SYST_CSR) 1" "quiet d" "rx d = []" "mute (crd d)"
  shows "\<exists>d'. main pb mb junk entry0 file0 heap_start heap_end start (zero_kernel (m, d)) = Some (Some 0, zero_kernel (m, d')) \<and>
    \<not> bit (reg d' SYST_CSR) 1 \<and> sent d' = sent d @ replicate 80 0x0A @ butlast banner @ butlast sd_failed"
proof -
  let ?k = "zero_kernel (m, d)"
  have k: "sd (k_fs ?k) = d" "?k\<lparr>k_fs := (k_fs ?k)\<lparr>sd := d'\<rparr>\<rparr> = zero_kernel (m, d')" for d'
    by (simp_all add: zero_kernel_def)
  obtain d' where "kernel_main pb mb junk entry0 file0 heap_start heap_end start ?k = Some (Returned (zero_kernel (m, d')))"
    "sent d' = sent d @ replicate 80 0x0A @ butlast banner @ butlast sd_failed" "reg d' SYST_CSR = reg d SYST_CSR"
    using kernel_without_card_returns [OF assms(1,2), of ?k mb junk entry0 file0 heap_start heap_end start] assms(4-6)
    unfolding k by auto
  then show ?thesis using assms(3) by (auto simp: main_def)
qed

theorem main_without_card_witness:
  "\<exists>d'. main board_bus mem_bus (\<lambda>_. junk1) info1 info1 0x20001000 0x20009000 (\<lambda>_. Some)
      (zero_kernel (\<lambda>_. 5, board_of False ((fresh_card disk1)\<lparr>inserted := False\<rparr>))) = Some (Some 0, zero_kernel (\<lambda>_. 5, d')) \<and>
    bd_sent d' = replicate 80 0x0A @ butlast banner @ butlast sd_failed"
  using main_without_card [where mb = mem_bus and junk = "\<lambda>_. junk1" and ?entry0.0 = info1 and ?file0.0 = info1 and
      heap_start = "0x20001000" and heap_end = "0x20009000" and start = "\<lambda>_. Some" and m = "\<lambda>_. 5" and
      d = "board_of False ((fresh_card disk1)\<lparr>inserted := False\<rparr>)", OF bd.board_axioms bd_mute.mute_line_axioms]
  by (auto simp: board_of_def engine0_def chip0_def reg_file0_def rf_content_def system_regs_neq)

end
