(* ===== verification/Spec2Isabelle.thy ===== *)
theory Spec2Isabelle
  imports Heap_Props Fat_Props Sd_Props Crc32 Process Fat_Client Reset
begin

text \<open>
  Verification of the kernel of openGPOS for the RP2040, with its drivers, its C library, its boot code and the
  tool that signs the boot stage.  All paths below are relative to \<open>src/\<close>.

  \<^bold>\<open>The program.\<close>  The second boot stage sets up the flash controller and jumps through the vector table.  The
  reset handler copies the initialised data, clears the rest, sets up the clocks (\<open>SystemInit\<close>) and calls
  \<open>main\<close>.  \<open>kernel_main\<close> releases the peripherals from reset, prints a banner over the UART, starts the SD card
  over SPI, sets up the heap, mounts the FAT32 volume, loads \<open>/bin/init.elf\<close> and calls its entry point.  The start
  code of the program sets up its own heap and calls its \<open>main\<close>.  The program talks to the kernel through the SVC exception.  \<open>memcpy\<close> of the C library is a DMA transfer.

  \<^bold>\<open>Conventions.\<close>  Machine integers are words of their width, pointers are 32-bit words and the memory is a
  function from addresses to bytes (\<open>mem\<close>); C arrays and strings that are only accessed through one pointer
  are lists of bytes, and an access outside of them is a value of the model.  \<open>None\<close> means that the
  code does not return (an endless poll, an access through a wild pointer, a division by zero); loops that may run forever are
  partial functions, so no fuel is chosen anywhere.  A theorem about such a function says that it
  returns.  Registers are not code: a record \<open>bus\<close> holds the effect of a read and of a write of a register
  on the state of the peripherals and is an argument.  What a driver needs of the hardware is the contract of a locale; its
  interpretation on a small simulated device shows that it can be met, and the witnesses are computed there.
  Values of uninitialised local variables are arguments too.  The copy of a name part in \<open>fat_lfn_to_utf8\<close> is
  modelled by its result, not as a DMA transfer; the copies of the loader, of \<open>realloc\<close> and of the reset handler are transfers.

  \<^bold>\<open>Theories.\<close>
    \<^item> \<open>Prelude\<close>: names of the word types and the shared facts on words, lists and options.  \<open>Memory\<close>: loads and
      stores, byte ranges, \<open>libc/src/string/memset.c\<close>.
    \<^item> \<open>Hexutils\<close> (\<open>src/lib/util/hexutils.c\<close>): number printers and little-endian readers; the digits printed have the
      value of the number.  \<open>Cstring\<close> (\<open>libc/src/string\<close>): the string functions.
    \<^item> \<open>Heap\<close>, \<open>Heap_Spec\<close>, \<open>Heap_Correct\<close>, \<open>Heap_Props\<close>, \<open>Realloc\<close> (\<open>libc/src/stdlib/heap.c\<close>): the headers in
      memory, the chain of blocks they form, the abstract first-fit allocator on a list of blocks, and the
      refinement of \<open>malloc\<close>, \<open>free\<close> and \<open>realloc\<close>, with what happens to the \<open>prev\<close> links.
    \<^item> \<open>Fat_Volume\<close>, \<open>Fat_Entry\<close>, \<open>Fat_Dir\<close>, \<open>Fat_File\<close> (\<open>src/driver/fs/FAT32.c\<close>): the code, over the record \<open>blockdev\<close> of
      the three functions of the SD driver it calls; \<open>Fat_Entry\<close> has the packed structures of a directory entry and their layout.  \<open>Block_Device\<close>: the contract \<open>block_device\<close> of these functions and the
      volume as data (table, chains, clusters).  \<open>Fat_Scan\<close>, \<open>Fat_Names\<close>, \<open>Fat_Path\<close>, \<open>Fat_Read\<close>, \<open>Fat_Mount\<close>: directory
      iteration is a scan of a flat list of entries, names, path resolution, reading, mounting.
      \<open>Fat_Example\<close>, \<open>Fat_Props\<close>: a volume to compute with, and the properties.  \<open>Fat_Client\<close>: the calls of the driver as
      a state machine over an arbitrary device, and the invariant of the table of handles.
    \<^item> \<open>Bus\<close>, \<open>Console\<close> (\<open>src/driver/uart/uart.c\<close>, \<open>libc/src/unistd\<close>): UART and timer, the contracts \<open>timer\<close> and
      \<open>uart_port\<close>.  \<open>Spi\<close>, \<open>Sd\<close> (\<open>src/driver/spi/spi.c\<close>, \<open>src/lib/sd/SD.c\<close>): the code.  \<open>Sd_Read\<close>: the contracts
      \<open>spi_port\<close> and \<open>sd_card\<close>; the driver meets \<open>block_device\<close> (a sublocale), so the file system theorems hold on the
      card.  \<open>Sd_Init\<close>: the contracts \<open>sd_startup\<close> (the phases of a card) and \<open>mute_line\<close> (no card), \<open>SDInit\<close> and \<open>SDShutdown\<close>.
      \<open>Sd_Example\<close>, \<open>Sd_Props\<close>: a simulated card, and the properties.
    \<^item> \<open>Dma\<close> (\<open>src/driver/dma/dma.c\<close>, \<open>memcpy.c\<close>): the driver, the contracts \<open>dma_channel\<close> (a channel out of
      reset) and \<open>held_dma\<close> (one held in reset), and \<open>memcpy\<close>.
    \<^item> \<open>Elf\<close>, \<open>Elf_Props\<close> (\<open>src/lib/elf/elf.c\<close>): the loader, the image an ELF file describes, and the composition of file
      system, heap and DMA in the contracts \<open>copier\<close> and \<open>loader\<close>.
    \<^item> \<open>Syscall\<close> (\<open>src/kernel/syscall.c\<close>, \<open>write.c\<close>, \<open>programs/init.c\<close>): the handler instruction by instruction with exception
      entry and return, the dispatcher, the caller and the first program.  \<open>Process\<close> (\<open>src/kernel/process.c\<close>): the process table.
    \<^item> \<open>System\<close> (\<open>system_rp2040.c\<close>): \<open>SystemInit\<close> over the contract \<open>registers\<close>; \<open>register_view\<close> relates two
      buses with the same control registers.  \<open>Startup\<close> (\<open>startup_rp2040.c\<close>,
      \<open>boot2/bootStage2QuadIO.c\<close>, \<open>crt0.c\<close>): vector table, handlers and second boot stage, the contract \<open>flash_controller\<close>.
    \<^item> \<open>Board_Example\<close>, \<open>Kernel\<close>, \<open>Kernel_Props\<close> (\<open>src/kernel/main.c\<close>): all simulated devices on one board, \<open>kernel_main\<close> over the
      contract \<open>board\<close>, which joins those of the drivers.  \<open>Reset\<close>: the reset handler with \<open>SystemInit\<close> up to the first delay of
      \<open>SDInit\<close>, over the contract \<open>cold_start\<close>; and \<open>main\<close> up to the call of the first program, over the contract \<open>board_memory\<close>,
      with the theorems on both.
    \<^item> \<open>Crc32\<close> (\<open>boot2/compCrc32.c\<close>): the table-driven checksum is polynomial division; the tool around it.

  \<^bold>\<open>What is shown.\<close>  The allocator implements first fit on a list of blocks and never hands out an allocated
  byte; it keeps its backward links exactly when it does not split a block before an allocated one.  The file
  system returns the bytes of the file a path names, for every volume whose directories and chains are well formed; long and
  short names are read back as written.  The card driver returns the blocks of the card and starts every card that
  answers within its tries.  The loader leaves the image of the file in memory.  On top, \<open>kernel_boots\<close> is the
  way from \<open>main\<close> to the call of the program named \<open>/bin/init.elf\<close> on the card, and \<open>main_without_card\<close> the case without a
  card.  Both are for a run that is not interrupted: they ask that the SysTick exception is disabled when \<open>main\<close> is
  entered, and say that it still is at the end.  The program as it is does not meet this condition: \<open>SystemInit\<close> enables the exception, and
  \<open>tick_precedes_card\<close> is what happens from power-on: at the latest in the first delay of \<open>SDInit\<close>, with nothing but
  the banner on the console and before the card has been sent a byte, the exception ends the kernel in the default handler.  Several theorems state how the code
  misbehaves: writing a block never returns, \<open>strchr\<close> does not search, the handler loses the result of
  a system call, no process can be created, the enabled timer exception has no handler, and the reset handler does not
  copy the initialised data because the DMA is still held in reset.

  \<^bold>\<open>Bounds.\<close>  The theorems on files need sizes below \<open>2 ^ 31\<close> (the signed \<open>min\<close> of the driver); the loader reads headers
  in the first 64 KiB of a file (16-bit offsets of \<open>read_le32\<close>); heaps end below \<open>0xFFFFFFF0\<close>; \<open>SDInit\<close> gives up after 5000
  rounds.  \<open>loadELF_loads\<close> is for programs outside the heap of the kernel; the linker scripts place them inside,
  and \<open>kernel_boots\<close> covers that: on the fresh heap only the part that the buffer takes has to stay clear.

  \<^bold>\<open>Not modelled.\<close>  Exceptions other than the system call are not taken inside a definition: all their vectors are
  the default handler, which never returns, so taking one is the end of the run.  The only one the code enables is
  SysTick; the theorems named above say where that matters, and the others are about a function that is not interrupted.
  The rest of \<open>process.c\<close>: \<open>run_process\<close> does not compile and \<open>schedule\<close> is commented out.  \<open>systick.c\<close>
  is empty.  Registers, register fields, types and prototypes that no code uses, and the functions that are
  commented out (\<open>dumpHeap\<close>, \<open>SDReadCSD\<close>, earlier versions of \<open>memcpy\<close> and \<open>byteToStr\<close>).  The machine code of programs: a program is its effect
  on memory and peripherals, and for \<open>init.c\<close> the model of its source.  Caches, bus errors (a store to
  the boot ROM at the low addresses is a store to the memory), the mode of the flash controller when its words are read, and the timing of
  the hardware beyond the contracts; the timer and the UART are taken to follow theirs at any time, although the code uses them only
  after their release from reset.
\<close>

end
